(* ===== verification/Prelude.thy ===== *)
theory Prelude
  imports Main "HOL-Library.Word" "HOL-Library.Char_ord" "HOL-Library.List_Lexorder"
begin

section \<open>Shared ground: Go strings, errors, time and integers\<close>

text \<open>
  What every component of idemlease uses of the Go language and of its standard library.

  \<^item> A Go \<^verbatim>\<open>string\<close> and a Go \<^verbatim>\<open>[]byte\<close> are both sequences of 8-bit bytes. HOL's
    \<^typ>\<open>char\<close> has exactly 256 values, so both are \<^typ>\<open>string\<close>; conversions between the two
    and defensive copies (\<^verbatim>\<open>bytes.Clone\<close>) are the identity. A nil slice is the empty list.
  \<^item> \<^verbatim>\<open>time.Time\<close> is an instant in nanoseconds since the Unix epoch, \<^verbatim>\<open>time.Duration\<close> a
    number of nanoseconds that fits \<^verbatim>\<open>int64\<close>; where the code's \<^verbatim>\<open>int64\<close> arithmetic can
    overflow, \<open>wrap64\<close> writes the wrap-around out.
  \<^item> An error value is a package-level sentinel, an opaque error, or an error that wraps
    others (\<^verbatim>\<open>fmt.Errorf\<close> with \<^verbatim>\<open>%w\<close>); \<open>errors_Is\<close> is \<^verbatim>\<open>errors.Is\<close> against a sentinel.
\<close>

named_theorems go_simps \<open>evaluation rules for the Go primitives\<close>
named_theorems store_simps \<open>unfolding rules for the operations of a store\<close>

type_synonym bytes = string
type_synonym Time = int
type_synonym Duration = int

subsection \<open>Errors\<close>

datatype sentinel =
    ErrAlreadyExists | ErrTokenMismatch | ErrNotFound
  | ErrKeyMissing | ErrKeyInvalid | ErrInFlight | ErrFingerprintMismatch
  | ErrRequestBodyTooLarge | ErrStoreUnavailable | ErrCorruptStoredResponse
  | ErrNotSupported | ErrNoRows | ErrRedisNil | ErrAlreadyCompleted
  | ErrMetadataKeyMissing

datatype gerror = Sentinel sentinel | Opaque string | Wrap string "gerror list"

fun errors_Is :: "gerror \<Rightarrow> sentinel \<Rightarrow> bool" where
  "errors_Is (Sentinel x) t = (x = t)"
| "errors_Is (Opaque m) t = False"
| "errors_Is (Wrap m es) t = list_ex (\<lambda>e. errors_Is e t) es"

text \<open>The message texts of the sentinels, for the places that print an error.\<close>

fun sentinel_text :: "sentinel \<Rightarrow> string" where
  "sentinel_text ErrAlreadyExists = ''idemlease: record already exists''"
| "sentinel_text ErrTokenMismatch = ''idemlease: reservation token mismatch''"
| "sentinel_text ErrNotFound = ''idemlease: record not found''"
| "sentinel_text ErrKeyMissing = ''httpidem: Idempotency-Key header is missing''"
| "sentinel_text ErrKeyInvalid = ''httpidem: Idempotency-Key header is invalid''"
| "sentinel_text ErrInFlight = ''httpidem: a request with this Idempotency-Key is in flight''"
| "sentinel_text ErrFingerprintMismatch =
     ''httpidem: Idempotency-Key was already used with a different request''"
| "sentinel_text ErrRequestBodyTooLarge = ''httpidem: request body exceeds MaxRequestBody''"
| "sentinel_text ErrStoreUnavailable = ''httpidem: idempotency store is unavailable''"
| "sentinel_text ErrCorruptStoredResponse = ''httpidem: corrupted stored response payload''"
| "sentinel_text ErrNotSupported = ''feature not supported''"
| "sentinel_text ErrNoRows = ''sql: no rows in result set''"
| "sentinel_text ErrRedisNil = ''redis: nil''"
| "sentinel_text ErrAlreadyCompleted = ''pgstore: record already completed with this token''"
| "sentinel_text ErrMetadataKeyMissing = ''grpcidem: idempotency-key metadata is missing''"

fun Error :: "gerror \<Rightarrow> string" where
  "Error (Sentinel x) = sentinel_text x"
| "Error (Opaque m) = m"
| "Error (Wrap m es) = m"

text \<open>\<^verbatim>\<open>fmt.Errorf("prefix: %w", err)\<close> and \<^verbatim>\<open>fmt.Errorf("%w: detail", err)\<close>.\<close>

definition wrap_after :: "string \<Rightarrow> gerror \<Rightarrow> gerror" where
  "wrap_after pre e = Wrap (pre @ Error e) [e]"

definition wrap_before :: "gerror \<Rightarrow> string \<Rightarrow> gerror" where
  "wrap_before e post = Wrap (Error e @ post) [e]"

lemma errors_Is_wrap_after [simp]: "errors_Is (wrap_after m e) t = errors_Is e t"
  by (simp add: wrap_after_def)

lemma errors_Is_wrap_before [simp]: "errors_Is (wrap_before e m) t = errors_Is e t"
  by (simp add: wrap_before_def)

subsection \<open>Signed 64-bit arithmetic and durations\<close>

definition wrap64 :: "int \<Rightarrow> int" where
  "wrap64 x = (x + 2 ^ 63) mod 2 ^ 64 - 2 ^ 63"

definition in_int64 :: "int \<Rightarrow> bool" where
  "in_int64 x \<longleftrightarrow> - (2 ^ 63) \<le> x \<and> x < 2 ^ 63"

lemma wrap64_word: "wrap64 x = sint (word_of_int x :: 64 word)"
  by (simp add: wrap64_def sint_uint signed_take_bit_eq_take_bit_shift take_bit_eq_mod
      uint_word_of_int mod_simps)

lemma wrap64_id [simp]: "in_int64 x \<Longrightarrow> wrap64 x = x"
  by (simp add: wrap64_def in_int64_def)

lemma in_int64_wrap64 [simp]: "in_int64 (wrap64 x)"
proof -
  have "0 \<le> (x + 2 ^ 63) mod 2 ^ 64" and "(x + 2 ^ 63) mod 2 ^ 64 < (2 ^ 64 :: int)"
    by simp_all
  then show ?thesis by (simp add: wrap64_def in_int64_def)
qed

lemma wrap64_above:
  assumes "2 ^ 63 \<le> x" "x < 2 ^ 63 + 2 ^ 64"
  shows "wrap64 x = x - 2 ^ 64"
proof -
  have "(x + 2 ^ 63) mod 2 ^ 64 = (x + 2 ^ 63 - 2 ^ 64) mod 2 ^ 64" by (rule minus_mod_self2 [symmetric])
  also have "\<dots> = x + 2 ^ 63 - 2 ^ 64" using assms by (intro mod_pos_pos_trivial) simp_all
  finally show ?thesis by (simp add: wrap64_def)
qed

text \<open>Go's integer division truncates towards zero.\<close>

definition quot :: "int \<Rightarrow> int \<Rightarrow> int" where
  "quot a b = sgn a * sgn b * (\<bar>a\<bar> div \<bar>b\<bar>)"

lemma quot_nonneg: "0 \<le> a \<Longrightarrow> 0 < b \<Longrightarrow> quot a b = a div b"
  by (cases "a = 0") (simp_all add: quot_def)

lemma quot_nonpos: "a \<le> 0 \<Longrightarrow> 0 < b \<Longrightarrow> quot a b = - ((- a) div b)"
  by (cases "a = 0") (simp_all add: quot_def)

definition Second :: Duration where
  "Second = 1000000000"

definition Millisecond :: Duration where
  "Millisecond = 1000000"

text \<open>\<^verbatim>\<open>Duration.Milliseconds\<close>, \<^verbatim>\<open>Time.Add\<close> and the saturating \<^verbatim>\<open>Time.Sub\<close>.\<close>

definition Milliseconds :: "Duration \<Rightarrow> int" where
  "Milliseconds d = quot d Millisecond"

definition time_Add :: "Time \<Rightarrow> Duration \<Rightarrow> Time" where
  "time_Add t d = t + d"

definition time_Sub :: "Time \<Rightarrow> Time \<Rightarrow> Duration" where
  "time_Sub t u = max (- (2 ^ 63)) (min (2 ^ 63 - 1) (t - u))"

text \<open>The zero \<^verbatim>\<open>time.Time\<close> (January 1, year 1, UTC) in nanoseconds since the epoch.\<close>

definition zero_Time :: Time where
  "zero_Time = - 62135596800 * 1000000000"

lemma time_Sub_pos: "u < t \<Longrightarrow> 0 < time_Sub t u"
  by (simp add: time_Sub_def)

lemma time_Sub_le: "u \<le> t \<Longrightarrow> time_Sub t u \<le> t - u"
  by (simp add: time_Sub_def)

lemma in_int64_time_Sub [simp]: "in_int64 (time_Sub t u)"
  by (simp add: time_Sub_def in_int64_def)

subsection \<open>Decimal numerals\<close>

fun digits_of :: "nat \<Rightarrow> string" where
  "digits_of n = (if n < 10 then [char_of (48 + n)] else digits_of (n div 10) @ [char_of (48 + n mod 10)])"

declare digits_of.simps [simp del]

text \<open>\<^verbatim>\<open>strconv.FormatInt(x, 10)\<close>, also what \<^verbatim>\<open>%d\<close> prints.\<close>

definition FormatInt :: "int \<Rightarrow> string" where
  "FormatInt x = (if x < 0 then ''-'' @ digits_of (nat (- x)) else digits_of (nat x))"

fun digits_value :: "nat \<Rightarrow> string \<Rightarrow> nat option" where
  "digits_value acc [] = Some acc"
| "digits_value acc (c # cs) =
     (if 48 \<le> (of_char c :: nat) \<and> (of_char c :: nat) \<le> 57
      then digits_value (10 * acc + (of_char c - 48)) cs else None)"

text \<open>\<^verbatim>\<open>strconv.ParseInt(s, 10, 64)\<close>: an optional sign, digits, and the range of int64.\<close>

definition ParseInt :: "string \<Rightarrow> int option" where
  "ParseInt s =
     (let (neg, ds) = (case s of
            [] \<Rightarrow> (False, [])
          | c # cs \<Rightarrow> if c = CHR ''-'' then (True, cs) else if c = CHR ''+'' then (False, cs) else (False, s))
      in if ds = [] then None
         else case digits_value 0 ds of
             None \<Rightarrow> None
           | Some n \<Rightarrow> (let x = (if neg then - int n else int n) in if in_int64 x then Some x else None))"

lemma digits_value_snoc:
  "digits_value acc (cs @ [c]) = (case digits_value acc cs of
     None \<Rightarrow> None | Some m \<Rightarrow> digits_value m [c])"
  by (induction acc cs rule: digits_value.induct) auto

lemma of_char_digit: "d < 10 \<Longrightarrow> (of_char (char_of (48 + d :: nat)) :: nat) = 48 + d"
  by (simp add: of_char_of)

lemma digits_value_digits_of: "digits_value 0 (digits_of n) = Some n"
proof (induction n rule: digits_of.induct)
  case (1 n)
  show ?case
  proof (cases "n < 10")
    case True
    then show ?thesis by (simp add: digits_of.simps [of n] of_char_digit)
  next
    case False
    with 1 have "digits_value 0 (digits_of (n div 10)) = Some (n div 10)" by simp
    then show ?thesis
      using False by (simp add: digits_of.simps [of n] digits_value_snoc of_char_digit)
  qed
qed

lemma digits_of_nonempty [simp]: "digits_of n \<noteq> []"
  by (subst digits_of.simps) simp

lemma digits_of_digit: "c \<in> set (digits_of n) \<Longrightarrow> 48 \<le> (of_char c :: nat) \<and> (of_char c :: nat) \<le> 57"
proof (induction n rule: digits_of.induct)
  case (1 n)
  then show ?case
    by (cases "n < 10") (auto simp: digits_of.simps [of n] of_char_digit)
qed

lemma hd_digits_of: "hd (digits_of n) \<noteq> CHR ''-'' \<and> hd (digits_of n) \<noteq> CHR ''+''"
  using digits_of_digit [OF hd_in_set [OF digits_of_nonempty], of n] by auto

lemma ParseInt_FormatInt: "in_int64 x \<Longrightarrow> ParseInt (FormatInt x) = Some x"
proof (cases "x < 0")
  case True
  assume "in_int64 x"
  with True show ?thesis by (simp add: ParseInt_def FormatInt_def digits_value_digits_of)
next
  case False
  assume "in_int64 x"
  moreover obtain c cs where "digits_of (nat x) = c # cs"
    by (cases "digits_of (nat x)") auto
  ultimately show ?thesis
    using False hd_digits_of [of "nat x"] digits_value_digits_of [of "nat x"]
    by (simp add: ParseInt_def FormatInt_def)
qed

text \<open>\<^verbatim>\<open>%02X\<close> of a byte.\<close>

definition hex_upper :: "nat \<Rightarrow> char" where
  "hex_upper n = ''0123456789ABCDEF'' ! n"

definition hex2 :: "char \<Rightarrow> string" where
  "hex2 c = [hex_upper (of_char c div 16), hex_upper (of_char c mod 16)]"

subsection \<open>Separated strings\<close>

lemma sep_first_inject:
  assumes "xs @ z # ys = xs' @ z # ys'" "z \<notin> set xs" "z \<notin> set xs'"
  shows "xs = xs' \<and> ys = ys'"
proof -
  have "takeWhile (\<lambda>x. x \<noteq> z) (xs @ z # ys) = xs"
    using assms(2) by (auto simp: takeWhile_append)
  moreover have "takeWhile (\<lambda>x. x \<noteq> z) (xs' @ z # ys') = xs'"
    using assms(3) by (auto simp: takeWhile_append)
  ultimately show ?thesis using assms(1) by auto
qed

lemma sep_last_inject:
  assumes "xs @ z # ys = xs' @ z # ys'" "z \<notin> set ys" "z \<notin> set ys'"
  shows "xs = xs' \<and> ys = ys'"
proof -
  have "rev ys @ z # rev xs = rev ys' @ z # rev xs'"
    using arg_cong [OF assms(1), of rev] by simp
  from sep_first_inject [OF this] assms(2,3) show ?thesis by simp
qed

lemmas time_defs = time_Add_def time_Sub_def Second_def Millisecond_def

end
