(* ===== verification/Store_Contract.thy ===== *)
theory Store_Contract
  imports Prelude
begin

section \<open>Records and the store interface\<close>

text \<open>
  The persisted unit (\<^verbatim>\<open>record.go\<close>), the \<^verbatim>\<open>Store\<close> interface (\<^verbatim>\<open>store.go\<close>) as a record of
  operations over a store state \<open>'s\<close> and an environment \<open>'e\<close> (what the operation reads of
  the outside world: clocks, failures), and the contract of the interface as the locale
  \<open>lease_store\<close>. The stores of the repository interpret the locale; the core's lemmas are
  proved once in it.
\<close>

type_synonym State = "8 word"

definition StateReserved :: State where
  "StateReserved = 1"

definition StateCompleted :: State where
  "StateCompleted = 2"

lemma state_distinct [simp]: "StateReserved \<noteq> StateCompleted" "StateCompleted \<noteq> StateReserved"
  by (simp_all add: StateReserved_def StateCompleted_def)

record Record =
  Key :: string
  Fingerprint :: bytes
  State :: State
  Token :: string
  LeaseExpiresAt :: Time
  RecordExpiresAt :: Time
  Payload :: bytes

definition Expired :: "Record \<Rightarrow> Time \<Rightarrow> bool" where
  "Expired r now =
     (if State r = StateReserved then \<not> now < LeaseExpiresAt r
      else if State r = StateCompleted then \<not> now < RecordExpiresAt r
      else True)"

text \<open>The deadline that bounds a record in its current state.\<close>

definition active_deadline :: "Record \<Rightarrow> Time" where
  "active_deadline r = (if State r = StateReserved then LeaseExpiresAt r else RecordExpiresAt r)"

definition known_state :: "State \<Rightarrow> bool" where
  "known_state x \<longleftrightarrow> x = StateReserved \<or> x = StateCompleted"

lemma Expired_iff: "Expired r now \<longleftrightarrow> \<not> (known_state (State r) \<and> now < active_deadline r)"
  by (auto simp: Expired_def active_deadline_def known_state_def)

lemma Expired_mono: "Expired r t \<Longrightarrow> t \<le> u \<Longrightarrow> Expired r u"
  by (auto simp: Expired_def split: if_splits)

subsection \<open>The interface\<close>

type_synonym ('s, 'e) reserve_op = "'e \<Rightarrow> Record \<Rightarrow> 's \<Rightarrow> (Record option \<times> gerror option) \<times> 's"
type_synonym ('s, 'e) complete_op =
  "'e \<Rightarrow> string \<Rightarrow> string \<Rightarrow> bytes \<Rightarrow> Duration \<Rightarrow> 's \<Rightarrow> gerror option \<times> 's"
type_synonym ('s, 'e) release_op = "'e \<Rightarrow> string \<Rightarrow> string \<Rightarrow> 's \<Rightarrow> gerror option \<times> 's"
type_synonym ('s, 'e) get_op = "'e \<Rightarrow> string \<Rightarrow> 's \<Rightarrow> (Record option \<times> gerror option) \<times> 's"

record ('s, 'e) Store =
  Reserve :: "('s, 'e) reserve_op"
  Complete :: "('s, 'e) complete_op"
  Release :: "('s, 'e) release_op"
  Get :: "('s, 'e) get_op"

subsection \<open>What a store promises\<close>

text \<open>
  The logical content of a store: for each key at most one live lease or stored result. A
  record whose deadline has passed on the store's clock is absent, whatever bytes remain.
\<close>

record lease =
  l_state :: State
  l_token :: string
  l_fp :: bytes
  l_payload :: bytes
  l_deadline :: Time

type_synonym view = "string \<Rightarrow> lease option"

text \<open>The part of a view that is still live at a later instant.\<close>

definition live_at :: "Time \<Rightarrow> view \<Rightarrow> view" where
  "live_at t v = (\<lambda>k. case v k of None \<Rightarrow> None | Some l \<Rightarrow> if t < l_deadline l then Some l else None)"

lemma live_at_None [simp]: "v k = None \<Longrightarrow> live_at t v k = None"
  by (simp add: live_at_def)

lemma live_at_Some: "v k = Some l \<Longrightarrow> live_at t v k = (if t < l_deadline l then Some l else None)"
  by (simp add: live_at_def)

lemma live_at_upd_Some:
  "live_at t (v(k := Some l)) = (live_at t v)(k := if t < l_deadline l then Some l else None)"
  by (rule ext) (simp add: live_at_def)

lemma live_at_upd_None [simp]: "live_at t (v(k := None)) = (live_at t v)(k := None)"
  by (rule ext) (simp add: live_at_def)

definition new_lease :: "Record \<Rightarrow> Time \<Rightarrow> lease" where
  "new_lease r d = \<lparr>l_state = StateReserved, l_token = Token r, l_fp = Fingerprint r,
     l_payload = [], l_deadline = d\<rparr>"

definition completed_lease :: "lease \<Rightarrow> bytes \<Rightarrow> Time \<Rightarrow> lease" where
  "completed_lease l p d = l\<lparr>l_state := StateCompleted, l_payload := p, l_deadline := d\<rparr>"

lemma new_lease_sel [simp]:
  "l_state (new_lease r d) = StateReserved" "l_token (new_lease r d) = Token r"
  "l_fp (new_lease r d) = Fingerprint r" "l_payload (new_lease r d) = []"
  "l_deadline (new_lease r d) = d"
  by (simp_all add: new_lease_def)

lemma completed_lease_sel [simp]:
  "l_state (completed_lease l p d) = StateCompleted" "l_token (completed_lease l p d) = l_token l"
  "l_fp (completed_lease l p d) = l_fp l" "l_payload (completed_lease l p d) = p"
  "l_deadline (completed_lease l p d) = d"
  by (simp_all add: completed_lease_def)

text \<open>A record as the core builds it for \<^verbatim>\<open>Reserve\<close>: reserved, with no payload.\<close>

definition is_reservation :: "Record \<Rightarrow> bool" where
  "is_reservation r \<longleftrightarrow> State r = StateReserved \<and> Payload r = []"

text \<open>A reported record agrees with the stored lease in all but its absolute deadline.\<close>

definition reports :: "Record \<Rightarrow> string \<Rightarrow> lease \<Rightarrow> bool" where
  "reports x k l \<longleftrightarrow> Key x = k \<and> State x = l_state l \<and> Token x = l_token l \<and>
     Fingerprint x = l_fp l \<and> Payload x = l_payload l"

text \<open>The lease under \<open>k\<close> is reserved under \<open>token\<close>.\<close>

definition held_by :: "view \<Rightarrow> string \<Rightarrow> string \<Rightarrow> lease \<Rightarrow> bool" where
  "held_by v k token l \<longleftrightarrow> v k = Some l \<and> l_state l = StateReserved \<and> l_token l = token"

definition lost_error :: "gerror option \<Rightarrow> bool" where
  "lost_error err \<longleftrightarrow>
     (\<exists>x. err = Some x \<and> (errors_Is x ErrTokenMismatch \<or> errors_Is x ErrNotFound))"

definition infra_error :: "gerror option \<Rightarrow> bool" where
  "infra_error err \<longleftrightarrow> (\<exists>x. err = Some x \<and> \<not> errors_Is x ErrAlreadyExists \<and>
     \<not> errors_Is x ErrTokenMismatch \<and> \<not> errors_Is x ErrNotFound)"

text \<open>
  The contract (\<^verbatim>\<open>store.go\<close>, REQUIREMENTS 3.2). \<open>sview t s\<close> is the logical content of
  state \<open>s\<close> at store time \<open>t\<close>; \<open>sclock e\<close> the store's clock when the operation takes effect;
  \<open>up e\<close> that the infrastructure works and nobody else writes between the statements of one
  operation; \<open>grant e r\<close> the deadline a reservation gets, \<open>keep e ttl\<close> the one a completed
  record gets, and \<open>rebuilt e d\<close> how a deadline is reported on the caller's clock.
  Equations between views are stated for every instant from the operation on.
\<close>

locale lease_store =
  fixes S :: "('s, 'e) Store"
    and sinv :: "'s \<Rightarrow> bool"
    and sview :: "Time \<Rightarrow> 's \<Rightarrow> view"
    and sclock :: "'e \<Rightarrow> Time"
    and up :: "'e \<Rightarrow> bool"
    and grant :: "'e \<Rightarrow> Record \<Rightarrow> Time"
    and keep :: "'e \<Rightarrow> Duration \<Rightarrow> Time"
    and rebuilt :: "'e \<Rightarrow> Time \<Rightarrow> Time"
  assumes view_known: "\<lbrakk>sinv s; sview t s k = Some l\<rbrakk> \<Longrightarrow> known_state (l_state l) \<and> t < l_deadline l"
    and view_later: "\<lbrakk>sinv s; t \<le> u\<rbrakk> \<Longrightarrow> sview u s = live_at u (sview t s)"
    and reserve_inv: "\<lbrakk>sinv s; is_reservation r; Reserve S e r s = (res, s')\<rbrakk> \<Longrightarrow> sinv s'"
    and complete_inv: "\<lbrakk>sinv s; Complete S e k tok p ttl s = (err, s')\<rbrakk> \<Longrightarrow> sinv s'"
    and release_inv: "\<lbrakk>sinv s; Release S e k tok s = (err, s')\<rbrakk> \<Longrightarrow> sinv s'"
    and reserve_claims:
      "\<lbrakk>sinv s; up e; is_reservation r; sview (sclock e) s (Key r) = None;
        Reserve S e r s = (res, s'); sclock e \<le> t\<rbrakk>
       \<Longrightarrow> res = (None, None) \<and>
           sview t s' = live_at t ((sview (sclock e) s)(Key r := Some (new_lease r (grant e r))))"
    and reserve_refuses:
      "\<lbrakk>sinv s; up e; is_reservation r; sview (sclock e) s (Key r) = Some l;
        Reserve S e r s = (res, s'); sclock e \<le> t\<rbrakk>
       \<Longrightarrow> (\<exists>x err. res = (Some x, Some err) \<and> errors_Is err ErrAlreadyExists \<and>
              reports x (Key r) l \<and> active_deadline x = rebuilt e (l_deadline l)) \<and>
           sview t s' = sview t s"
    and complete_stores:
      "\<lbrakk>sinv s; up e; held_by (sview (sclock e) s) k tok l;
        Complete S e k tok p ttl s = (err, s'); sclock e \<le> t\<rbrakk>
       \<Longrightarrow> err = None \<and>
           sview t s' = live_at t ((sview (sclock e) s)(k := Some (completed_lease l p (keep e ttl))))"
    and complete_lost:
      "\<lbrakk>sinv s; up e; \<nexists>l. held_by (sview (sclock e) s) k tok l;
        Complete S e k tok p ttl s = (err, s'); sclock e \<le> t\<rbrakk>
       \<Longrightarrow> lost_error err \<and> sview t s' = sview t s"
    and release_frees:
      "\<lbrakk>sinv s; up e; held_by (sview (sclock e) s) k tok l;
        Release S e k tok s = (err, s'); sclock e \<le> t\<rbrakk>
       \<Longrightarrow> err = None \<and> sview t s' = (sview t s)(k := None)"
    and release_lost:
      "\<lbrakk>sinv s; up e; \<nexists>l. held_by (sview (sclock e) s) k tok l;
        Release S e k tok s = (err, s'); sclock e \<le> t\<rbrakk>
       \<Longrightarrow> lost_error err \<and> sview t s' = sview t s"

end
