(* ===== verification/Core.thy ===== *)
theory Core
  imports Store_Contract
begin

section \<open>The lease state machine: Begin and Finish\<close>

text \<open>
  \<^verbatim>\<open>idemlease.go\<close>. \<open>Begin\<close> takes the store as an argument, together with what it reads of
  the outside world: the random bytes of the token, and for each attempt of its loop the
  clock readings, the store's environment and what other executions do to the store before
  the attempt (\<open>at_between\<close>; attempts are separate atomic store operations, so anything may
  happen between two of them). \<open>Finish\<close> is one store operation.

  The lemmas of the locale \<open>lease_store\<close> at the end give the decision table of \<open>Begin\<close>
  and the transitions of \<open>Finish\<close> over any store that keeps the contract.
\<close>

datatype Action = Proceed | Replay | RejectInFlight | RejectFingerprintMismatch

record Outcome =
  Action :: Action
  OutToken :: string
  OutPayload :: bytes
  RetryAfter :: Duration

type_synonym Decision = int

definition Persist :: Decision where
  "Persist = 0"

definition Discard :: Decision where
  "Discard = 1"

lemma decision_distinct [simp]: "Persist \<noteq> Discard" "Discard \<noteq> Persist"
  by (simp_all add: Persist_def Discard_def)

definition DefaultLeaseTTL :: Duration where
  "DefaultLeaseTTL = 30 * Second"

definition DefaultRecordTTL :: Duration where
  "DefaultRecordTTL = 24 * 3600 * Second"

record Options =
  LeaseTTL :: Duration
  RecordTTL :: Duration

definition leaseTTL :: "Options \<Rightarrow> Duration" where
  "leaseTTL opts = (if LeaseTTL opts > 0 then LeaseTTL opts else DefaultLeaseTTL)"

definition recordTTL :: "Options \<Rightarrow> Duration" where
  "recordTTL opts = (if RecordTTL opts > 0 then RecordTTL opts else DefaultRecordTTL)"

definition Effective :: "Options \<Rightarrow> Options" where
  "Effective opts = \<lparr>LeaseTTL = leaseTTL opts, RecordTTL = recordTTL opts\<rparr>"

subsection \<open>Reservation tokens\<close>

definition hex_digit :: "nat \<Rightarrow> char" where
  "hex_digit n = ''0123456789abcdef'' ! n"

definition EncodeToString :: "bytes \<Rightarrow> string" where
  "EncodeToString bs =
     concat (map (\<lambda>c. [hex_digit (of_char c div 16), hex_digit (of_char c mod 16)]) bs)"

text \<open>\<open>rnd\<close> is what \<^verbatim>\<open>rand.Read\<close> yields: 16 bytes, or the error of the random source.\<close>

definition newToken :: "gerror + bytes \<Rightarrow> gerror + string" where
  "newToken rnd = (case rnd of
       Inl e \<Rightarrow> Inl (wrap_after ''idemlease: generate reservation token: '' e)
     | Inr b \<Rightarrow> Inr (EncodeToString b))"

subsection \<open>Begin\<close>

record ('s, 'e) attempt_env =
  at_between :: "'s \<Rightarrow> 's"
  at_deadline :: Time
  at_store :: 'e
  at_check :: Time

definition maxAttempts :: nat where
  "maxAttempts = 3"

definition reservation_of :: "string \<Rightarrow> bytes \<Rightarrow> string \<Rightarrow> Options \<Rightarrow> Time \<Rightarrow> Record" where
  "reservation_of key fingerprint token opts now =
     \<lparr>Key = key, Fingerprint = fingerprint, State = StateReserved, Token = token,
      LeaseExpiresAt = time_Add now (leaseTTL opts), RecordExpiresAt = zero_Time, Payload = []\<rparr>"

abbreviation proceed_outcome :: "string \<Rightarrow> Outcome" where
  "proceed_outcome token \<equiv> \<lparr>Action = Proceed, OutToken = token, OutPayload = [], RetryAfter = 0\<rparr>"

abbreviation replay_outcome :: "bytes \<Rightarrow> Outcome" where
  "replay_outcome p \<equiv> \<lparr>Action = Replay, OutToken = [], OutPayload = p, RetryAfter = 0\<rparr>"

abbreviation in_flight_outcome :: "Duration \<Rightarrow> Outcome" where
  "in_flight_outcome d \<equiv> \<lparr>Action = RejectInFlight, OutToken = [], OutPayload = [], RetryAfter = d\<rparr>"

abbreviation mismatch_outcome :: Outcome where
  "mismatch_outcome \<equiv> \<lparr>Action = RejectFingerprintMismatch, OutToken = [], OutPayload = [], RetryAfter = 0\<rparr>"

definition violation_error :: gerror where
  "violation_error =
     Opaque ''idemlease: store keeps returning an expired record as existing (contract violation)''"

text \<open>What one pass through the loop body decides: return, or go round again.\<close>

datatype attempt_result = Return "gerror + Outcome" | Again

text \<open>The branches on a record the store reported as existing.\<close>

definition on_existing :: "Record \<Rightarrow> bytes \<Rightarrow> Time \<Rightarrow> nat \<Rightarrow> attempt_result" where
  "on_existing x fingerprint now attempt =
     (if Expired x now then
        (if attempt < maxAttempts then Again else Return (Inl violation_error))
      else if State x = StateReserved then
        Return (Inr (in_flight_outcome (time_Sub (LeaseExpiresAt x) now)))
      else if State x = StateCompleted then
        (if Fingerprint x = fingerprint then Return (Inr (replay_outcome (Payload x)))
         else Return (Inr mismatch_outcome))
      else Return (Inl (Opaque (''idemlease: store returned existing record with invalid state '' @ FormatInt (uint (State x))))))"

definition begin_attempt :: "('s, 'e) Store \<Rightarrow> ('s, 'e) attempt_env \<Rightarrow> string \<Rightarrow> bytes \<Rightarrow> string \<Rightarrow>
    Options \<Rightarrow> nat \<Rightarrow> 's \<Rightarrow> attempt_result \<times> 's" where
  "begin_attempt S env key fingerprint token opts attempt s =
     (let ((existing, err), s') = Reserve S (at_store env)
            (reservation_of key fingerprint token opts (at_deadline env)) (at_between env s)
      in case err of
           None \<Rightarrow> (Return (Inr (proceed_outcome token)), s')
         | Some e \<Rightarrow>
             (if \<not> errors_Is e ErrAlreadyExists then (Return (Inl e), s')
              else case existing of
                None \<Rightarrow> (Return (Inl (Opaque ''idemlease: store returned ErrAlreadyExists without the existing record'')), s')
              | Some x \<Rightarrow> (on_existing x fingerprint (at_check env) attempt, s')))"

lemma on_existing_Again: "on_existing x fp now n = Again \<Longrightarrow> n < maxAttempts"
  by (auto simp: on_existing_def split: if_splits)

text \<open>The loop goes round again only while attempts are left: its termination measure.\<close>

lemma begin_attempt_Again:
  "(Again, s') = begin_attempt S a key fp token opts n s \<Longrightarrow> n < maxAttempts"
  by (auto simp: begin_attempt_def dest: on_existing_Again [OF sym] split: prod.splits option.splits if_splits)

lemma begin_attempt_Proceed:
  "begin_attempt S a key fp tok opts n s = (Return (Inr out), s') \<Longrightarrow> Action out = Proceed \<Longrightarrow> out = proceed_outcome tok"
  by (auto simp: begin_attempt_def on_existing_def split: prod.splits option.splits if_splits)

function begin_loop :: "('s, 'e) Store \<Rightarrow> (nat \<Rightarrow> ('s, 'e) attempt_env) \<Rightarrow> string \<Rightarrow> bytes \<Rightarrow> string \<Rightarrow>
    Options \<Rightarrow> nat \<Rightarrow> 's \<Rightarrow> (gerror + Outcome) \<times> 's" where
  "begin_loop S env key fingerprint token opts attempt s =
     (case begin_attempt S (env attempt) key fingerprint token opts attempt s of
        (Return r, s') \<Rightarrow> (r, s')
      | (Again, s') \<Rightarrow>
          begin_loop S env key fingerprint token opts (Suc attempt) s')"
  by pat_completeness auto
termination
  by (relation "measure (\<lambda>(S, env, key, fp, token, opts, attempt, s). maxAttempts - attempt)")
    (auto dest: begin_attempt_Again diff_less_mono2)

declare begin_loop.simps [simp del]

definition Begin :: "('s, 'e) Store \<Rightarrow> gerror + bytes \<Rightarrow> (nat \<Rightarrow> ('s, 'e) attempt_env) \<Rightarrow> string \<Rightarrow>
    bytes \<Rightarrow> Options \<Rightarrow> 's \<Rightarrow> (gerror + Outcome) \<times> 's" where
  "Begin S rnd env key fingerprint opts s = (case newToken rnd of
       Inl e \<Rightarrow> (Inl e, s)
     | Inr token \<Rightarrow> begin_loop S env key fingerprint token opts 1 s)"

subsection \<open>Finish\<close>

definition Finish :: "('s, 'e) Store \<Rightarrow> 'e \<Rightarrow> string \<Rightarrow> string \<Rightarrow> Decision \<Rightarrow> bytes \<Rightarrow> Options \<Rightarrow> 's \<Rightarrow>
    (bool \<times> gerror option) \<times> 's" where
  "Finish S e key token d payload opts s =
     (if d \<noteq> Persist \<and> d \<noteq> Discard then ((False, Some (Opaque (''idemlease: invalid decision '' @ FormatInt d))), s)
      else
        let (err, s') = (if d = Persist then Complete S e key token payload (recordTTL opts) s
                         else Release S e key token s)
        in case err of
             None \<Rightarrow> ((False, None), s')
           | Some x \<Rightarrow> if errors_Is x ErrTokenMismatch \<or> errors_Is x ErrNotFound
                       then ((True, None), s') else ((False, Some x), s'))"

subsection \<open>Facts of the model alone\<close>

lemma leaseTTL_pos: "0 < leaseTTL opts"
  by (simp add: leaseTTL_def DefaultLeaseTTL_def Second_def)

lemma recordTTL_pos: "0 < recordTTL opts"
  by (simp add: recordTTL_def DefaultRecordTTL_def Second_def)

lemma Effective_sel [simp]:
  "LeaseTTL (Effective opts) = leaseTTL opts" "RecordTTL (Effective opts) = recordTTL opts"
  by (simp_all add: Effective_def)

lemma reservation_of_sel [simp]:
  "Key (reservation_of k fp tok opts now) = k"
  "Fingerprint (reservation_of k fp tok opts now) = fp"
  "State (reservation_of k fp tok opts now) = StateReserved"
  "Token (reservation_of k fp tok opts now) = tok"
  "LeaseExpiresAt (reservation_of k fp tok opts now) = now + leaseTTL opts"
  "Payload (reservation_of k fp tok opts now) = []"
  by (simp_all add: reservation_of_def time_Add_def)

lemma is_reservation_reservation_of [simp]: "is_reservation (reservation_of k fp tok opts now)"
  by (simp add: is_reservation_def)

text \<open>
  The specification of a decision on a live lease: what a request with fingerprint \<open>fp\<close> is
  told, \<open>remaining\<close> being the rest of the lease on the caller's clock.
\<close>

definition decide :: "lease \<Rightarrow> bytes \<Rightarrow> Duration \<Rightarrow> Outcome" where
  "decide l fp remaining =
     (if l_state l = StateReserved then in_flight_outcome remaining
      else if l_fp l = fp then replay_outcome (l_payload l) else mismatch_outcome)"

lemma on_existing_live:
  assumes "reports x k l" "known_state (l_state l)" "active_deadline x = d"
  shows "on_existing x fp now n =
    (if now < d then Return (Inr (decide l fp (time_Sub d now)))
     else if n < maxAttempts then Again else Return (Inl violation_error))"
  using assms
  by (auto simp: on_existing_def reports_def decide_def Expired_def active_deadline_def known_state_def)

lemma Finish_cases:
  assumes "d = Persist \<or> d = Discard"
    and "(if d = Persist then Complete S e k tok p (recordTTL opts) s else Release S e k tok s) = (err, s')"
  shows "Finish S e k tok d p opts s =
    ((if lost_error err then (True, None) else (False, err)), s')"
  using assms by (auto simp: Finish_def lost_error_def split: option.splits)

subsection \<open>Over any store that keeps the contract\<close>

context lease_store
begin

lemma attempt_claims:
  assumes "sinv (at_between a s)" "up (at_store a)"
    and "sview (sclock (at_store a)) (at_between a s) key = None"
    and "begin_attempt S a key fp token opts n s = (r, s')" "sclock (at_store a) \<le> t"
  shows "r = Return (Inr (proceed_outcome token))"
    and "sview t s' = live_at t ((sview (sclock (at_store a)) (at_between a s))
      (key := Some (new_lease (reservation_of key fp token opts (at_deadline a))
        (grant (at_store a) (reservation_of key fp token opts (at_deadline a))))))"
  using assms reserve_claims [of "at_between a s" "at_store a"
      "reservation_of key fp token opts (at_deadline a)"]
  by (auto simp: begin_attempt_def split: prod.splits)

lemma attempt_refused:
  assumes "sinv (at_between a s)" "up (at_store a)"
    and v: "sview (sclock (at_store a)) (at_between a s) key = Some l"
    and "begin_attempt S a key fp token opts n s = (r, s')" "sclock (at_store a) \<le> t"
  shows "r = (let d = rebuilt (at_store a) (l_deadline l) in
      if at_check a < d then Return (Inr (decide l fp (time_Sub d (at_check a))))
      else if n < maxAttempts then Again else Return (Inl violation_error))"
    and "sview t s' = sview t (at_between a s)"
proof -
  let ?r = "reservation_of key fp token opts (at_deadline a)"
  obtain res where R: "Reserve S (at_store a) ?r (at_between a s) = (res, s')"
    using assms(4) by (auto simp: begin_attempt_def split: prod.splits option.splits if_splits)
  from reserve_refuses [OF assms(1,2) is_reservation_reservation_of _ R assms(5)] v
  obtain x err where x: "res = (Some x, Some err)" "errors_Is err ErrAlreadyExists"
      "reports x key l" "active_deadline x = rebuilt (at_store a) (l_deadline l)"
    and same: "sview t s' = sview t (at_between a s)"
    by auto
  show "sview t s' = sview t (at_between a s)" by (rule same)
  have "r = on_existing x fp (at_check a) n"
    using assms(4) R x by (simp add: begin_attempt_def)
  then show "r = (let d = rebuilt (at_store a) (l_deadline l) in
      if at_check a < d then Return (Inr (decide l fp (time_Sub d (at_check a))))
      else if n < maxAttempts then Again else Return (Inl violation_error))"
    using on_existing_live [OF x(3) _ x(4)] view_known [OF assms(1) v] by simp
qed

lemma attempt_inv:
  assumes "sinv (at_between a s)" "begin_attempt S a key fp token opts n s = (r, s')"
  shows "sinv s'"
  using assms reserve_inv [of "at_between a s" "reservation_of key fp token opts (at_deadline a)" "at_store a"]
  by (auto simp: begin_attempt_def split: prod.splits option.splits if_splits)

text \<open>
  The first attempt decides, whenever the record it meets is not rebuilt as already expired.
\<close>

lemma begin_decides:
  assumes "sinv (at_between (env n) s)" "up (at_store (env n))"
    and "sclock (at_store (env n)) \<le> t"
    and "case sview (sclock (at_store (env n))) (at_between (env n) s) key of
        None \<Rightarrow> True | Some l \<Rightarrow> at_check (env n) < rebuilt (at_store (env n)) (l_deadline l)"
    and "begin_loop S env key fp token opts n s = (r, s')"
  shows "case sview (sclock (at_store (env n))) (at_between (env n) s) key of
      None \<Rightarrow> r = Inr (proceed_outcome token) \<and>
        sview t s' = live_at t ((sview (sclock (at_store (env n))) (at_between (env n) s))
          (key := Some (new_lease (reservation_of key fp token opts (at_deadline (env n)))
            (grant (at_store (env n)) (reservation_of key fp token opts (at_deadline (env n)))))))
    | Some l \<Rightarrow> r = Inr (decide l fp (time_Sub (rebuilt (at_store (env n)) (l_deadline l)) (at_check (env n)))) \<and>
        sview t s' = sview t (at_between (env n) s)"
proof -
  obtain q s1 where A: "begin_attempt S (env n) key fp token opts n s = (q, s1)" by force
  show ?thesis
  proof (cases "sview (sclock (at_store (env n))) (at_between (env n) s) key")
    case None
    from attempt_claims [OF assms(1,2) None A assms(3)] show ?thesis
      using assms(5) A None by (simp add: begin_loop.simps [of S env key fp token opts n s])
  next
    case (Some l)
    from attempt_refused [OF assms(1,2) Some A assms(3)] show ?thesis
      using assms(4,5) A Some by (simp add: begin_loop.simps [of S env key fp token opts n s])
  qed
qed

text \<open>
  When the first attempt meets a record that expires before it is looked at, and the caller
  shares the store's clock and is alone, the second attempt claims the key.
\<close>

lemma begin_second_claims:
  assumes "sinv (at_between (env n) s)" "up (at_store (env n))" "up (at_store (env (Suc n)))"
    and "sview (sclock (at_store (env n))) (at_between (env n) s) key = Some l"
    and "rebuilt (at_store (env n)) (l_deadline l) \<le> at_check (env n)" "n < maxAttempts"
    and quiet: "at_between (env (Suc n)) = id"
    and later: "sclock (at_store (env n)) \<le> sclock (at_store (env (Suc n)))"
      "l_deadline l \<le> sclock (at_store (env (Suc n)))"
    and "begin_loop S env key fp token opts n s = (r, s')"
  shows "r = Inr (proceed_outcome token)"
proof -
  obtain q s1 where A: "begin_attempt S (env n) key fp token opts n s = (q, s1)" by force
  obtain q2 s2 where B: "begin_attempt S (env (Suc n)) key fp token opts (Suc n) s1 = (q2, s2)" by force
  have inv1: "sinv s1" by (rule attempt_inv [OF assms(1) A])
  have q: "q = Again"
    using attempt_refused(1) [OF assms(1,2,4) A order_refl] assms(5,6) by simp
  have "sview (sclock (at_store (env (Suc n)))) s1 key
      = sview (sclock (at_store (env (Suc n)))) (at_between (env n) s) key"
    using attempt_refused(2) [OF assms(1,2,4) A later(1)] by simp
  also have "\<dots> = None"
    using view_later [OF assms(1) later(1)] assms(4) later(2) by (simp add: live_at_def)
  finally have "q2 = Return (Inr (proceed_outcome token))"
    using attempt_claims(1) [of "env (Suc n)" s1 key, OF _ assms(3) _ B order_refl] inv1 quiet by simp
  then show ?thesis
    using assms(10) A B q by (simp add: begin_loop.simps [of S env key fp token opts])
qed

text \<open>\<open>Begin\<close> when its first attempt decides.\<close>

lemma Begin_first:
  assumes "sinv (at_between (env 1) s)" "up (at_store (env 1))" "sclock (at_store (env 1)) \<le> t"
    and "case sview (sclock (at_store (env 1))) (at_between (env 1) s) key of
        None \<Rightarrow> True | Some l \<Rightarrow> at_check (env 1) < rebuilt (at_store (env 1)) (l_deadline l)"
    and "Begin S (Inr b) env key fp opts s = (r, s')"
  shows "sinv s' \<and> (case sview (sclock (at_store (env 1))) (at_between (env 1) s) key of
      None \<Rightarrow> r = Inr (proceed_outcome (EncodeToString b)) \<and>
        sview t s' = live_at t ((sview (sclock (at_store (env 1))) (at_between (env 1) s))
          (key := Some (new_lease (reservation_of key fp (EncodeToString b) opts (at_deadline (env 1)))
            (grant (at_store (env 1)) (reservation_of key fp (EncodeToString b) opts (at_deadline (env 1)))))))
    | Some l \<Rightarrow> r = Inr (decide l fp (time_Sub (rebuilt (at_store (env 1)) (l_deadline l)) (at_check (env 1)))) \<and>
        sview t s' = sview t (at_between (env 1) s))"
proof -
  have L: "begin_loop S env key fp (EncodeToString b) opts 1 s = (r, s')"
    using assms(5) by (simp add: Begin_def newToken_def)
  note d = begin_decides [OF assms(1-4) L]
  obtain q s1 where A: "begin_attempt S (env 1) key fp (EncodeToString b) opts 1 s = (q, s1)" by force
  have "q \<noteq> Again"
  proof (cases "sview (sclock (at_store (env 1))) (at_between (env 1) s) key")
    case None
    from attempt_claims [OF assms(1,2) None A assms(3)] show ?thesis by simp
  next
    case (Some l)
    from attempt_refused [OF assms(1,2) Some A assms(3)] assms(4) Some show ?thesis by (simp add: Let_def)
  qed
  then have "s' = s1" using L A by (cases q) (simp_all add: begin_loop.simps [of S env])
  then have "sinv s'" using attempt_inv [OF assms(1) A] by simp
  with d show ?thesis by blast
qed

text \<open>Finish on a lease that is still held.\<close>

lemma finish_persists:
  assumes "sinv s" "up e" "held_by (sview (sclock e) s) k tok l" "sclock e \<le> t"
    and "Finish S e k tok Persist p opts s = (res, s')"
  shows "res = (False, None)" and "sinv s'"
    and "sview t s' = live_at t ((sview (sclock e) s)(k := Some (completed_lease l p (keep e (recordTTL opts)))))"
proof -
  obtain err s1 where C: "Complete S e k tok p (recordTTL opts) s = (err, s1)" by force
  note stored = complete_stores [OF assms(1-3) C assms(4)]
  have F: "Finish S e k tok Persist p opts s = ((if lost_error err then (True, None) else (False, err)), s1)"
    by (rule Finish_cases) (use C in simp_all)
  show "res = (False, None)" using F stored assms(5) by (simp add: lost_error_def)
  show "sinv s'" using F complete_inv [OF assms(1) C] assms(5) by simp
  show "sview t s' = live_at t ((sview (sclock e) s)(k := Some (completed_lease l p (keep e (recordTTL opts)))))"
    using F stored assms(5) by simp
qed

lemma finish_discards:
  assumes "sinv s" "up e" "held_by (sview (sclock e) s) k tok l" "sclock e \<le> t"
    and "Finish S e k tok Discard p opts s = (res, s')"
  shows "res = (False, None)" and "sinv s'" and "sview t s' = (sview t s)(k := None)"
proof -
  obtain err s1 where C: "Release S e k tok s = (err, s1)" by force
  note freed = release_frees [OF assms(1-3) C assms(4)]
  have F: "Finish S e k tok Discard p opts s = ((if lost_error err then (True, None) else (False, err)), s1)"
    by (rule Finish_cases) (use C in simp_all)
  show "res = (False, None)" using F freed assms(5) by (simp add: lost_error_def)
  show "sinv s'" using F release_inv [OF assms(1) C] assms(5) by simp
  show "sview t s' = (sview t s)(k := None)" using F freed assms(5) by simp
qed

text \<open>Finish after the lease was lost: no error, and nothing in the store changes.\<close>

lemma finish_lost:
  assumes "sinv s" "up e" "\<nexists>l. held_by (sview (sclock e) s) k tok l" "sclock e \<le> t"
    and d: "d = Persist \<or> d = Discard" and "Finish S e k tok d p opts s = (res, s')"
  shows "res = (True, None)" and "sview t s' = sview t s"
proof -
  obtain err s1 where C: "(if d = Persist then Complete S e k tok p (recordTTL opts) s
      else Release S e k tok s) = (err, s1)" by force
  have lost: "lost_error err \<and> sview t s1 = sview t s"
    using C complete_lost [OF assms(1-3) _ assms(4)] release_lost [OF assms(1-3) _ assms(4)]
    by (auto split: if_splits)
  have F: "Finish S e k tok d p opts s = ((if lost_error err then (True, None) else (False, err)), s1)"
    by (rule Finish_cases [OF d C])
  show "res = (True, None)" and "sview t s' = sview t s" using F lost assms(6) by simp_all
qed

text \<open>Both keep the invariant of the store, whatever fails.\<close>

lemma Finish_inv:
  assumes "sinv s"
  shows "sinv (snd (Finish S e k tok d p opts s))"
proof (cases "d = Persist \<or> d = Discard")
  case True
  obtain err s1 where C: "(if d = Persist then Complete S e k tok p (recordTTL opts) s else Release S e k tok s) = (err, s1)"
    by (meson surj_pair)
  then have "sinv s1" using complete_inv [OF assms] release_inv [OF assms] by (cases "d = Persist") simp_all
  with Finish_cases [OF True C] show ?thesis by simp
qed (use assms in \<open>simp add: Finish_def\<close>)

lemma begin_loop_inv:
  assumes "\<forall>n s. sinv s \<longrightarrow> sinv (at_between (env n) s)"
  shows "sinv s \<Longrightarrow> sinv (snd (begin_loop S env key fp token opts n s))"
proof (induction "maxAttempts - n" arbitrary: n s rule: less_induct)
  case less
  obtain q s1 where A: "begin_attempt S (env n) key fp token opts n s = (q, s1)" by force
  have inv: "sinv s1" using attempt_inv [OF _ A] assms less.prems by blast
  show ?case
  proof (cases q)
    case Again
    then have "n < maxAttempts" using begin_attempt_Again [of s1] A by metis
    then show ?thesis using less.hyps [OF _ inv, of "Suc n"] A Again
      by (simp add: begin_loop.simps [of S env key fp token opts n s])
  qed (use A inv in \<open>simp add: begin_loop.simps [of S env key fp token opts n s]\<close>)
qed

lemma Begin_inv:
  assumes "\<forall>n s. sinv s \<longrightarrow> sinv (at_between (env n) s)" "sinv s"
  shows "sinv (snd (Begin S rnd env key fp opts s))"
  using begin_loop_inv [OF assms] assms(2) by (simp add: Begin_def split: sum.split)

end

end
