(* ===== verification/Memstore.thy ===== *)
theory Memstore
  imports Core
begin

section \<open>The in-memory store\<close>

text \<open>
  \<^verbatim>\<open>memstore/memstore.go\<close>. The state is the map \<open>recs\<close>; every operation runs under one
  acquisition of the mutex, so each is one atomic function of the state. The environment of
  an operation is its single reading of \<^verbatim>\<open>time.Now()\<close>, which the process shares with the
  core. The interpretation \<open>ms\<close> discharges the store contract.
\<close>

record memstore =
  recs :: "string \<rightharpoonup> Record"

definition mem_New :: memstore where
  "mem_New = \<lparr>recs = Map.empty\<rparr>"

text \<open>\<^verbatim>\<open>clone\<close>: the byte slices are copied, which HOL values do not show.\<close>

definition mem_clone :: "Record \<Rightarrow> Record" where
  "mem_clone r = r\<lparr>Fingerprint := Fingerprint r, Payload := Payload r\<rparr>"

definition mem_lookup :: "string \<Rightarrow> Time \<Rightarrow> memstore \<Rightarrow> Record option \<times> memstore" where
  "mem_lookup key now s = (case recs s key of
       None \<Rightarrow> (None, s)
     | Some rec \<Rightarrow> if Expired rec now then (None, s\<lparr>recs := (recs s)(key := None)\<rparr>) else (Some rec, s))"

definition mem_Reserve :: "(memstore, Time) reserve_op" where
  "mem_Reserve now rec s = (case mem_lookup (Key rec) now s of
       (Some existing, s1) \<Rightarrow> ((Some (mem_clone existing), Some (Sentinel ErrAlreadyExists)), s1)
     | (None, s1) \<Rightarrow> ((None, None), s1\<lparr>recs := (recs s1)(Key rec := Some (mem_clone rec))\<rparr>))"

definition mem_Complete :: "(memstore, Time) complete_op" where
  "mem_Complete now key token payload ttl s = (case mem_lookup key now s of
       (None, s1) \<Rightarrow> (Some (Sentinel ErrNotFound), s1)
     | (Some rec, s1) \<Rightarrow>
         if Token rec \<noteq> token then (Some (Sentinel ErrTokenMismatch), s1)
         else if State rec \<noteq> StateReserved then (Some (Sentinel ErrNotFound), s1)
         else (None, s1\<lparr>recs := (recs s1)(key := Some (rec\<lparr>State := StateCompleted, Payload := payload,
                RecordExpiresAt := time_Add now ttl\<rparr>))\<rparr>))"

definition mem_Release :: "(memstore, Time) release_op" where
  "mem_Release now key token s = (case mem_lookup key now s of
       (None, s1) \<Rightarrow> (Some (Sentinel ErrNotFound), s1)
     | (Some rec, s1) \<Rightarrow>
         if Token rec \<noteq> token then (Some (Sentinel ErrTokenMismatch), s1)
         else if State rec \<noteq> StateReserved then (Some (Sentinel ErrNotFound), s1)
         else (None, s1\<lparr>recs := (recs s1)(key := None)\<rparr>))"

definition mem_Get :: "(memstore, Time) get_op" where
  "mem_Get now key s = (case mem_lookup key now s of
       (None, s1) \<Rightarrow> ((None, None), s1)
     | (Some rec, s1) \<Rightarrow> ((Some (mem_clone rec), None), s1))"

definition mem_Store :: "(memstore, Time) Store" where
  "mem_Store = \<lparr>Reserve = mem_Reserve, Complete = mem_Complete, Release = mem_Release, Get = mem_Get\<rparr>"

subsection \<open>The logical content\<close>

definition lease_of :: "Record \<Rightarrow> lease" where
  "lease_of r = \<lparr>l_state = State r, l_token = Token r, l_fp = Fingerprint r,
     l_payload = Payload r, l_deadline = active_deadline r\<rparr>"

definition mem_view :: "Time \<Rightarrow> memstore \<Rightarrow> view" where
  "mem_view t s = (\<lambda>k. case recs s k of
     None \<Rightarrow> None | Some r \<Rightarrow> if Expired r t then None else Some (lease_of r))"

text \<open>The invariant: a record is filed under its own key.\<close>

definition mem_inv :: "memstore \<Rightarrow> bool" where
  "mem_inv s \<longleftrightarrow> (\<forall>k r. recs s k = Some r \<longrightarrow> Key r = k)"

lemma lease_of_sel [simp]:
  "l_state (lease_of r) = State r" "l_token (lease_of r) = Token r" "l_fp (lease_of r) = Fingerprint r"
  "l_payload (lease_of r) = Payload r" "l_deadline (lease_of r) = active_deadline r"
  by (simp_all add: lease_of_def)

lemma mem_clone_id [simp]: "mem_clone r = r"
  by (simp add: mem_clone_def)

lemma mem_Store_sel [simp]:
  "Reserve mem_Store = mem_Reserve" "Complete mem_Store = mem_Complete"
  "Release mem_Store = mem_Release" "Get mem_Store = mem_Get"
  by (simp_all add: mem_Store_def)

lemma mem_inv_New: "mem_inv mem_New"
  by (simp add: mem_inv_def mem_New_def)

lemma mem_view_New: "mem_view t mem_New = Map.empty"
  by (simp add: mem_view_def mem_New_def)

text \<open>The lookup finds exactly the live record, and dropping an expired one changes no later view.\<close>

lemma mem_lookup_None:
  "mem_lookup k now s = (None, s') \<longleftrightarrow>
     mem_view now s k = None \<and> s' = s\<lparr>recs := (recs s)(k := None)\<rparr>"
  by (auto simp: mem_lookup_def mem_view_def fun_upd_idem split: option.splits if_splits)

lemma mem_lookup_Some:
  "mem_lookup k now s = (Some r, s') \<longleftrightarrow>
     recs s k = Some r \<and> mem_view now s k = Some (lease_of r) \<and> s' = s"
  by (auto simp: mem_lookup_def mem_view_def split: option.splits if_splits)

lemma mem_lookup_cases:
  obtains (absent) "mem_view now s k = None" "mem_lookup k now s = (None, s\<lparr>recs := (recs s)(k := None)\<rparr>)"
  | (live) r where "recs s k = Some r" "mem_view now s k = Some (lease_of r)" "\<not> Expired r now"
      "mem_lookup k now s = (Some r, s)"
proof (cases "mem_view now s k")
  case None
  then show thesis using absent mem_lookup_None [of k now s] by simp
next
  case (Some l)
  then obtain r where "recs s k = Some r" "\<not> Expired r now" "l = lease_of r"
    by (auto simp: mem_view_def split: option.splits if_splits)
  then show thesis using live Some by (simp add: mem_lookup_def)
qed

lemma mem_view_upd:
  "mem_view t (s\<lparr>recs := (recs s)(k := Some r)\<rparr>)
     = (mem_view t s)(k := if Expired r t then None else Some (lease_of r))"
  by (rule ext) (simp add: mem_view_def)

lemma mem_view_del: "mem_view t (s\<lparr>recs := (recs s)(k := None)\<rparr>) = (mem_view t s)(k := None)"
  by (rule ext) (simp add: mem_view_def)

lemma mem_view_mono: "mem_view now s k = None \<Longrightarrow> now \<le> t \<Longrightarrow> mem_view t s k = None"
  by (auto simp: mem_view_def dest: Expired_mono split: option.splits if_splits)

lemma mem_view_later:
  assumes "t \<le> u"
  shows "mem_view u s = live_at u (mem_view t s)"
proof (rule ext)
  fix k
  show "mem_view u s k = live_at u (mem_view t s) k"
    using assms by (auto simp: mem_view_def live_at_def Expired_iff split: option.splits)
qed

lemmas mem_views = mem_view_upd mem_view_del
lemmas mem_ops = mem_Reserve_def mem_Complete_def mem_Release_def mem_Get_def

subsection \<open>The operations, branch by branch\<close>

lemma mem_Reserve_free:
  "mem_view now s (Key r) = None \<Longrightarrow>
     mem_Reserve now r s = ((None, None), s\<lparr>recs := (recs s)(Key r := Some r)\<rparr>)"
  by (cases rule: mem_lookup_cases [of now s "Key r"]) (simp_all add: mem_Reserve_def)

lemma mem_Reserve_taken:
  "recs s (Key r) = Some x \<Longrightarrow> \<not> Expired x now \<Longrightarrow>
     mem_Reserve now r s = ((Some x, Some (Sentinel ErrAlreadyExists)), s)"
  by (simp add: mem_Reserve_def mem_lookup_def)

lemma mem_view_Some:
  "mem_view now s k = Some l \<Longrightarrow> \<exists>r. recs s k = Some r \<and> \<not> Expired r now \<and> l = lease_of r"
  by (auto simp: mem_view_def split: option.splits if_splits)

lemma mem_held_byE:
  assumes "held_by (mem_view now s) k tok l"
  obtains r where "recs s k = Some r" "\<not> Expired r now" "l = lease_of r"
    "State r = StateReserved" "Token r = tok"
  using assms mem_view_Some [of now s k l] by (auto simp: held_by_def)

lemma mem_not_held:
  "recs s k = Some r \<Longrightarrow> \<not> Expired r now \<Longrightarrow> \<nexists>l. held_by (mem_view now s) k tok l \<Longrightarrow>
     Token r = tok \<Longrightarrow> State r \<noteq> StateReserved"
  by (auto simp: held_by_def mem_view_def)

lemma mem_Complete_held:
  assumes "recs s k = Some r" "\<not> Expired r now" "State r = StateReserved" "Token r = tok"
  shows "mem_Complete now k tok p ttl s =
    (None, s\<lparr>recs := (recs s)(k := Some (r\<lparr>State := StateCompleted, Payload := p,
       RecordExpiresAt := now + ttl\<rparr>))\<rparr>)"
  using assms by (simp add: mem_Complete_def mem_lookup_def time_Add_def)

lemma mem_Release_held:
  assumes "recs s k = Some r" "\<not> Expired r now" "State r = StateReserved" "Token r = tok"
  shows "mem_Release now k tok s = (None, s\<lparr>recs := (recs s)(k := None)\<rparr>)"
  using assms by (simp add: mem_Release_def mem_lookup_def)

lemma lost_sentinels [simp]:
  "lost_error (Some (Sentinel ErrTokenMismatch))" "lost_error (Some (Sentinel ErrNotFound))"
  by (simp_all add: lost_error_def)

lemma mem_Complete_lost:
  assumes "\<nexists>l. held_by (mem_view now s) k tok l" "mem_Complete now k tok p ttl s = (err, s')" "now \<le> t"
  shows "lost_error err \<and> mem_view t s' = mem_view t s"
proof (cases rule: mem_lookup_cases [of now s k])
  case absent
  then show ?thesis using assms mem_view_mono [OF absent(1) assms(3)]
    by (auto simp: mem_Complete_def mem_view_del)
next
  case (live r)
  then show ?thesis using assms mem_not_held [OF live(1,3) assms(1)]
    by (auto simp: mem_Complete_def split: if_splits)
qed

lemma mem_Release_lost:
  assumes "\<nexists>l. held_by (mem_view now s) k tok l" "mem_Release now k tok s = (err, s')" "now \<le> t"
  shows "lost_error err \<and> mem_view t s' = mem_view t s"
proof (cases rule: mem_lookup_cases [of now s k])
  case absent
  then show ?thesis using assms mem_view_mono [OF absent(1) assms(3)]
    by (auto simp: mem_Release_def mem_view_del)
next
  case (live r)
  then show ?thesis using assms mem_not_held [OF live(1,3) assms(1)]
    by (auto simp: mem_Release_def split: if_splits)
qed

subsection \<open>The contract\<close>

interpretation ms: lease_store mem_Store mem_inv mem_view "\<lambda>now. now" "\<lambda>_. True"
  "\<lambda>_ r. LeaseExpiresAt r" "\<lambda>now ttl. now + ttl" "\<lambda>_ d. d"
proof (unfold_locales, goal_cases)
  case (1 s t k l)
  then show ?case by (auto dest!: mem_view_Some simp: Expired_iff)
next
  case (2 s t u)
  then show ?case by (simp add: mem_view_later)
next
  case (3 s r e res s')
  then show ?case
    by (cases rule: mem_lookup_cases [of e s "Key r"])
      (auto simp: mem_inv_def mem_Reserve_def split: if_splits)
next
  case (4 s e k tok p ttl err s')
  then show ?case
    by (cases rule: mem_lookup_cases [of e s k])
      (auto simp: mem_inv_def mem_Complete_def split: if_splits)
next
  case (5 s e k tok err s')
  then show ?case
    by (cases rule: mem_lookup_cases [of e s k])
      (auto simp: mem_inv_def mem_Release_def split: if_splits)
next
  case (6 s e r res s' t)
  then show ?case
    by (auto simp: mem_Reserve_free mem_view_upd live_at_upd_Some mem_view_later [OF 6(6)]
        Expired_def is_reservation_def new_lease_def lease_of_def active_deadline_def)
next
  case (7 s e r l res s' t)
  then obtain x where "recs s (Key r) = Some x" "\<not> Expired x e" "l = lease_of x"
    by (auto dest: mem_view_Some)
  with 7 show ?case
    by (auto simp: mem_Reserve_taken reports_def mem_inv_def)
next
  case (8 s e k tok l p ttl err s' t)
  from 8(3) obtain r where r: "recs s k = Some r" "\<not> Expired r e" "l = lease_of r"
    "State r = StateReserved" "Token r = tok" by (rule mem_held_byE)
  then show ?case using 8(4,5)
    by (auto simp: mem_Complete_held [OF r(1,2,4,5)] mem_view_upd live_at_upd_Some
        mem_view_later [OF 8(5)] Expired_def lease_of_def active_deadline_def completed_lease_def)
next
  case (9 s e k tok p ttl err s' t)
  then show ?case by (simp add: mem_Complete_lost)
next
  case (10 s e k tok l err s' t)
  from 10(3) obtain r where r: "recs s k = Some r" "\<not> Expired r e" "l = lease_of r"
    "State r = StateReserved" "Token r = tok" by (rule mem_held_byE)
  then show ?case using 10(4) by (auto simp: mem_Release_held [OF r(1,2,4,5)] mem_view_del)
next
  case (11 s e k tok err s' t)
  then show ?case by (simp add: mem_Release_lost)
qed

end
