(* ===== verification/Http_Base.thy ===== *)
theory Http_Base
  imports Prelude "HOL-Library.AList"
begin

section \<open>What the HTTP side uses of net/http\<close>

text \<open>
  Headers, requests and response writers of \<^verbatim>\<open>net/http\<close>, as far as the packages under
  \<^verbatim>\<open>httpidem/\<close> and \<^verbatim>\<open>ginadapter/\<close> use them. A \<^verbatim>\<open>http.Header\<close> is a Go map, modelled by an
  association list with distinct names; only lookups and the sorted list of names are ever
  observed, so the order of the list does not matter.
\<close>

type_synonym Header = "(string \<times> string list) list"

definition wf_header :: "Header \<Rightarrow> bool" where
  "wf_header h \<longleftrightarrow> distinct (map fst h)"

subsection \<open>ASCII case and canonical header names\<close>

definition is_lower :: "char \<Rightarrow> bool" where
  "is_lower c \<longleftrightarrow> 97 \<le> (of_char c :: nat) \<and> (of_char c :: nat) \<le> 122"

definition is_upper :: "char \<Rightarrow> bool" where
  "is_upper c \<longleftrightarrow> 65 \<le> (of_char c :: nat) \<and> (of_char c :: nat) \<le> 90"

definition to_upper :: "char \<Rightarrow> char" where
  "to_upper c = (if is_lower c then char_of (of_char c - 32 :: nat) else c)"

definition to_lower :: "char \<Rightarrow> char" where
  "to_lower c = (if is_upper c then char_of (of_char c + 32 :: nat) else c)"

text \<open>\<^verbatim>\<open>strings.ToUpper\<close> on ASCII; HTTP methods are ASCII tokens.\<close>

definition ToUpper :: "string \<Rightarrow> string" where
  "ToUpper s = map to_upper s"

text \<open>\<^verbatim>\<open>textproto.CanonicalMIMEHeaderKey\<close>: names with a byte that is no token byte stay as they are.\<close>

definition token_byte :: "char \<Rightarrow> bool" where
  "token_byte c \<longleftrightarrow> is_lower c \<or> is_upper c \<or> (48 \<le> (of_char c :: nat) \<and> (of_char c :: nat) \<le> 57) \<or>
     c \<in> set ''!#$%&*+-.^_|~'' \<or> of_char c = (39 :: nat) \<or> of_char c = (96 :: nat)"

fun canon_bytes :: "bool \<Rightarrow> string \<Rightarrow> string" where
  "canon_bytes upper [] = []"
| "canon_bytes upper (c # cs) = (if upper then to_upper c else to_lower c) # canon_bytes (c = CHR ''-'') cs"

definition CanonicalMIMEHeaderKey :: "string \<Rightarrow> string" where
  "CanonicalMIMEHeaderKey s = (if list_all token_byte s then canon_bytes True s else s)"

subsection \<open>Header operations\<close>

definition hdr_Values :: "Header \<Rightarrow> string \<Rightarrow> string list" where
  "hdr_Values h name = (case map_of h (CanonicalMIMEHeaderKey name) of None \<Rightarrow> [] | Some vs \<Rightarrow> vs)"

definition hdr_put :: "Header \<Rightarrow> string \<Rightarrow> string list \<Rightarrow> Header" where
  "hdr_put h name vs = AList.update name vs h"

definition hdr_Set :: "Header \<Rightarrow> string \<Rightarrow> string \<Rightarrow> Header" where
  "hdr_Set h name v = hdr_put h (CanonicalMIMEHeaderKey name) [v]"

definition hdr_del :: "Header \<Rightarrow> string \<Rightarrow> Header" where
  "hdr_del h name = AList.delete name h"

lemma wf_hdr_put [simp]: "wf_header h \<Longrightarrow> wf_header (hdr_put h n vs)"
  by (simp add: wf_header_def hdr_put_def distinct_update)

lemma wf_hdr_Set [simp]: "wf_header h \<Longrightarrow> wf_header (hdr_Set h n v)"
  by (simp add: hdr_Set_def)

lemma wf_hdr_del [simp]: "wf_header h \<Longrightarrow> wf_header (hdr_del h n)"
  by (simp add: wf_header_def hdr_del_def distinct_delete)

lemma map_of_hdr_put [simp]: "map_of (hdr_put h n vs) = (map_of h)(n := Some vs)"
  by (simp add: hdr_put_def update_conv')

lemma map_of_hdr_del [simp]: "map_of (hdr_del h n) = (map_of h)(n := None)"
  by (simp add: hdr_del_def delete_conv')

lemma to_upper_idem [simp]: "to_upper (to_upper c) = to_upper c"
  by (auto simp: to_upper_def is_lower_def of_char_of)

lemma ToUpper_idem [simp]: "ToUpper (ToUpper s) = ToUpper s"
  by (simp add: ToUpper_def)

lemma to_upper_newline: "to_upper c = CHR 0x0A \<longleftrightarrow> c = CHR 0x0A"
proof -
  have "to_upper c = CHR 0x0A \<Longrightarrow> c = CHR 0x0A"
  proof (rule ccontr)
    assume eq: "to_upper c = CHR 0x0A" and ne: "c \<noteq> CHR 0x0A"
    then have low: "is_lower c" by (auto simp: to_upper_def split: if_splits)
    then have "(of_char c - 32 :: nat) < 256" unfolding is_lower_def by linarith
    then have "(of_char (to_upper c) :: nat) = of_char c - 32"
      using low by (simp add: to_upper_def of_char_of)
    with low eq show False by (auto simp: is_lower_def)
  qed
  then show ?thesis by (auto simp: to_upper_def is_lower_def)
qed

lemma newline_notin_ToUpper: "CHR 0x0A \<in> set (ToUpper s) \<longleftrightarrow> CHR 0x0A \<in> set s"
  unfolding ToUpper_def set_map by (metis imageE imageI to_upper_newline)

subsection \<open>Requests\<close>

text \<open>
  A body is what a reader would get: the bytes, then end of file or an error. A URL is
  reduced to what the code asks of it, \<^verbatim>\<open>EscapedPath()\<close> and \<^verbatim>\<open>RawQuery\<close>.
\<close>

record Body =
  body_bytes :: bytes
  body_err :: "gerror option"

record URL =
  EscapedPath :: string
  RawQuery :: string

record Request =
  Method :: string
  ReqURL :: URL
  ReqHeader :: Header
  ReqBody :: "Body option"
  ContentLength :: int

end
