(* ===== verification/Response_Writer.thy ===== *)
theory Response_Writer
  imports Http_Base
begin

section \<open>The response writer of net/http\<close>

text \<open>
  A \<^verbatim>\<open>http.ResponseWriter\<close> as the server of \<^verbatim>\<open>net/http\<close> provides it: the live header map, the
  status line and header snapshot once they are sent, the interim (1xx) responses, the
  body bytes sent, and what \<^verbatim>\<open>Flush\<close> and \<^verbatim>\<open>Hijack\<close> return on this connection (\<^verbatim>\<open>None\<close>: they
  succeed). Operations return whether they panicked (\<^verbatim>\<open>WriteHeader\<close> does on an invalid code).
  \<open>rw_sent\<close> holds the header map of the handler when the status was sent. The server makes the header
  block from it: \<open>received\<close> gives the values of a field in that block, which differ from the
  handler's for \<^verbatim>\<open>Content-Type\<close>, sniffed from the body or suppressed. The fields the server generates
  for the connection (\<^verbatim>\<open>Date\<close>, the computed \<^verbatim>\<open>Content-Length\<close>, the framing of the body) and its check
  of the body against a declared \<^verbatim>\<open>Content-Length\<close> are left out.
\<close>

record rw =
  rw_header :: Header
  rw_sent :: "(int \<times> Header) option"
  rw_interim :: "(int \<times> Header) list"
  rw_body :: bytes
  rw_hijacked :: bool
  rw_flush_err :: "gerror option"
  rw_hijack_err :: "gerror option"

definition new_rw :: "gerror option \<Rightarrow> gerror option \<Rightarrow> rw" where
  "new_rw ferr herr = \<lparr>rw_header = [], rw_sent = None, rw_interim = [], rw_body = [],
     rw_hijacked = False, rw_flush_err = ferr, rw_hijack_err = herr\<rparr>"

definition StatusOK :: int where
  "StatusOK = 200"

definition rw_WriteHeader :: "int \<Rightarrow> rw \<Rightarrow> bool \<times> rw" where
  "rw_WriteHeader code w =
     (if rw_hijacked w \<or> rw_sent w \<noteq> None then (False, w)
      else if code < 100 \<or> code > 999 then (True, w)
      else if code \<le> 199 \<and> code \<noteq> 101 then (False, w\<lparr>rw_interim := rw_interim w @ [(code, rw_header w)]\<rparr>)
      else (False, w\<lparr>rw_sent := Some (code, rw_header w)\<rparr>))"

definition bodyAllowed :: "int \<Rightarrow> bool" where
  "bodyAllowed status \<longleftrightarrow> \<not> (100 \<le> status \<and> status \<le> 199) \<and> status \<noteq> 204 \<and> status \<noteq> 304"

definition ErrHijacked :: gerror where
  "ErrHijacked = Opaque ''http: connection has been hijacked''"

definition ErrBodyNotAllowed :: gerror where
  "ErrBodyNotAllowed = Opaque ''http: request method or response status code does not allow body''"

text \<open>The implicit \<^verbatim>\<open>WriteHeader(200)\<close> of a first write, flush or return.\<close>

definition rw_implicit :: "rw \<Rightarrow> rw" where
  "rw_implicit w = snd (rw_WriteHeader StatusOK w)"

definition rw_Write :: "bytes \<Rightarrow> rw \<Rightarrow> gerror option \<times> rw" where
  "rw_Write p w =
     (if rw_hijacked w then (Some ErrHijacked, w)
      else let w1 = rw_implicit w in
        if p = [] then (None, w1)
        else if \<not> bodyAllowed (fst (the (rw_sent w1))) then (Some ErrBodyNotAllowed, w1)
        else (None, w1\<lparr>rw_body := rw_body w1 @ p\<rparr>))"

definition rw_Flush :: "rw \<Rightarrow> gerror option \<times> rw" where
  "rw_Flush w = (case rw_flush_err w of
       Some e \<Rightarrow> if errors_Is e ErrNotSupported then (Some e, w) else (Some e, rw_implicit w)
     | None \<Rightarrow> (None, rw_implicit w))"

definition rw_Hijack :: "rw \<Rightarrow> gerror option \<times> rw" where
  "rw_Hijack w =
     (if rw_hijacked w then (Some ErrHijacked, w)
      else case rw_hijack_err w of Some e \<Rightarrow> (Some e, w) | None \<Rightarrow> (None, w\<lparr>rw_hijacked := True\<rparr>))"

text \<open>
  A body without a \<^verbatim>\<open>Content-Type\<close> is sniffed when the header block is made, unless it is encoded: the
  detection function is \<open>sniff\<close>, applied to the first 512 bytes (a body that is not flushed is
  buffered that far). A 304 response has no \<^verbatim>\<open>Content-Type\<close>.
\<close>

definition hdr_first :: "Header \<Rightarrow> string \<Rightarrow> string" where
  "hdr_first h name = (case hdr_Values h name of [] \<Rightarrow> [] | v # _ \<Rightarrow> v)"

definition sniffs :: "int \<Rightarrow> Header \<Rightarrow> bytes \<Rightarrow> bool" where
  "sniffs status h body \<longleftrightarrow> bodyAllowed status \<and> body \<noteq> [] \<and> map_of h ''Content-Type'' = None \<and>
     hdr_first h ''Content-Encoding'' = [] \<and> hdr_first h ''Transfer-Encoding'' = []"

definition received :: "(bytes \<Rightarrow> string) \<Rightarrow> int \<Rightarrow> Header \<Rightarrow> bytes \<Rightarrow> string \<Rightarrow> string list" where
  "received sniff status h body name =
     (if name = ''Content-Type'' \<and> status = 304 then []
      else if name = ''Content-Type'' \<and> sniffs status h body then [sniff (take 512 body)]
      else hdr_Values h name)"

text \<open>Assignments to the live header map.\<close>

definition rw_set :: "string \<Rightarrow> string list \<Rightarrow> rw \<Rightarrow> rw" where
  "rw_set name vs w = w\<lparr>rw_header := hdr_put (rw_header w) name vs\<rparr>"

definition rw_unset :: "string \<Rightarrow> rw \<Rightarrow> rw" where
  "rw_unset name w = w\<lparr>rw_header := hdr_del (rw_header w) name\<rparr>"

lemma rw_implicit_eq:
  "rw_implicit w = (if rw_hijacked w \<or> rw_sent w \<noteq> None then w
     else w\<lparr>rw_sent := Some (200, rw_header w)\<rparr>)"
  by (simp add: rw_implicit_def rw_WriteHeader_def StatusOK_def)

lemma rw_WriteHeader_OK: "rw_WriteHeader StatusOK w = (False, rw_implicit w)"
  by (simp add: rw_implicit_def rw_WriteHeader_def StatusOK_def)

lemma rw_Write_implicit: "rw_Write p (rw_implicit w) = rw_Write p w"
  by (auto simp: rw_Write_def rw_implicit_eq)

lemmas rw_ops = rw_WriteHeader_def rw_Write_def rw_Flush_def rw_Hijack_def rw_set_def rw_unset_def
  rw_implicit_eq

end
