(* ===== verification/Uvarint.thy ===== *)
theory Uvarint
  imports Prelude
begin

section \<open>Unsigned varints and length-prefixed strings\<close>

text \<open>
  What the two payload formats use of \<^verbatim>\<open>encoding/binary\<close>: \<open>AppendUvarint\<close> and \<open>Uvarint\<close>,
  on \<^verbatim>\<open>uint64\<close> values as naturals below \<open>2 ^ 64\<close>. \<open>Uvarint\<close> returns the value and the
  number of bytes read: \<open>0\<close> when the buffer ends early, negative on overflow. Its shifted
  groups of seven bits do not overlap, so the \<^verbatim>\<open>|=\<close> of the source is an addition here.
\<close>

fun uvarint_bytes :: "nat \<Rightarrow> bytes" where
  "uvarint_bytes v = (if v < 128 then [char_of v] else char_of (v mod 128 + 128) # uvarint_bytes (v div 128))"

declare uvarint_bytes.simps [simp del]

definition AppendUvarint :: "bytes \<Rightarrow> nat \<Rightarrow> bytes" where
  "AppendUvarint buf v = buf @ uvarint_bytes v"

definition MaxVarintLen64 :: nat where
  "MaxVarintLen64 = 10"

fun uvarint_scan :: "nat \<Rightarrow> nat \<Rightarrow> bytes \<Rightarrow> nat \<times> int" where
  "uvarint_scan x i [] = (0, 0)"
| "uvarint_scan x i (b # bs) =
     (if i = MaxVarintLen64 then (0, - (int i + 1))
      else if (of_char b :: nat) < 128 then
        (if i = MaxVarintLen64 - 1 \<and> (of_char b :: nat) > 1 then (0, - (int i + 1))
         else (x + of_char b * 2 ^ (7 * i), int i + 1))
      else uvarint_scan (x + (of_char b mod 128) * 2 ^ (7 * i)) (i + 1) bs)"

definition Uvarint :: "bytes \<Rightarrow> nat \<times> int" where
  "Uvarint buf = uvarint_scan 0 0 buf"

lemma uvarint_bytes_nonempty [simp]: "uvarint_bytes v \<noteq> []"
  by (subst uvarint_bytes.simps) simp

lemma length_uvarint_bytes: "v < 2 ^ (7 * n) \<Longrightarrow> 0 < n \<Longrightarrow> length (uvarint_bytes v) \<le> n"
proof (induction n arbitrary: v)
  case (Suc n)
  show ?case
  proof (cases "v < 128")
    case True
    then show ?thesis by (simp add: uvarint_bytes.simps [of v])
  next
    case False
    then have "0 < n" using Suc.prems by (cases n) auto
    moreover have "v div 128 < 2 ^ (7 * n)"
      using Suc.prems by (simp add: power_add div_less_iff_less_mult mult.commute)
    ultimately show ?thesis using Suc.IH [of "v div 128"] False
      by (simp add: uvarint_bytes.simps [of v])
  qed
qed simp

lemma group7: "a * 2 ^ (7 * i) + b * 2 ^ (7 * (i + 1)) = (a + b * 128) * 2 ^ (7 * i)" for a b i :: nat
  by (simp add: power_add algebra_simps)

lemma uvarint_scan_bytes:
  assumes "v * 2 ^ (7 * i) < 2 ^ 64" "i < MaxVarintLen64"
  shows "uvarint_scan x i (uvarint_bytes v @ rest) =
    (x + v * 2 ^ (7 * i), int i + int (length (uvarint_bytes v)))"
  using assms
proof (induction v arbitrary: x i rule: uvarint_bytes.induct)
  case (1 v)
  show ?case
  proof (cases "v < 128")
    case True
    have "v \<le> 1" if "i = 9"
      using 1(2) that by simp
    with True 1 show ?thesis
      by (auto simp: uvarint_bytes.simps [of v] MaxVarintLen64_def of_char_of)
  next
    case False
    have i: "i < 9"
    proof (rule ccontr)
      assume "\<not> i < 9"
      then have "i = 9" using 1(3) by (simp add: MaxVarintLen64_def)
      with 1(2) False show False by simp
    qed
    have "(v div 128) * 2 ^ (7 * (i + 1)) = (v div 128 * 128) * 2 ^ (7 * i)"
      by (simp add: power_add)
    also have "\<dots> \<le> v * 2 ^ (7 * i)" by simp
    finally have small: "(v div 128) * 2 ^ (7 * (i + 1)) < 2 ^ 64" using 1(2) by linarith
    have byte: "(of_char (char_of (v mod 128 + 128 :: nat)) :: nat) = v mod 128 + 128"
    proof -
      have "v mod 128 + 128 < 256" using mod_less_divisor [of 128 v] by linarith
      then show ?thesis by (simp add: of_char_of)
    qed
    have split: "v mod 128 * 2 ^ (7 * i) + (v div 128) * 2 ^ (7 * (i + 1)) = v * 2 ^ (7 * i)"
      using group7 [of "v mod 128" i "v div 128"] by simp
    have "uvarint_scan x i (uvarint_bytes v @ rest)
        = uvarint_scan (x + v mod 128 * 2 ^ (7 * i)) (i + 1) (uvarint_bytes (v div 128) @ rest)"
      using False i byte by (simp add: uvarint_bytes.simps [of v] MaxVarintLen64_def)
    also have "\<dots> = (x + v mod 128 * 2 ^ (7 * i) + (v div 128) * 2 ^ (7 * (i + 1)),
        int (i + 1) + int (length (uvarint_bytes (v div 128))))"
      by (rule 1(1) [OF False small]) (use i in \<open>simp add: MaxVarintLen64_def\<close>)
    finally show ?thesis using False split
      by (simp add: uvarint_bytes.simps [of v] add.assoc)
  qed
qed

lemma Uvarint_roundtrip:
  "v < 2 ^ 64 \<Longrightarrow> Uvarint (uvarint_bytes v @ rest) = (v, int (length (uvarint_bytes v)))"
  using uvarint_scan_bytes [of v 0 0 rest] by (simp add: Uvarint_def MaxVarintLen64_def)

text \<open>A successful read does not depend on what follows the bytes it consumed.\<close>

lemma uvarint_scan_bounds: "uvarint_scan x i bs = (v, n) \<Longrightarrow> 0 < n \<Longrightarrow> int i < n \<and> n \<le> int i + int (length bs)"
proof (induction x i bs rule: uvarint_scan.induct)
  case (2 x i b bs)
  then show ?case by (fastforce split: if_splits)
qed simp

lemma uvarint_scan_extend:
  "uvarint_scan x i bs = (v, n) \<Longrightarrow> 0 < n \<Longrightarrow> uvarint_scan x i (bs @ more) = (v, n)"
  by (induction x i bs rule: uvarint_scan.induct) (auto split: if_splits)

lemma Uvarint_bounds: "Uvarint bs = (v, n) \<Longrightarrow> 0 < n \<Longrightarrow> n \<le> int (length bs)"
  using uvarint_scan_bounds [of 0 0 bs v n] by (simp add: Uvarint_def)

lemma Uvarint_extend: "Uvarint bs = (v, n) \<Longrightarrow> 0 < n \<Longrightarrow> Uvarint (bs @ more) = (v, n)"
  by (simp add: Uvarint_def uvarint_scan_extend)

end
