(* ===== verification/Stored_Response.thy ===== *)
theory Stored_Response
  imports Http_Base Uvarint
begin

section \<open>The stored response and its encoding\<close>

text \<open>
  \<^verbatim>\<open>httpidem/storedresponse.go\<close>: the payload format
  \<^verbatim>\<open>0x01 | status | nNames | (name nValues value*)* | body\<close>. The decoder latches its first
  error, as in the source. The lemmas give the round trip and that no accepted payload is a
  proper prefix of another, so a truncated or extended payload is always refused.
\<close>

record StoredResponse =
  StatusCode :: int
  SRHeader :: Header
  SRBody :: bytes

definition storedResponseVersion :: char where
  "storedResponseVersion = CHR 0x01"

definition maxHeaderNames :: nat where
  "maxHeaderNames = 1024"

definition maxHeaderValues :: nat where
  "maxHeaderValues = 1024"

definition appendString :: "bytes \<Rightarrow> string \<Rightarrow> bytes" where
  "appendString buf s = AppendUvarint buf (length s) @ s"

definition hdr_index :: "Header \<Rightarrow> string \<Rightarrow> string list" where
  "hdr_index h name = (case map_of h name of None \<Rightarrow> [] | Some vs \<Rightarrow> vs)"

text \<open>\<^verbatim>\<open>uint64(n)\<close> of a Go \<^verbatim>\<open>int\<close>, and \<^verbatim>\<open>int(v)\<close> of a \<^verbatim>\<open>uint64\<close>.\<close>

definition to_uint64 :: "int \<Rightarrow> nat" where
  "to_uint64 n = nat (n mod 2 ^ 64)"

definition of_uint64 :: "nat \<Rightarrow> int" where
  "of_uint64 v = wrap64 (int v)"

fun append_values :: "bytes \<Rightarrow> string list \<Rightarrow> bytes" where
  "append_values buf [] = buf"
| "append_values buf (v # vs) = append_values (appendString buf v) vs"

fun append_names :: "Header \<Rightarrow> bytes \<Rightarrow> string list \<Rightarrow> bytes" where
  "append_names h buf [] = buf"
| "append_names h buf (name # names) =
     append_names h (append_values (AppendUvarint (appendString buf name) (length (hdr_index h name)))
       (hdr_index h name)) names"

definition MarshalBinary :: "StoredResponse \<Rightarrow> bytes" where
  "MarshalBinary sr =
     (let buf = [storedResponseVersion];
          buf = AppendUvarint buf (to_uint64 (StatusCode sr));
          names = sort (map fst (SRHeader sr));
          buf = AppendUvarint buf (length names);
          buf = append_names (SRHeader sr) buf names;
          buf = AppendUvarint buf (length (SRBody sr))
      in buf @ SRBody sr)"

subsection \<open>The decoder\<close>

record decoder =
  dbuf :: bytes
  derr :: "gerror option"

abbreviation corrupt :: gerror where
  "corrupt \<equiv> Sentinel ErrCorruptStoredResponse"

definition d_uvarint :: "decoder \<Rightarrow> nat \<times> decoder" where
  "d_uvarint d =
     (if derr d \<noteq> None then (0, d)
      else let (v, n) = Uvarint (dbuf d) in
        if n \<le> 0 then (0, d\<lparr>derr := Some corrupt\<rparr>)
        else (v, d\<lparr>dbuf := drop (nat n) (dbuf d)\<rparr>))"

definition d_bytes :: "decoder \<Rightarrow> bytes \<times> decoder" where
  "d_bytes d =
     (let (n, d1) = d_uvarint d in
      if derr d1 \<noteq> None then ([], d1)
      else if n > length (dbuf d1) then ([], d1\<lparr>derr := Some corrupt\<rparr>)
      else (take n (dbuf d1), d1\<lparr>dbuf := drop n (dbuf d1)\<rparr>))"

definition add_value :: "Header \<Rightarrow> string \<Rightarrow> string \<Rightarrow> Header" where
  "add_value h name v = hdr_put h name (hdr_index h name @ [v])"

fun read_values :: "nat \<Rightarrow> string \<Rightarrow> Header \<Rightarrow> decoder \<Rightarrow> Header \<times> decoder" where
  "read_values 0 name h d = (h, d)"
| "read_values (Suc n) name h d =
     (if derr d \<noteq> None then (h, d)
      else let (v, d1) = d_bytes d in read_values n name (add_value h name v) d1)"

fun read_names :: "nat \<Rightarrow> Header \<Rightarrow> decoder \<Rightarrow> gerror + Header \<times> decoder" where
  "read_names 0 h d = Inr (h, d)"
| "read_names (Suc n) h d =
     (if derr d \<noteq> None then Inr (h, d)
      else let (name, d1) = d_bytes d; (nValues, d2) = d_uvarint d1 in
        if nValues > maxHeaderValues then Inl corrupt
        else let (h', d3) = read_values nValues name h d2 in read_names n h' d3)"

definition UnmarshalBinary :: "bytes \<Rightarrow> gerror + StoredResponse" where
  "UnmarshalBinary data = (case data of
       [] \<Rightarrow> Inl corrupt
     | version # rest \<Rightarrow>
         if version \<noteq> storedResponseVersion
         then Inl (Opaque (''httpidem: unsupported stored response version 0x'' @ hex2 version))
         else
           let (status, d1) = d_uvarint \<lparr>dbuf = rest, derr = None\<rparr>;
               (nNames, d2) = d_uvarint d1
           in if nNames > maxHeaderNames then Inl corrupt
              else case read_names nNames [] d2 of
                  Inl e \<Rightarrow> Inl e
                | Inr (header, d3) \<Rightarrow>
                    (let (body, d4) = d_bytes d3 in
                     case derr d4 of
                       Some e \<Rightarrow> Inl e
                     | None \<Rightarrow> if length (dbuf d4) \<noteq> 0 then Inl corrupt
                               else Inr \<lparr>StatusCode = of_uint64 status, SRHeader = header, SRBody = body\<rparr>))"

subsection \<open>The encoding as a concatenation\<close>

definition enc_string :: "string \<Rightarrow> bytes" where
  "enc_string s = uvarint_bytes (length s) @ s"

definition enc_entry :: "string \<times> string list \<Rightarrow> bytes" where
  "enc_entry e = enc_string (fst e) @ uvarint_bytes (length (snd e)) @ concat (map enc_string (snd e))"

text \<open>The header in the order of the encoding: names sorted, each with its values.\<close>

definition sorted_header :: "Header \<Rightarrow> Header" where
  "sorted_header h = map (\<lambda>n. (n, hdr_index h n)) (sort (map fst h))"

lemma appendString_enc: "appendString buf s = buf @ enc_string s"
  by (simp add: appendString_def AppendUvarint_def enc_string_def)

lemma append_values_enc: "append_values buf vs = buf @ concat (map enc_string vs)"
  by (induction buf vs rule: append_values.induct) (simp_all add: appendString_enc)

lemma append_names_enc:
  "append_names h buf ns = buf @ concat (map enc_entry (map (\<lambda>n. (n, hdr_index h n)) ns))"
  by (induction h buf ns rule: append_names.induct)
    (simp_all add: appendString_enc append_values_enc AppendUvarint_def enc_entry_def)

lemma MarshalBinary_enc:
  "MarshalBinary sr = storedResponseVersion # uvarint_bytes (to_uint64 (StatusCode sr)) @
     uvarint_bytes (length (sorted_header (SRHeader sr))) @
     concat (map enc_entry (sorted_header (SRHeader sr))) @ enc_string (SRBody sr)"
  by (simp add: MarshalBinary_def Let_def AppendUvarint_def append_names_enc sorted_header_def enc_string_def)

lemma to_uint64_bound: "to_uint64 n < 2 ^ 64"
proof -
  have "n mod 2 ^ 64 < (2 ^ 64 :: int)" by simp
  then show ?thesis unfolding to_uint64_def by (simp add: nat_less_iff)
qed

lemma of_uint64_to_uint64: "in_int64 n \<Longrightarrow> of_uint64 (to_uint64 n) = n"
  by (simp add: of_uint64_def to_uint64_def wrap64_def in_int64_def mod_simps)

subsection \<open>Decoding what was encoded\<close>

abbreviation dec :: "bytes \<Rightarrow> decoder" where
  "dec bs \<equiv> \<lparr>dbuf = bs, derr = None\<rparr>"

lemma d_uvarint_enc [simp]:
  "v < 2 ^ 64 \<Longrightarrow> d_uvarint (dec (uvarint_bytes v @ rest)) = (v, dec rest)"
  by (simp add: d_uvarint_def Uvarint_roundtrip)

lemma d_bytes_enc [simp]:
  "length s < 2 ^ 64 \<Longrightarrow> d_bytes (dec (enc_string s @ rest)) = (s, dec rest)"
  by (simp add: d_bytes_def enc_string_def)

lemma read_values_enc:
  assumes "\<forall>v\<in>set vs. length v < 2 ^ 64"
  shows "read_values (length vs) name h (dec (concat (map enc_string vs) @ rest)) =
    (foldl (\<lambda>h v. add_value h name v) h vs, dec rest)"
  using assms by (induction vs arbitrary: h) simp_all

lemma AList_update_new: "n \<notin> fst ` set h \<Longrightarrow> AList.update n v h = h @ [(n, v)]"
  by (induction h) auto

lemma AList_update_last: "n \<notin> fst ` set h \<Longrightarrow> AList.update n v (h @ [(n, w)]) = h @ [(n, v)]"
  by (induction h) auto

lemma hdr_index_last: "n \<notin> fst ` set h \<Longrightarrow> hdr_index (h @ [(n, vs)]) n = vs"
  by (induction h) (auto simp: hdr_index_def map_add_def)

lemma add_values_fresh:
  assumes "n \<notin> fst ` set h"
  shows "foldl (\<lambda>h v. add_value h n v) (h @ [(n, us)]) vs = h @ [(n, us @ vs)]"
  using assms
  by (induction vs arbitrary: us) (simp_all add: add_value_def hdr_put_def hdr_index_last AList_update_last)

lemma add_values_new:
  assumes "n \<notin> fst ` set h" "vs \<noteq> []"
  shows "foldl (\<lambda>h v. add_value h n v) h vs = h @ [(n, vs)]"
proof -
  obtain v vs' where vs: "vs = v # vs'" using assms(2) by (cases vs) auto
  have "map_of h n = None" using assms(1) by (simp add: map_of_eq_None_iff)
  then have "hdr_index h n = []" by (simp add: hdr_index_def)
  then have "add_value h n v = h @ [(n, [v])]"
    using assms(1) by (simp add: add_value_def hdr_put_def AList_update_new)
  then show ?thesis using add_values_fresh [OF assms(1), of "[v]" vs'] vs by simp
qed

text \<open>Entries the decoder accepts: 1 to 1024 values, strings shorter than \<open>2 ^ 64\<close>.\<close>

definition ok_entry :: "string \<times> string list \<Rightarrow> bool" where
  "ok_entry e \<longleftrightarrow> length (fst e) < 2 ^ 64 \<and> snd e \<noteq> [] \<and> length (snd e) \<le> maxHeaderValues \<and>
     (\<forall>v\<in>set (snd e). length v < 2 ^ 64)"

lemma enc_entry_pair:
  "enc_entry (n, vs) = enc_string n @ uvarint_bytes (length vs) @ concat (map enc_string vs)"
  by (simp add: enc_entry_def)

lemma read_names_enc:
  assumes "\<forall>e\<in>set es. ok_entry e" "distinct (map fst es)" "fst ` set es \<inter> fst ` set h = {}"
  shows "read_names (length es) h (dec (concat (map enc_entry es) @ rest)) = Inr (h @ es, dec rest)"
  using assms
proof (induction es arbitrary: h)
  case (Cons e es)
  obtain n vs where e: "e = (n, vs)" by (cases e)
  have ok: "length n < 2 ^ 64" "vs \<noteq> []" "length vs \<le> maxHeaderValues" "\<forall>v\<in>set vs. length v < 2 ^ 64"
    and fresh: "n \<notin> fst ` set h"
    using Cons.prems e by (auto simp: ok_entry_def)
  have small: "length vs < 2 ^ 64" using ok(3) by (simp add: maxHeaderValues_def)
  have IH: "read_names (length es) (h @ [(n, vs)]) (dec (concat (map enc_entry es) @ rest)) =
      Inr ((h @ [(n, vs)]) @ es, dec rest)"
    by (rule Cons.IH) (use Cons.prems e in auto)
  show ?case
    using ok small fresh IH e
    by (simp add: enc_entry_pair read_values_enc [OF ok(4)] add_values_new)
qed simp

definition storable :: "StoredResponse \<Rightarrow> bool" where
  "storable sr \<longleftrightarrow> in_int64 (StatusCode sr) \<and> wf_header (SRHeader sr) \<and>
     length (SRHeader sr) \<le> maxHeaderNames \<and> (\<forall>e\<in>set (SRHeader sr). ok_entry e) \<and>
     length (SRBody sr) < 2 ^ 64"

lemma hdr_index_entry: "wf_header h \<Longrightarrow> (n, vs) \<in> set h \<Longrightarrow> hdr_index h n = vs"
  by (simp add: hdr_index_def wf_header_def)

lemma set_sorted_header: "wf_header h \<Longrightarrow> set (sorted_header h) = set h"
  by (force simp: sorted_header_def hdr_index_entry)

lemma distinct_sorted_header: "wf_header h \<Longrightarrow> distinct (map fst (sorted_header h))"
  by (simp add: sorted_header_def comp_def wf_header_def)

lemma map_of_sorted_header: "wf_header h \<Longrightarrow> map_of (sorted_header h) = map_of h"
proof (rule ext)
  fix n
  assume wf: "wf_header h"
  have "map_of (sorted_header h) n = Some v \<longleftrightarrow> map_of h n = Some v" for v
    using wf by (simp add: map_of_eq_Some_iff distinct_sorted_header set_sorted_header wf_header_def)
  then show "map_of (sorted_header h) n = map_of h n" by (metis not_Some_eq)
qed

lemma Unmarshal_Marshal:
  assumes "storable sr"
  shows "UnmarshalBinary (MarshalBinary sr) = Inr (sr\<lparr>SRHeader := sorted_header (SRHeader sr)\<rparr>)"
proof -
  let ?es = "sorted_header (SRHeader sr)"
  have wf: "wf_header (SRHeader sr)" using assms by (simp add: storable_def)
  have len: "length ?es = length (SRHeader sr)" by (simp add: sorted_header_def)
  then have small: "length ?es < 2 ^ 64" "\<not> length ?es > maxHeaderNames"
    using assms by (simp_all add: storable_def maxHeaderNames_def)
  have names: "read_names (length ?es) [] (dec (concat (map enc_entry ?es) @ enc_string (SRBody sr))) =
      Inr (?es, dec (enc_string (SRBody sr)))"
    using read_names_enc [of ?es "[]" "enc_string (SRBody sr)"] assms
    by (simp add: set_sorted_header [OF wf] distinct_sorted_header [OF wf] storable_def)
  have body: "d_bytes (dec (enc_string (SRBody sr))) = (SRBody sr, dec [])"
    using d_bytes_enc [of "SRBody sr" "[]"] assms by (simp add: storable_def)
  show ?thesis
    using small names body of_uint64_to_uint64 [of "StatusCode sr"] assms
    by (simp add: MarshalBinary_enc UnmarshalBinary_def d_uvarint_enc [OF to_uint64_bound] storable_def)
qed

subsection \<open>No payload is a prefix of another\<close>

text \<open>
  A read that ends without an error reads the same from a longer buffer, and leaves the
  extra bytes behind. Errors latch: a decoder without an error never had one.
\<close>

definition longer :: "bytes \<Rightarrow> decoder \<Rightarrow> decoder" where
  "longer q d = d\<lparr>dbuf := dbuf d @ q\<rparr>"

lemma longer_sel [simp]: "dbuf (longer q d) = dbuf d @ q" "derr (longer q d) = derr d"
  by (simp_all add: longer_def)

lemma d_uvarint_longer:
  "d_uvarint d = (v, d') \<Longrightarrow> derr d' = None \<Longrightarrow> derr d = None \<and> d_uvarint (longer q d) = (v, longer q d')"
  by (auto simp: d_uvarint_def longer_def Uvarint_extend split: if_splits prod.splits dest: Uvarint_bounds)

lemma d_bytes_longer:
  assumes "d_bytes d = (b, d')" "derr d' = None"
  shows "derr d = None \<and> d_bytes (longer q d) = (b, longer q d')"
proof -
  obtain n d1 where U: "d_uvarint d = (n, d1)" by force
  then have "derr d1 = None" "n \<le> length (dbuf d1)"
    using assms by (auto simp: d_bytes_def split: if_splits)
  then show ?thesis using assms U d_uvarint_longer [OF U, of q]
    by (auto simp: d_bytes_def longer_def split: if_splits)
qed

lemma read_values_longer:
  "read_values n name h d = (h', d') \<Longrightarrow> derr d' = None \<Longrightarrow>
     derr d = None \<and> read_values n name h (longer q d) = (h', longer q d')"
proof (induction n arbitrary: h d)
  case (Suc n)
  obtain v d1 where B: "d_bytes d = (v, d1)" by force
  have none: "derr d = None" using Suc.prems by (cases "derr d") auto
  then have R: "read_values n name (add_value h name v) d1 = (h', d')" using Suc.prems(1) B by simp
  note r = Suc.IH [OF R Suc.prems(2)]
  note b = d_bytes_longer [OF B conjunct1 [OF r], of q]
  show ?case using none conjunct2 [OF r] conjunct2 [OF b] by simp
qed simp

lemma read_names_longer:
  "read_names n h d = Inr (h', d') \<Longrightarrow> derr d' = None \<Longrightarrow>
     derr d = None \<and> read_names n h (longer q d) = Inr (h', longer q d')"
proof (induction n arbitrary: h d)
  case (Suc n)
  obtain name d1 where B: "d_bytes d = (name, d1)" by force
  obtain m d2 where U: "d_uvarint d1 = (m, d2)" by force
  obtain h3 d3 where V: "read_values m name h d2 = (h3, d3)" by force
  have none: "derr d = None" using Suc.prems by (auto split: if_splits)
  with Suc.prems B U V have R: "read_names n h3 d3 = Inr (h', d')" and m: "\<not> m > maxHeaderValues"
    by (auto split: if_splits)
  from Suc.IH [OF R Suc.prems(2)] have r: "derr d3 = None"
    "read_names n h3 (longer q d3) = Inr (h', longer q d')" by simp_all
  note v = read_values_longer [OF V r(1), of q]
  note u = d_uvarint_longer [OF U, of q]
  note b = d_bytes_longer [OF B, of q]
  show ?case using none m r v u b by simp
qed simp

lemma UnmarshalBinary_extended:
  assumes "UnmarshalBinary p = Inr sr" "q \<noteq> []"
  shows "UnmarshalBinary (p @ q) = Inl corrupt"
proof -
  obtain c rest where p: "p = c # rest" using assms(1) by (auto simp: UnmarshalBinary_def split: list.splits)
  obtain st d1 where U1: "d_uvarint (dec rest) = (st, d1)" by force
  obtain n d2 where U2: "d_uvarint d1 = (n, d2)" by force
  have c: "c = storedResponseVersion" and n: "\<not> n > maxHeaderNames"
    using assms(1) p U1 U2 by (auto simp: UnmarshalBinary_def split: if_splits)
  obtain h d3 where N: "read_names n [] d2 = Inr (h, d3)"
    using assms(1) p U1 U2 c n by (auto simp: UnmarshalBinary_def split: sum.splits)
  obtain b d4 where B: "d_bytes d3 = (b, d4)" by force
  have fin: "derr d4 = None" "dbuf d4 = []"
    using assms(1) p U1 U2 c n N B by (auto simp: UnmarshalBinary_def split: option.splits if_splits)
  note lb = d_bytes_longer [OF B fin(1), of q]
  note ln = read_names_longer [OF N conjunct1 [OF lb], of q]
  note l2 = d_uvarint_longer [OF U2 conjunct1 [OF ln], of q]
  note l1 = d_uvarint_longer [OF U1 conjunct1 [OF l2], of q]
  have l1': "d_uvarint (dec (rest @ q)) = (st, longer q d1)" using l1 by (simp add: longer_def)
  show ?thesis
    using p c n l1' l2 ln lb fin assms(2) by (simp add: UnmarshalBinary_def)
qed

text \<open>The encoding depends on the header as a map only: map iteration order is invisible.\<close>

lemma sorted_header_eq:
  assumes "wf_header h" "wf_header h'" "map_of h = map_of h'"
  shows "sorted_header h = sorted_header h'"
proof -
  have "set (map fst h) = set (map fst h')"
    using arg_cong [OF assms(3), of dom] by (simp add: dom_map_of_conv_image_fst)
  then have "sort (map fst h) = sort (map fst h')"
    using assms(1,2) by (intro sorted_distinct_set_unique) (simp_all add: wf_header_def)
  moreover have "hdr_index h = hdr_index h'" unfolding hdr_index_def assms(3) ..
  ultimately show ?thesis by (simp add: sorted_header_def)
qed

lemma MarshalBinary_deterministic:
  assumes "wf_header (SRHeader a)" "wf_header (SRHeader b)" "map_of (SRHeader a) = map_of (SRHeader b)"
    and "StatusCode a = StatusCode b" "SRBody a = SRBody b"
  shows "MarshalBinary a = MarshalBinary b"
  using sorted_header_eq [OF assms(1-3)] assms(4,5) by (simp add: MarshalBinary_enc)

subsection \<open>Properties\<close>

text \<open>
  (C32) Decoding an encoded response gives it back: the status, the body, and the same values
  under the same header names, in sorted order. It holds for every response the decoder's
  limits admit: at most 1024 names, 1 to 1024 values each.
\<close>

theorem stored_response_roundtrip:
  assumes "storable sr"
  shows "UnmarshalBinary (MarshalBinary sr) = Inr (sr\<lparr>SRHeader := sorted_header (SRHeader sr)\<rparr>) \<and>
    map_of (sorted_header (SRHeader sr)) = map_of (SRHeader sr)"
  using Unmarshal_Marshal [OF assms] map_of_sorted_header assms by (simp add: storable_def)

definition sample_response :: StoredResponse where
  "sample_response = \<lparr>StatusCode = 201, SRHeader = [(''Location'', [''/a'']), (''Content-Type'', [''text/plain''])],
     SRBody = ''done''\<rparr>"

lemma storable_sample: "storable sample_response"
  by (simp add: sample_response_def storable_def in_int64_def wf_header_def maxHeaderNames_def maxHeaderValues_def ok_entry_def)

theorem stored_response_roundtrip_witness:
  "UnmarshalBinary (MarshalBinary sample_response) =
     Inr (sample_response\<lparr>SRHeader := sorted_header (SRHeader sample_response)\<rparr>)"
  using stored_response_roundtrip [OF storable_sample] by simp

text \<open>
  No accepted payload is a proper prefix of an accepted payload: a payload that was cut
  off, or that has bytes appended, never decodes to another response.
\<close>

theorem payload_prefix_free:
  assumes "UnmarshalBinary p = Inr sr" "UnmarshalBinary (p @ q) = Inr sr'"
  shows "q = [] \<and> sr' = sr"
  using UnmarshalBinary_extended [OF assms(1), of q] assms by (cases "q = []") auto

theorem payload_prefix_free_witness:
  "UnmarshalBinary (MarshalBinary sample_response @ []) =
     Inr (sample_response\<lparr>SRHeader := sorted_header (SRHeader sample_response)\<rparr>) \<and> [] = ([] :: bytes)"
  using payload_prefix_free [OF Unmarshal_Marshal [OF storable_sample], of "[]"] Unmarshal_Marshal [OF storable_sample]
  by simp

text \<open>
  The encoding is a function of the header as a map: two headers with the same names and
  values encode to the same bytes, whatever order a Go map iterates in.
\<close>

theorem marshal_map_order:
  assumes "wf_header (SRHeader a)" "wf_header (SRHeader b)" "map_of (SRHeader a) = map_of (SRHeader b)"
    and "StatusCode a = StatusCode b" "SRBody a = SRBody b"
  shows "MarshalBinary a = MarshalBinary b"
  using assms by (rule MarshalBinary_deterministic)

theorem marshal_map_order_witness:
  "MarshalBinary \<lparr>StatusCode = 200, SRHeader = [(''A'', [''1'']), (''B'', [''2''])], SRBody = ''x''\<rparr> =
   MarshalBinary \<lparr>StatusCode = 200, SRHeader = [(''B'', [''2'']), (''A'', [''1''])], SRBody = ''x''\<rparr>"
  by (rule marshal_map_order) (simp_all add: wf_header_def fun_upd_twist)

text \<open>
  The encoder has no limit on the values of a header while the decoder does: a response with more
  than 1024 values under one name is encoded, and refused as corrupt when it is to be replayed.
\<close>

theorem many_values_unreadable:
  assumes "1024 < length vs" "length vs < 2 ^ 64" "length n < 2 ^ 64"
  shows "UnmarshalBinary (MarshalBinary \<lparr>StatusCode = status, SRHeader = [(n, vs)], SRBody = body\<rparr>) = Inl corrupt"
proof -
  have "enc_entry (n, vs) = enc_string n @ uvarint_bytes (length vs) @ concat (map enc_string vs)"
    by (rule enc_entry_pair)
  moreover have "sorted_header [(n, vs)] = [(n, vs)]" by (simp add: sorted_header_def hdr_index_def)
  ultimately show ?thesis
    using assms by (simp add: MarshalBinary_enc UnmarshalBinary_def d_uvarint_enc [OF to_uint64_bound]
        d_uvarint_enc [of 1, simplified] maxHeaderNames_def maxHeaderValues_def)
qed

theorem many_values_unreadable_witness:
  "UnmarshalBinary (MarshalBinary \<lparr>StatusCode = 200, SRHeader = [(''Link'', replicate 1025 ''v'')], SRBody = []\<rparr>) = Inl corrupt"
  by (rule many_values_unreadable) simp_all

end
