(* ===== verification/Recorder_Capture.thy ===== *)
theory Recorder_Capture
  imports Response_Writer Stored_Response
begin

section \<open>Capturing a response\<close>

text \<open>
  \<^verbatim>\<open>httpidem/recorder.go\<close>: the \<open>Recorder\<close> and the writer \<open>captureWriter\<close> around it. A Go set
  \<^verbatim>\<open>map[string]struct{}\<close> is a list without duplicates; its iteration order is not observable.
  The writer's \<^verbatim>\<open>Push\<close> and \<^verbatim>\<open>Unwrap\<close> touch neither the recorder nor the response.
\<close>

definition alwaysExcludedHeaders :: "string list" where
  "alwaysExcludedHeaders = [''Set-Cookie'', ''Authorization'', ''Connection'', ''Transfer-Encoding'',
     ''Keep-Alive'', ''Upgrade'', ''Trailer'', ''Te'', ''Proxy-Authenticate'', ''Proxy-Authorization'']"

record Recorder =
  maxBody :: int
  allow :: "string list"
  rec_status :: int
  rec_header :: "Header option"
  rec_body :: bytes
  overflowed :: bool
  abandoned :: bool

fun allow_names :: "string list \<Rightarrow> string list \<Rightarrow> string list" where
  "allow_names acc [] = acc"
| "allow_names acc (name # names) =
     (let c = CanonicalMIMEHeaderKey name in
      if c \<in> set alwaysExcludedHeaders then allow_names acc names
      else allow_names (List.insert c acc) names)"

definition NewRecorder :: "int \<Rightarrow> string list \<Rightarrow> Recorder" where
  "NewRecorder limit allowHeaders = \<lparr>maxBody = limit, allow = allow_names [] allowHeaders, rec_status = 0,
     rec_header = None, rec_body = [], overflowed = False, abandoned = False\<rparr>"

fun snapshot :: "Header \<Rightarrow> Header \<Rightarrow> string list \<Rightarrow> Header" where
  "snapshot header acc [] = acc"
| "snapshot header acc (name # names) =
     (let vs = hdr_Values header name in
      snapshot header (if length vs > 0 then hdr_put acc name vs else acc) names)"

definition RecordStatus :: "int \<Rightarrow> Header \<Rightarrow> Recorder \<Rightarrow> Recorder" where
  "RecordStatus status header rec =
     (if rec_status rec \<noteq> 0 \<or> (status \<ge> 100 \<and> status < 200) then rec
      else rec\<lparr>rec_status := status, rec_header := Some (snapshot header [] (allow rec))\<rparr>)"

definition RecordBody :: "bytes \<Rightarrow> Recorder \<Rightarrow> Recorder" where
  "RecordBody p rec =
     (if overflowed rec \<or> abandoned rec then rec
      else if int (length (rec_body rec)) + int (length p) > maxBody rec
      then rec\<lparr>overflowed := True, rec_body := []\<rparr>
      else rec\<lparr>rec_body := rec_body rec @ p\<rparr>)"

definition Abandon :: "Recorder \<Rightarrow> Recorder" where
  "Abandon rec = rec\<lparr>abandoned := True, rec_body := []\<rparr>"

definition Status :: "Recorder \<Rightarrow> int" where
  "Status rec = (if rec_status rec = 0 then StatusOK else rec_status rec)"

definition StoredResponse_of :: "Recorder \<Rightarrow> StoredResponse \<times> bool" where
  "StoredResponse_of rec =
     (if overflowed rec \<or> abandoned rec then (\<lparr>StatusCode = 0, SRHeader = [], SRBody = []\<rparr>, False)
      else (\<lparr>StatusCode = Status rec,
             SRHeader = (case rec_header rec of None \<Rightarrow> [] | Some h \<Rightarrow> h),
             SRBody = rec_body rec\<rparr>, True))"

subsection \<open>The capturing writer\<close>

record captureWriter =
  cw_w :: rw
  cw_rec :: Recorder
  wroteHeader :: bool

definition cw_WriteHeader :: "int \<Rightarrow> captureWriter \<Rightarrow> bool \<times> captureWriter" where
  "cw_WriteHeader code cw =
     (let cw1 = (if \<not> wroteHeader cw
                 then (let cw0 = cw\<lparr>cw_rec := RecordStatus code (rw_header (cw_w cw)) (cw_rec cw)\<rparr> in
                       if code \<ge> 200 then cw0\<lparr>wroteHeader := True\<rparr> else cw0)
                 else cw);
          (panics, w') = rw_WriteHeader code (cw_w cw1)
      in (panics, cw1\<lparr>cw_w := w'\<rparr>))"

text \<open>The implicit \<^verbatim>\<open>cw.WriteHeader(http.StatusOK)\<close> cannot panic (\<open>rw_WriteHeader_OK\<close>).\<close>

definition cw_Write :: "bytes \<Rightarrow> captureWriter \<Rightarrow> gerror option \<times> captureWriter" where
  "cw_Write p cw =
     (let cw1 = (if \<not> wroteHeader cw then snd (cw_WriteHeader StatusOK cw) else cw);
          cw2 = cw1\<lparr>cw_rec := RecordBody p (cw_rec cw1)\<rparr>;
          (err, w') = rw_Write p (cw_w cw2)
      in (err, cw2\<lparr>cw_w := w'\<rparr>))"

definition cw_finalize :: "captureWriter \<Rightarrow> captureWriter" where
  "cw_finalize cw =
     (if \<not> wroteHeader cw
      then cw\<lparr>cw_rec := RecordStatus StatusOK (rw_header (cw_w cw)) (cw_rec cw), wroteHeader := True\<rparr>
      else cw)"

definition cw_flush :: "captureWriter \<Rightarrow> gerror option \<times> captureWriter" where
  "cw_flush cw =
     (let (err, w') = rw_Flush (cw_w cw); cw1 = cw\<lparr>cw_w := w'\<rparr> in
      (err, if (case err of None \<Rightarrow> True | Some e \<Rightarrow> \<not> errors_Is e ErrNotSupported)
            then cw1\<lparr>cw_rec := Abandon (cw_rec cw1)\<rparr> else cw1))"

definition cw_Hijack :: "captureWriter \<Rightarrow> gerror option \<times> captureWriter" where
  "cw_Hijack cw =
     (let (err, w') = rw_Hijack (cw_w cw); cw1 = cw\<lparr>cw_w := w'\<rparr> in
      (err, if err = None then cw1\<lparr>cw_rec := Abandon (cw_rec cw1)\<rparr> else cw1))"

subsection \<open>The allowlist\<close>

lemma of_char_to_upper:
  assumes "is_lower c"
  shows "(of_char (to_upper c) :: nat) = of_char c - 32"
proof -
  have "(of_char c :: nat) - 32 < 256" using assms unfolding is_lower_def by linarith
  then show ?thesis using assms by (simp add: to_upper_def of_char_of)
qed

lemma of_char_to_lower:
  assumes "is_upper c"
  shows "(of_char (to_lower c) :: nat) = of_char c + 32"
proof -
  have "(of_char c :: nat) + 32 < 256" using assms unfolding is_upper_def by linarith
  then show ?thesis using assms by (simp add: to_lower_def of_char_of)
qed

lemma to_upper_kind: "is_lower c \<Longrightarrow> is_upper (to_upper c)"
  using of_char_to_upper [of c] unfolding is_lower_def is_upper_def by linarith

lemma to_lower_kind: "is_upper c \<Longrightarrow> is_lower (to_lower c)"
  using of_char_to_lower [of c] unfolding is_lower_def is_upper_def by linarith

lemma to_upper_other: "\<not> is_lower c \<Longrightarrow> to_upper c = c" and to_lower_other: "\<not> is_upper c \<Longrightarrow> to_lower c = c"
  by (simp_all add: to_upper_def to_lower_def)

lemma token_byte_to_upper [simp]: "token_byte c \<Longrightarrow> token_byte (to_upper c)"
  using to_upper_kind [of c] to_upper_other [of c] by (cases "is_lower c") (simp_all add: token_byte_def)

lemma token_byte_to_lower [simp]: "token_byte c \<Longrightarrow> token_byte (to_lower c)"
  using to_lower_kind [of c] to_lower_other [of c] by (cases "is_upper c") (simp_all add: token_byte_def)

lemma to_lower_idem [simp]: "to_lower (to_lower c) = to_lower c"
proof (cases "is_upper c")
  case True
  then have "\<not> is_upper (to_lower c)"
    using of_char_to_lower [of c] unfolding is_upper_def by linarith
  then show ?thesis by (rule to_lower_other)
qed (simp add: to_lower_other)

lemma to_upper_dash [simp]: "to_upper c = CHR ''-'' \<longleftrightarrow> c = CHR ''-''"
proof (cases "is_lower c")
  case True
  then show ?thesis using to_upper_kind [OF True] by (auto simp: is_upper_def is_lower_def)
qed (simp add: to_upper_other)

lemma to_lower_dash [simp]: "to_lower c = CHR ''-'' \<longleftrightarrow> c = CHR ''-''"
proof (cases "is_upper c")
  case True
  then show ?thesis using to_lower_kind [OF True] by (auto simp: is_upper_def is_lower_def)
qed (simp add: to_lower_other)

lemma canon_bytes_idem: "canon_bytes b (canon_bytes b s) = canon_bytes b s"
  by (induction b s rule: canon_bytes.induct) auto

lemma list_all_canon_bytes: "list_all token_byte s \<Longrightarrow> list_all token_byte (canon_bytes b s)"
  by (induction b s rule: canon_bytes.induct) auto

lemma Canonical_idem [simp]:
  "CanonicalMIMEHeaderKey (CanonicalMIMEHeaderKey s) = CanonicalMIMEHeaderKey s"
  by (simp add: CanonicalMIMEHeaderKey_def canon_bytes_idem list_all_canon_bytes)

lemma set_allow_names:
  "set (allow_names acc names) = set acc \<union> (CanonicalMIMEHeaderKey ` set names - set alwaysExcludedHeaders)"
  by (induction acc names rule: allow_names.induct) (auto simp: Let_def)

lemma distinct_allow_names: "distinct acc \<Longrightarrow> distinct (allow_names acc names)"
  by (induction acc names rule: allow_names.induct) (auto simp: Let_def)

lemma length_allow_names: "length (allow_names acc names) \<le> length acc + length names"
proof (induction acc names rule: allow_names.induct)
  case (2 acc name names)
  have "length (List.insert c acc) \<le> Suc (length acc)" for c :: string by (simp add: List.insert_def)
  with 2 show ?case by (force simp: Let_def intro: le_trans)
qed simp

lemma wf_snapshot: "wf_header acc \<Longrightarrow> wf_header (snapshot h acc names)"
  by (induction h acc names rule: snapshot.induct) (simp_all add: Let_def)

lemma map_of_snapshot:
  "map_of (snapshot h acc names) n =
     (if n \<in> set names \<and> hdr_Values h n \<noteq> [] then Some (hdr_Values h n) else map_of acc n)"
  by (induction h acc names rule: snapshot.induct) (auto simp: Let_def)

lemma snapshot_names: "fst ` set (snapshot h [] names) \<subseteq> set names"
proof -
  have "dom (map_of (snapshot h [] names)) \<subseteq> set names"
    by (auto simp: dom_def map_of_snapshot split: if_splits)
  then show ?thesis by (simp add: dom_map_of_conv_image_fst)
qed

subsection \<open>What a recorder always satisfies\<close>

text \<open>
  The allowlist is canonical, without duplicates and without an excluded name; the captured
  header is a snapshot over it; the captured body is within the limit, and empty once the
  capture is void.
\<close>

definition rec_inv :: "Recorder \<Rightarrow> bool" where
  "rec_inv r \<longleftrightarrow> distinct (allow r) \<and> set (allow r) \<inter> set alwaysExcludedHeaders = {} \<and>
     (\<forall>n\<in>set (allow r). CanonicalMIMEHeaderKey n = n) \<and>
     (rec_header r = None \<longrightarrow> rec_status r = 0) \<and>
     (\<forall>h. rec_header r = Some h \<longrightarrow> (\<exists>live. h = snapshot live [] (allow r))) \<and>
     (int (length (rec_body r)) \<le> max 0 (maxBody r)) \<and>
     (overflowed r \<or> abandoned r \<longrightarrow> rec_body r = [])"

lemma rec_inv_New: "rec_inv (NewRecorder m names)"
  by (auto simp: rec_inv_def NewRecorder_def set_allow_names distinct_allow_names)

lemma rec_inv_RecordStatus: "rec_inv r \<Longrightarrow> rec_inv (RecordStatus status h r)"
  by (auto simp: rec_inv_def RecordStatus_def)

lemma rec_inv_RecordBody: "rec_inv r \<Longrightarrow> rec_inv (RecordBody p r)"
  unfolding rec_inv_def RecordBody_def by (simp split: if_split)

lemma rec_inv_Abandon: "rec_inv r \<Longrightarrow> rec_inv (Abandon r)"
  by (simp add: rec_inv_def Abandon_def)

lemma rec_inv_captured:
  assumes "rec_inv r" "StoredResponse_of r = (sr, True)"
  shows "wf_header (SRHeader sr)" and "fst ` set (SRHeader sr) \<inter> set alwaysExcludedHeaders = {}"
    and "int (length (SRBody sr)) \<le> max 0 (maxBody r)"
proof -
  have sr: "SRHeader sr = (case rec_header r of None \<Rightarrow> [] | Some h \<Rightarrow> h)" "SRBody sr = rec_body r"
    using assms(2) by (auto simp: StoredResponse_of_def split: if_splits)
  have "\<exists>live names. set names \<subseteq> set (allow r) \<and> SRHeader sr = snapshot live [] names"
  proof (cases "rec_header r")
    case None
    have "SRHeader sr = snapshot [] [] []" using sr(1) None by simp
    moreover have "set ([] :: string list) \<subseteq> set (allow r)" by simp
    ultimately show ?thesis by blast
  next
    case (Some h)
    with assms(1) obtain live where "h = snapshot live [] (allow r)" unfolding rec_inv_def by blast
    with sr(1) Some have "SRHeader sr = snapshot live [] (allow r)" by simp
    then show ?thesis by blast
  qed
  then obtain live names where snap: "set names \<subseteq> set (allow r)" "SRHeader sr = snapshot live [] names" by blast
  show "wf_header (SRHeader sr)" unfolding snap(2) by (rule wf_snapshot) (simp add: wf_header_def)
  show "fst ` set (SRHeader sr) \<inter> set alwaysExcludedHeaders = {}"
    using snap snapshot_names [of live names] assms(1) unfolding rec_inv_def by auto
  show "int (length (SRBody sr)) \<le> max 0 (maxBody r)" using sr(2) assms(1) by (simp add: rec_inv_def)
qed

end
