(* ===== verification/Handler_Run.thy ===== *)
theory Handler_Run
  imports Recorder_Capture Core
begin

section \<open>Handlers, and what they do under capture\<close>

text \<open>
  A handler is application code: an arbitrary terminating program that acts on its response
  writer, on the two context channels (\<^verbatim>\<open>SetError\<close>, \<^verbatim>\<open>MarkFinished\<close>) and on the store (a
  transactional completion, or the effect of concurrent requests while it runs), and that
  continues on the reply of each action. \<open>run_raw\<close> runs it on a plain writer, outside the
  middleware; \<open>run_cap\<close> runs it under the \<open>captureWriter\<close> with the channels of
  \<^verbatim>\<open>httpidem/policy.go\<close> and \<^verbatim>\<open>httpidem/reservation.go\<close> installed.

  The lemmas: capture does not change what the client receives, and what is captured is
  what the client received.
\<close>

datatype 's action =
    SetHeader string "string list" | DelHeader string
  | WriteHeader int | Write bytes | Flush | Hijack
  | SetError "gerror option" | MarkFinished
  | StoreOp "'s \<Rightarrow> gerror option \<times> 's"

datatype reply = Reply "gerror option" | Panicked

datatype 's prog = Done | Panic | Do "'s action" "reply \<Rightarrow> 's prog"

subsection \<open>The context channels\<close>

record errBox =
  box_err :: "gerror option"

definition errBox_set :: "gerror option \<Rightarrow> errBox \<Rightarrow> errBox" where
  "errBox_set err b = b\<lparr>box_err := err\<rparr>"

definition errBox_get :: "errBox \<Rightarrow> gerror option" where
  "errBox_get b = box_err b"

record finishedBox =
  box_finished :: bool

definition finishedBox_mark :: "finishedBox \<Rightarrow> finishedBox" where
  "finishedBox_mark b = b\<lparr>box_finished := True\<rparr>"

definition finishedBox_done :: "finishedBox \<Rightarrow> bool" where
  "finishedBox_done b = box_finished b"

record Reservation =
  rsv_Key :: string
  rsv_Token :: string
  rsv_Options :: Options

text \<open>The values of a request context the packages look up; \<open>None\<close> where none is installed.\<close>

record ctx =
  ctx_err :: "errBox option"
  ctx_rsv :: "Reservation option"
  ctx_fin :: "finishedBox option"

definition background :: ctx where
  "background = \<lparr>ctx_err = None, ctx_rsv = None, ctx_fin = None\<rparr>"

definition SetError_ctx :: "gerror option \<Rightarrow> ctx \<Rightarrow> ctx" where
  "SetError_ctx err c = (case ctx_err c of
     Some box \<Rightarrow> c\<lparr>ctx_err := Some (errBox_set err box)\<rparr> | None \<Rightarrow> c)"

definition ErrorChannel :: "ctx \<Rightarrow> ctx" where
  "ErrorChannel c = c\<lparr>ctx_err := Some \<lparr>box_err = None\<rparr>\<rparr>"

definition ContextWithReservation :: "Reservation \<Rightarrow> ctx \<Rightarrow> ctx" where
  "ContextWithReservation rsv c = c\<lparr>ctx_rsv := Some rsv\<rparr>"

definition ReservationFromContext :: "ctx \<Rightarrow> Reservation option" where
  "ReservationFromContext c = ctx_rsv c"

definition MarkFinished_ctx :: "ctx \<Rightarrow> ctx" where
  "MarkFinished_ctx c = (case ctx_fin c of
     Some b \<Rightarrow> c\<lparr>ctx_fin := Some (finishedBox_mark b)\<rparr> | None \<Rightarrow> c)"

definition FinishChannel :: "ctx \<Rightarrow> ctx" where
  "FinishChannel c = c\<lparr>ctx_fin := Some \<lparr>box_finished = False\<rparr>\<rparr>"

text \<open>The functions the two channels return: read the error, ask for completion.\<close>

definition handlerErr :: "ctx \<Rightarrow> gerror option" where
  "handlerErr c = (case ctx_err c of None \<Rightarrow> None | Some b \<Rightarrow> errBox_get b)"

definition finished :: "ctx \<Rightarrow> bool" where
  "finished c = (case ctx_fin c of None \<Rightarrow> False | Some b \<Rightarrow> finishedBox_done b)"

subsection \<open>The default policy and the replay write path\<close>

definition defaultDecide :: "int \<Rightarrow> gerror option \<Rightarrow> Decision" where
  "defaultDecide status err =
     (if status = 429 then Discard else if status \<ge> 500 then Discard else Persist)"

fun put_all :: "Header \<Rightarrow> rw \<Rightarrow> rw" where
  "put_all [] w = w"
| "put_all ((name, vs) # h) w = put_all h (rw_set name vs w)"

definition WriteStored :: "StoredResponse \<Rightarrow> rw \<Rightarrow> reply \<times> rw" where
  "WriteStored sr w =
     (let w1 = put_all (SRHeader sr) w;
          (panics, w2) = rw_WriteHeader (StatusCode sr) w1
      in if panics then (Panicked, w2)
         else let (err, w3) = rw_Write (SRBody sr) w2 in (Reply err, w3))"

subsection \<open>Running a handler\<close>

record 's plain =
  pl_w :: rw
  pl_ctx :: ctx
  pl_store :: 's

definition raw_step :: "'s action \<Rightarrow> 's plain \<Rightarrow> reply \<times> 's plain" where
  "raw_step a st = (case a of
       SetHeader n vs \<Rightarrow> (Reply None, st\<lparr>pl_w := rw_set n vs (pl_w st)\<rparr>)
     | DelHeader n \<Rightarrow> (Reply None, st\<lparr>pl_w := rw_unset n (pl_w st)\<rparr>)
     | WriteHeader code \<Rightarrow> (let (p, w') = rw_WriteHeader code (pl_w st) in
         (if p then Panicked else Reply None, st\<lparr>pl_w := w'\<rparr>))
     | Write bs \<Rightarrow> (let (e, w') = rw_Write bs (pl_w st) in (Reply e, st\<lparr>pl_w := w'\<rparr>))
     | Flush \<Rightarrow> (let (e, w') = rw_Flush (pl_w st) in (Reply e, st\<lparr>pl_w := w'\<rparr>))
     | Hijack \<Rightarrow> (let (e, w') = rw_Hijack (pl_w st) in (Reply e, st\<lparr>pl_w := w'\<rparr>))
     | SetError e \<Rightarrow> (Reply None, st\<lparr>pl_ctx := SetError_ctx e (pl_ctx st)\<rparr>)
     | MarkFinished \<Rightarrow> (Reply None, st\<lparr>pl_ctx := MarkFinished_ctx (pl_ctx st)\<rparr>)
     | StoreOp f \<Rightarrow> (let (e, s') = f (pl_store st) in (Reply e, st\<lparr>pl_store := s'\<rparr>)))"

primrec run_raw :: "'s prog \<Rightarrow> 's plain \<Rightarrow> bool \<times> 's plain" where
  "run_raw Done = (\<lambda>st. (False, st))"
| "run_raw Panic = (\<lambda>st. (True, st))"
| "run_raw (Do a k) = (\<lambda>st. let (r, st') = raw_step a st in run_raw (k r) st')"

record 's capture =
  cp_cw :: captureWriter
  cp_ctx :: ctx
  cp_store :: 's

definition cap_step :: "'s action \<Rightarrow> 's capture \<Rightarrow> reply \<times> 's capture" where
  "cap_step a st = (case a of
       SetHeader n vs \<Rightarrow> (Reply None, st\<lparr>cp_cw := (cp_cw st)\<lparr>cw_w := rw_set n vs (cw_w (cp_cw st))\<rparr>\<rparr>)
     | DelHeader n \<Rightarrow> (Reply None, st\<lparr>cp_cw := (cp_cw st)\<lparr>cw_w := rw_unset n (cw_w (cp_cw st))\<rparr>\<rparr>)
     | WriteHeader code \<Rightarrow> (let (p, cw') = cw_WriteHeader code (cp_cw st) in
         (if p then Panicked else Reply None, st\<lparr>cp_cw := cw'\<rparr>))
     | Write bs \<Rightarrow> (let (e, cw') = cw_Write bs (cp_cw st) in (Reply e, st\<lparr>cp_cw := cw'\<rparr>))
     | Flush \<Rightarrow> (let (e, cw') = cw_flush (cp_cw st) in (Reply e, st\<lparr>cp_cw := cw'\<rparr>))
     | Hijack \<Rightarrow> (let (e, cw') = cw_Hijack (cp_cw st) in (Reply e, st\<lparr>cp_cw := cw'\<rparr>))
     | SetError e \<Rightarrow> (Reply None, st\<lparr>cp_ctx := SetError_ctx e (cp_ctx st)\<rparr>)
     | MarkFinished \<Rightarrow> (Reply None, st\<lparr>cp_ctx := MarkFinished_ctx (cp_ctx st)\<rparr>)
     | StoreOp f \<Rightarrow> (let (e, s') = f (cp_store st) in (Reply e, st\<lparr>cp_store := s'\<rparr>)))"

primrec run_cap :: "'s prog \<Rightarrow> 's capture \<Rightarrow> bool \<times> 's capture" where
  "run_cap Done = (\<lambda>st. (False, st))"
| "run_cap Panic = (\<lambda>st. (True, st))"
| "run_cap (Do a k) = (\<lambda>st. let (r, st') = cap_step a st in run_cap (k r) st')"

subsection \<open>Capture is transparent\<close>

definition uncapture :: "'s capture \<Rightarrow> 's plain" where
  "uncapture st = \<lparr>pl_w = cw_w (cp_cw st), pl_ctx = cp_ctx st, pl_store = cp_store st\<rparr>"

lemma cw_WriteHeader_w:
  "cw_WriteHeader code cw = (p, cw') \<Longrightarrow> rw_WriteHeader code (cw_w cw) = (p, cw_w cw')"
  by (auto simp: cw_WriteHeader_def Let_def split: prod.splits if_splits)

lemma cw_Write_w: "cw_Write bs cw = (e, cw') \<Longrightarrow> rw_Write bs (cw_w cw) = (e, cw_w cw')"
proof -
  assume W: "cw_Write bs cw = (e, cw')"
  let ?cw1 = "if \<not> wroteHeader cw then snd (cw_WriteHeader StatusOK cw) else cw"
  have "cw_w (snd (cw_WriteHeader StatusOK cw)) = rw_implicit (cw_w cw)"
    using cw_WriteHeader_w [of StatusOK cw] rw_WriteHeader_OK [of "cw_w cw"]
    by (cases "cw_WriteHeader StatusOK cw") auto
  then have "rw_Write bs (cw_w ?cw1) = rw_Write bs (cw_w cw)" by (simp add: rw_Write_implicit)
  with W show ?thesis by (auto simp: cw_Write_def Let_def split: prod.splits)
qed

lemma cw_flush_w: "cw_flush cw = (e, cw') \<Longrightarrow> rw_Flush (cw_w cw) = (e, cw_w cw')"
  by (auto simp: cw_flush_def Let_def split: prod.splits option.splits if_splits)

lemma cw_Hijack_w: "cw_Hijack cw = (e, cw') \<Longrightarrow> rw_Hijack (cw_w cw) = (e, cw_w cw')"
  by (auto simp: cw_Hijack_def Let_def split: prod.splits if_splits)

lemma cap_step_transparent: "cap_step a st = (r, st') \<Longrightarrow> raw_step a (uncapture st) = (r, uncapture st')"
  by (cases a) (auto simp: cap_step_def raw_step_def uncapture_def split: prod.splits
      dest!: cw_WriteHeader_w cw_Write_w cw_flush_w cw_Hijack_w)

lemma run_cap_transparent: "run_cap p st = (b, st') \<Longrightarrow> run_raw p (uncapture st) = (b, uncapture st')"
proof (induction p arbitrary: st)
  case (Do a k)
  obtain r st1 where S: "cap_step a st = (r, st1)" by force
  with Do.prems have "run_cap (k r) st1 = (b, st')" by simp
  from Do.IH [OF rangeI this] cap_step_transparent [OF S] show ?case by simp
qed simp_all

subsection \<open>What is captured is what was sent\<close>

text \<open>
  The relation between recorder and writer while a handler runs. It says nothing once the
  capture is void, after a protocol switch (101), or after a status code that
  \<^verbatim>\<open>net/http\<close> refuses.
\<close>

definition sent_body :: "int \<Rightarrow> bytes \<Rightarrow> bytes" where
  "sent_body status body = (if bodyAllowed status then body else [])"

definition bad_code :: "int \<Rightarrow> bool" where
  "bad_code c \<longleftrightarrow> c \<noteq> 0 \<and> (c < 200 \<or> c > 999)"

definition void_capture :: "captureWriter \<Rightarrow> bool" where
  "void_capture cw \<longleftrightarrow> abandoned (cw_rec cw) \<or> bad_code (rec_status (cw_rec cw)) \<or>
     (\<exists>h. rw_sent (cw_w cw) = Some (101, h))"

definition in_step :: "captureWriter \<Rightarrow> bool" where
  "in_step cw \<longleftrightarrow> \<not> rw_hijacked (cw_w cw) \<and>
     (if wroteHeader cw
      then rec_status (cw_rec cw) \<noteq> 0 \<and> (\<exists>h. rw_sent (cw_w cw) = Some (rec_status (cw_rec cw), h) \<and>
          rec_header (cw_rec cw) = Some (snapshot h [] (allow (cw_rec cw))))
      else rec_status (cw_rec cw) = 0 \<and> rw_sent (cw_w cw) = None \<and>
        rec_body (cw_rec cw) = [] \<and> rw_body (cw_w cw) = [] \<and> \<not> overflowed (cw_rec cw)) \<and>
     (\<not> overflowed (cw_rec cw) \<longrightarrow>
        rw_body (cw_w cw) = sent_body (rec_status (cw_rec cw)) (rec_body (cw_rec cw)))"

lemma faithful_WriteHeader:
  assumes "in_step cw" "cw_WriteHeader code cw = (p, cw')"
  shows "void_capture cw' \<or> in_step cw'"
proof (cases "wroteHeader cw")
  case True
  with assms have "cw' = cw" by (auto simp: in_step_def cw_WriteHeader_def rw_WriteHeader_def)
  with assms show ?thesis by simp
next
  case False
  with assms(1) have st: "rec_status (cw_rec cw) = 0" "rw_sent (cw_w cw) = None" "\<not> rw_hijacked (cw_w cw)"
    "rec_body (cw_rec cw) = []" "rw_body (cw_w cw) = []" "\<not> overflowed (cw_rec cw)"
    by (simp_all add: in_step_def)
  consider "bad_code code" "\<not> (100 \<le> code \<and> code < 200)" | "code = 0" | "code = 101"
    | "100 \<le> code" "code < 200" "code \<noteq> 101" | "200 \<le> code" "code \<le> 999"
    unfolding bad_code_def by linarith
  then show ?thesis
  proof cases
    case 1
    then have "rec_status (cw_rec cw') = code"
      using assms(2) st False by (auto simp: cw_WriteHeader_def RecordStatus_def Let_def split: prod.splits)
    with 1 show ?thesis by (simp add: void_capture_def)
  next
    case 3
    then have "rw_sent (cw_w cw') = Some (101, rw_header (cw_w cw))"
      using assms(2) st False by (auto simp: cw_WriteHeader_def rw_WriteHeader_def RecordStatus_def)
    then show ?thesis by (simp add: void_capture_def)
  qed (use assms st False in \<open>auto simp: cw_WriteHeader_def rw_WriteHeader_def RecordStatus_def in_step_def sent_body_def\<close>)
qed

lemma bodyAllowed_0 [simp]: "bodyAllowed 0"
  by (simp add: bodyAllowed_def)

lemma faithful_body:
  assumes "in_step cw" "wroteHeader cw" "\<not> abandoned (cw_rec cw)" "rw_Write bs (cw_w cw) = (e, w')"
  shows "in_step (cw\<lparr>cw_rec := RecordBody bs (cw_rec cw), cw_w := w'\<rparr>)"
proof -
  from assms obtain h where st: "rw_sent (cw_w cw) = Some (rec_status (cw_rec cw), h)" "\<not> rw_hijacked (cw_w cw)"
    by (auto simp: in_step_def)
  have w': "w' = (cw_w cw)\<lparr>rw_body := rw_body (cw_w cw) @ sent_body (rec_status (cw_rec cw)) bs\<rparr>"
    using assms(4) st by (auto simp: rw_Write_def rw_implicit_eq sent_body_def Let_def split: if_splits)
  show ?thesis
    using assms(1-3) by (auto simp: in_step_def w' RecordBody_def sent_body_def split: if_splits)
qed

lemma cw_WriteHeader_OK_wrote: "wroteHeader (snd (cw_WriteHeader StatusOK cw))"
  by (simp add: cw_WriteHeader_def rw_WriteHeader_OK) (simp add: StatusOK_def)

lemma RecordBody_sel [simp]:
  "rec_status (RecordBody p r) = rec_status r" "abandoned (RecordBody p r) = abandoned r"
  "allow (RecordBody p r) = allow r" "rec_header (RecordBody p r) = rec_header r"
  by (simp_all add: RecordBody_def)

lemma rw_sent_Write: "rw_sent w = Some x \<Longrightarrow> rw_sent (snd (rw_Write bs w)) = Some x"
  by (auto simp: rw_Write_def rw_implicit_eq)

lemma faithful_Write:
  assumes "in_step cw" "cw_Write bs cw = (e, cw')"
  shows "void_capture cw' \<or> in_step cw'"
proof -
  let ?cw1 = "if \<not> wroteHeader cw then snd (cw_WriteHeader StatusOK cw) else cw"
  obtain w' where W: "rw_Write bs (cw_w ?cw1) = (e, w')" and
    cw': "cw' = ?cw1\<lparr>cw_rec := RecordBody bs (cw_rec ?cw1), cw_w := w'\<rparr>"
    using assms(2) by (auto simp: cw_Write_def Let_def split: prod.splits)
  have "void_capture ?cw1 \<or> in_step ?cw1"
    using assms(1) faithful_WriteHeader [OF assms(1), of StatusOK] by (cases "cw_WriteHeader StatusOK cw") auto
  then show ?thesis
  proof (cases "void_capture ?cw1")
    case True
    then show ?thesis using rw_sent_Write [of "cw_w ?cw1" _ bs] W
      unfolding cw' void_capture_def by auto
  next
    case False
    moreover have "wroteHeader ?cw1" using cw_WriteHeader_OK_wrote by simp
    ultimately show ?thesis
      using faithful_body [OF _ _ _ W] \<open>void_capture ?cw1 \<or> in_step ?cw1\<close>
      unfolding cw' void_capture_def by blast
  qed
qed

lemma cw_flush_cases: "cw_flush cw = (e, cw') \<Longrightarrow> abandoned (cw_rec cw') \<or> cw' = cw"
  by (auto simp: cw_flush_def rw_Flush_def Let_def Abandon_def split: option.splits if_splits)

lemma cw_Hijack_cases: "cw_Hijack cw = (e, cw') \<Longrightarrow> abandoned (cw_rec cw') \<or> cw' = cw"
  by (auto simp: cw_Hijack_def rw_Hijack_def Let_def Abandon_def split: option.splits if_splits)

lemma RecordStatus_keeps [simp]:
  "abandoned (RecordStatus c h r) = abandoned r"
  "rec_status r \<noteq> 0 \<Longrightarrow> rec_status (RecordStatus c h r) = rec_status r"
  by (simp_all add: RecordStatus_def)

lemma Abandon_sel [simp]: "abandoned (Abandon r)" "rec_status (Abandon r) = rec_status r"
  by (simp_all add: Abandon_def)

text \<open>No operation undoes a void capture, a recorded status or a sent status line.\<close>

lemma rec_keeps:
  assumes "cap_step a st = (r, st')"
  shows "abandoned (cw_rec (cp_cw st)) \<Longrightarrow> abandoned (cw_rec (cp_cw st'))"
    and "rec_status (cw_rec (cp_cw st)) \<noteq> 0 \<Longrightarrow> rec_status (cw_rec (cp_cw st')) = rec_status (cw_rec (cp_cw st))"
  using assms
  by (cases a; auto simp: cap_step_def cw_WriteHeader_def cw_Write_def cw_flush_def cw_Hijack_def Let_def
      split: prod.splits if_splits option.splits)+

lemma raw_step_sent:
  "raw_step a st = (r, st') \<Longrightarrow> rw_sent (pl_w st) = Some x \<Longrightarrow> rw_sent (pl_w st') = Some x"
  by (cases a) (auto simp: raw_step_def rw_ops Let_def split: prod.splits if_splits option.splits)

lemma void_stays:
  assumes "void_capture (cp_cw st)" "cap_step a st = (r, st')"
  shows "void_capture (cp_cw st')"
  using assms(1) rec_keeps [OF assms(2)] raw_step_sent [OF cap_step_transparent [OF assms(2)]]
  unfolding void_capture_def bad_code_def uncapture_def by auto

lemma in_step_kept:
  assumes "in_step (cp_cw st)" "cap_step a st = (r, st')"
  shows "void_capture (cp_cw st') \<or> in_step (cp_cw st')"
proof (cases a)
  case (WriteHeader code)
  with assms faithful_WriteHeader [of "cp_cw st" code] show ?thesis by (auto simp: cap_step_def split: prod.splits)
next
  case (Write bs)
  with assms faithful_Write [of "cp_cw st" bs] show ?thesis by (auto simp: cap_step_def split: prod.splits)
next
  case Flush
  with assms cw_flush_cases [of "cp_cw st"] show ?thesis
    by (auto simp: cap_step_def void_capture_def split: prod.splits)
next
  case Hijack
  with assms cw_Hijack_cases [of "cp_cw st"] show ?thesis
    by (auto simp: cap_step_def void_capture_def split: prod.splits)
qed (use assms in \<open>auto simp: cap_step_def in_step_def rw_set_def rw_unset_def split: prod.splits\<close>)

lemma run_cap_faithful:
  "run_cap p st = (b, st') \<Longrightarrow> void_capture (cp_cw st) \<or> in_step (cp_cw st) \<Longrightarrow>
     void_capture (cp_cw st') \<or> in_step (cp_cw st')"
proof (induction p arbitrary: st)
  case (Do a k)
  obtain r st1 where S: "cap_step a st = (r, st1)" by force
  with Do.prems(1) have "run_cap (k r) st1 = (b, st')" by simp
  from Do.IH [OF rangeI this] void_stays [OF _ S] in_step_kept [OF _ S] Do.prems(2) show ?case by blast
qed simp_all

subsection \<open>The captured response\<close>

lemma rec_limits [simp]:
  "allow (RecordStatus c h r) = allow r" "maxBody (RecordStatus c h r) = maxBody r"
  "maxBody (RecordBody p r) = maxBody r" "allow (Abandon r) = allow r" "maxBody (Abandon r) = maxBody r"
  by (simp_all add: RecordStatus_def RecordBody_def Abandon_def)

lemma cap_step_rec:
  assumes "cap_step a st = (r, st')"
  shows "rec_inv (cw_rec (cp_cw st)) \<Longrightarrow> rec_inv (cw_rec (cp_cw st'))"
    and "allow (cw_rec (cp_cw st')) = allow (cw_rec (cp_cw st))"
    and "maxBody (cw_rec (cp_cw st')) = maxBody (cw_rec (cp_cw st))"
proof -
  have "\<exists>f. cw_rec (cp_cw st') = f (cw_rec (cp_cw st)) \<and> (\<forall>x. (rec_inv x \<longrightarrow> rec_inv (f x)) \<and>
      allow (f x) = allow x \<and> maxBody (f x) = maxBody x)"
  proof (cases a)
    case (WriteHeader code)
    with assms show ?thesis
      by (intro exI [of _ "if wroteHeader (cp_cw st) then id else RecordStatus code (rw_header (cw_w (cp_cw st)))"])
        (auto simp: cap_step_def cw_WriteHeader_def Let_def rec_inv_RecordStatus split: prod.splits)
  next
    case (Write bs)
    with assms show ?thesis
      by (intro exI [of _ "RecordBody bs \<circ>
            (if wroteHeader (cp_cw st) then id else RecordStatus StatusOK (rw_header (cw_w (cp_cw st))))"])
        (auto simp: cap_step_def cw_Write_def cw_WriteHeader_def rw_WriteHeader_OK Let_def rec_inv_RecordStatus
          rec_inv_RecordBody split: prod.splits)
  next
    case Flush
    with assms show ?thesis
      by (intro exI [of _ "if cw_rec (cp_cw st') = cw_rec (cp_cw st) then id else Abandon"])
        (auto simp: cap_step_def cw_flush_def Let_def rec_inv_Abandon split: prod.splits option.splits if_splits)
  next
    case Hijack
    with assms show ?thesis
      by (intro exI [of _ "if cw_rec (cp_cw st') = cw_rec (cp_cw st) then id else Abandon"])
        (auto simp: cap_step_def cw_Hijack_def Let_def rec_inv_Abandon split: prod.splits option.splits if_splits)
  qed (use assms in \<open>auto simp: cap_step_def split: prod.splits\<close>)
  then show "rec_inv (cw_rec (cp_cw st)) \<Longrightarrow> rec_inv (cw_rec (cp_cw st'))"
    "allow (cw_rec (cp_cw st')) = allow (cw_rec (cp_cw st))"
    "maxBody (cw_rec (cp_cw st')) = maxBody (cw_rec (cp_cw st))" by auto
qed

lemma run_cap_rec:
  "run_cap p st = (b, st') \<Longrightarrow> rec_inv (cw_rec (cp_cw st)) \<Longrightarrow>
     rec_inv (cw_rec (cp_cw st')) \<and> allow (cw_rec (cp_cw st')) = allow (cw_rec (cp_cw st)) \<and>
     maxBody (cw_rec (cp_cw st')) = maxBody (cw_rec (cp_cw st))"
proof (induction p arbitrary: st)
  case (Do a k)
  obtain r st1 where S: "cap_step a st = (r, st1)" by force
  with Do.prems(1) have "run_cap (k r) st1 = (b, st')" by simp
  from Do.IH [OF rangeI this] cap_step_rec [OF S] Do.prems(2) show ?case by simp
qed simp_all

lemma rec_inv_finalize: "rec_inv (cw_rec cw) \<Longrightarrow> rec_inv (cw_rec (cw_finalize cw))"
  by (simp add: cw_finalize_def rec_inv_RecordStatus)

lemma finalize_sel [simp]:
  "cw_w (cw_finalize cw) = cw_w cw" "allow (cw_rec (cw_finalize cw)) = allow (cw_rec cw)"
  "maxBody (cw_rec (cw_finalize cw)) = maxBody (cw_rec cw)"
  "abandoned (cw_rec (cw_finalize cw)) = abandoned (cw_rec cw)"
  "overflowed (cw_rec (cw_finalize cw)) = overflowed (cw_rec cw)"
  by (simp_all add: cw_finalize_def RecordStatus_def)

text \<open>The writer as the handler found it: nothing sent yet.\<close>

definition fresh_rw :: "rw \<Rightarrow> bool" where
  "fresh_rw w \<longleftrightarrow> rw_sent w = None \<and> \<not> rw_hijacked w \<and> rw_body w = []"

lemma finalize_captures:
  assumes "in_step cw" "StoredResponse_of (cw_rec (cw_finalize cw)) = (sr, True)"
  obtains h where "rw_sent (rw_implicit (cw_w cw)) = Some (StatusCode sr, h)"
    "SRHeader sr = snapshot h [] (allow (cw_rec cw))"
    "rw_body (rw_implicit (cw_w cw)) = sent_body (StatusCode sr) (SRBody sr)" "StatusCode sr \<noteq> 0"
proof (cases "wroteHeader cw")
  case True
  then show thesis using assms that
    by (auto simp: in_step_def cw_finalize_def StoredResponse_of_def Status_def rw_implicit_eq split: if_splits)
next
  case False
  then show thesis using assms that
    by (auto simp: in_step_def cw_finalize_def StoredResponse_of_def Status_def RecordStatus_def StatusOK_def
        rw_implicit_eq sent_body_def split: if_splits)
qed

text \<open>
  The response a handler gives under capture: if it did not stream, switch protocols or
  use an invalid status code, and its body fits, then the stored response holds the status,
  the allowlisted header values and the body that went to the client.
\<close>

lemma capture_faithful:
  assumes "fresh_rw w"
    and "run_cap p \<lparr>cp_cw = \<lparr>cw_w = w, cw_rec = NewRecorder m names, wroteHeader = False\<rparr>, cp_ctx = c, cp_store = s\<rparr>
      = (b, st')"
    and "StoredResponse_of (cw_rec (cw_finalize (cp_cw st'))) = (sr, True)"
    and "\<not> void_capture (cp_cw st')"
  obtains h where "rw_sent (rw_implicit (cw_w (cp_cw st'))) = Some (StatusCode sr, h)"
    "SRHeader sr = snapshot h [] (allow_names [] names)"
    "rw_body (rw_implicit (cw_w (cp_cw st'))) = sent_body (StatusCode sr) (SRBody sr)"
    "200 \<le> StatusCode sr" "StatusCode sr \<le> 999"
    "wf_header (SRHeader sr)" "int (length (SRBody sr)) \<le> max 0 m"
proof -
  let ?cw = "\<lparr>cw_w = w, cw_rec = NewRecorder m names, wroteHeader = False\<rparr>"
  have "in_step ?cw" using assms(1) by (simp add: in_step_def NewRecorder_def fresh_rw_def sent_body_def)
  then have step: "in_step (cp_cw st')" using run_cap_faithful [OF assms(2)] assms(4) by simp
  note rec = run_cap_rec [OF assms(2)]
  have inv: "rec_inv (cw_rec (cp_cw st'))" and al: "allow (cw_rec (cp_cw st')) = allow_names [] names"
    and mb: "maxBody (cw_rec (cp_cw st')) = m"
    using rec rec_inv_New [of m names] by (simp_all add: NewRecorder_def)
  from finalize_captures [OF step assms(3)] obtain h where h:
    "rw_sent (rw_implicit (cw_w (cp_cw st'))) = Some (StatusCode sr, h)"
    "SRHeader sr = snapshot h [] (allow (cw_rec (cp_cw st')))"
    "rw_body (rw_implicit (cw_w (cp_cw st'))) = sent_body (StatusCode sr) (SRBody sr)" "StatusCode sr \<noteq> 0" .
  have code: "\<not> bad_code (StatusCode sr)"
    using assms(3,4) by (auto simp: StoredResponse_of_def Status_def void_capture_def bad_code_def cw_finalize_def
        RecordStatus_def StatusOK_def split: if_splits)
  show thesis
    using that h code al rec_inv_captured [OF rec_inv_finalize [OF inv] assms(3)] mb by (simp add: bad_code_def)
qed

subsection \<open>Writing a stored response\<close>

lemma put_all_sel [simp]:
  "rw_sent (put_all h w) = rw_sent w" "rw_hijacked (put_all h w) = rw_hijacked w"
  "rw_body (put_all h w) = rw_body w" "rw_interim (put_all h w) = rw_interim w"
  by (induction h w rule: put_all.induct) (simp_all add: rw_set_def)

lemma map_of_put_all:
  "wf_header h \<Longrightarrow> map_of (rw_header (put_all h w)) = map_of (rw_header w) ++ map_of h"
proof (induction h w rule: put_all.induct)
  case (2 name vs h w)
  then have "map_of h name = None" by (auto simp: wf_header_def map_of_eq_None_iff)
  with 2 show ?case by (auto simp: wf_header_def rw_set_def map_add_def fun_eq_iff split: option.splits)
qed simp

lemma WriteStored_sends:
  assumes "fresh_rw w" "200 \<le> StatusCode sr" "StatusCode sr \<le> 999" "wf_header (SRHeader sr)"
  obtains e w' h where "WriteStored sr w = (Reply e, w')" "rw_sent w' = Some (StatusCode sr, h)"
    "map_of h = map_of (rw_header w) ++ map_of (SRHeader sr)"
    "rw_body w' = sent_body (StatusCode sr) (SRBody sr)"
proof -
  have "\<exists>e w'. WriteStored sr w = (Reply e, w') \<and>
      rw_sent w' = Some (StatusCode sr, rw_header (put_all (SRHeader sr) w)) \<and>
      rw_body w' = sent_body (StatusCode sr) (SRBody sr)"
    using assms(1-3) by (simp add: WriteStored_def rw_WriteHeader_def rw_Write_def rw_implicit_eq fresh_rw_def
        sent_body_def Let_def)
  then show thesis using that map_of_put_all [OF assms(4), of w] by blast
qed

lemma hdr_Values_map_of: "map_of h = map_of h' \<Longrightarrow> hdr_Values h = hdr_Values h'"
  by (simp add: hdr_Values_def fun_eq_iff)

subsection \<open>Properties\<close>

text \<open>
  (C26) Capturing a handler's response changes nothing else: whatever the handler does, the client
  receives the same interim responses, status, headers and body, the store ends in the same
  state, and the handler returns or panics alike, as when it runs on the plain writer.
\<close>

theorem capture_transparent:
  assumes "run_cap p st = (b, st')"
  shows "run_raw p (uncapture st) = (b, uncapture st')"
  using assms by (rule run_cap_transparent)

definition sample_prog :: "unit prog" where
  "sample_prog = Do (WriteHeader 103) (\<lambda>_. Do (Write ''ab'') (\<lambda>_. Do Flush (\<lambda>_. Do (Write ''c'') (\<lambda>_. Panic))))"

definition sample_capture :: "unit capture" where
  "sample_capture = \<lparr>cp_cw = \<lparr>cw_w = new_rw None None, cw_rec = NewRecorder 100 [''Content-Type''], wroteHeader = False\<rparr>,
     cp_ctx = background, cp_store = ()\<rparr>"

theorem capture_transparent_witness:
  "run_raw sample_prog (uncapture sample_capture) =
     (fst (run_cap sample_prog sample_capture), uncapture (snd (run_cap sample_prog sample_capture)))"
  by (rule capture_transparent) simp

text \<open>
  The values of a field that the capture stores are those of the header that was sent; so what a
  client receives of a stored header is what it would receive of the sent one.
\<close>

lemma snapshot_values:
  assumes "n \<in> set (allow_names [] names)"
  shows "hdr_Values (snapshot h [] (allow_names [] names)) n = hdr_Values h n"
proof -
  have "CanonicalMIMEHeaderKey n = n" using assms by (auto simp: set_allow_names)
  then show ?thesis using assms by (auto simp: hdr_Values_def map_of_snapshot split: option.splits)
qed

lemma snapshot_unset:
  assumes "''Content-Type'' \<in> set (allow_names [] names)" "map_of h ''Content-Type'' \<noteq> Some []"
  shows "map_of (snapshot h [] (allow_names [] names)) ''Content-Type'' = map_of h ''Content-Type''"
proof -
  have "CanonicalMIMEHeaderKey ''Content-Type'' = ''Content-Type''" by code_simp
  then show ?thesis using assms by (auto simp: hdr_Values_def map_of_snapshot split: option.splits)
qed

lemma received_stored:
  assumes "''Content-Type'' \<in> set (allow_names [] names)" "''Content-Encoding'' \<in> set (allow_names [] names)"
    and "map_of h ''Content-Type'' \<noteq> Some []" "hdr_first h ''Transfer-Encoding'' = []" "n \<in> set (allow_names [] names)"
  shows "received sniff status (snapshot h [] (allow_names [] names)) body n = received sniff status h body n"
proof -
  have "''Transfer-Encoding'' \<notin> set (allow_names [] names)" by (simp add: set_allow_names alwaysExcludedHeaders_def)
  moreover have "CanonicalMIMEHeaderKey ''Transfer-Encoding'' = ''Transfer-Encoding''" by code_simp
  ultimately have "hdr_first (snapshot h [] (allow_names [] names)) ''Transfer-Encoding'' = []"
    by (simp add: hdr_first_def hdr_Values_def map_of_snapshot)
  moreover have "hdr_first (snapshot h [] (allow_names [] names)) ''Content-Encoding'' = hdr_first h ''Content-Encoding''"
    by (simp add: hdr_first_def snapshot_values [OF assms(2)])
  ultimately have "sniffs status (snapshot h [] (allow_names [] names)) body = sniffs status h body"
    using assms(4) by (simp add: sniffs_def snapshot_unset [OF assms(1,3)])
  then show ?thesis by (simp add: received_def snapshot_values [OF assms(5)])
qed

text \<open>
  (C27) What is captured is what was sent: when a handler's response is storable (not streamed, within
  the limit, no protocol switch, no invalid status code), the stored response has the status
  that was sent, the allowlisted part of the header map that was sent, and the body - which is
  on the wire too unless the status forbids one. Its header fields are the allowlisted ones the
  client received, but for a \<^verbatim>\<open>Content-Type\<close> the server sniffed itself from a body the handler left
  untyped, or that it dropped from a 304. Sent again, the stored header and body give the client the
  same allowlisted fields, the sniffed type included, however the server detects types, when the
  allowlist has \<^verbatim>\<open>Content-Type\<close> and \<^verbatim>\<open>Content-Encoding\<close> (as the default one has), and the handler neither
  switched sniffing off nor named a transfer encoding.
\<close>

theorem capture_exact:
  assumes "fresh_rw w"
    and "run_cap p \<lparr>cp_cw = \<lparr>cw_w = w, cw_rec = NewRecorder m names, wroteHeader = False\<rparr>, cp_ctx = c, cp_store = s\<rparr>
      = (b, st')"
    and "StoredResponse_of (cw_rec (cw_finalize (cp_cw st'))) = (sr, True)"
    and "\<not> void_capture (cp_cw st')"
  shows "\<exists>h. rw_sent (rw_implicit (cw_w (cp_cw st'))) = Some (StatusCode sr, h) \<and>
    SRHeader sr = snapshot h [] (allow_names [] names) \<and>
    rw_body (rw_implicit (cw_w (cp_cw st'))) = sent_body (StatusCode sr) (SRBody sr) \<and>
    200 \<le> StatusCode sr \<and> StatusCode sr \<le> 999 \<and> int (length (SRBody sr)) \<le> max 0 m \<and>
    (\<forall>sniff. \<forall>n\<in>set (allow_names [] names).
       (n = ''Content-Type'' \<longrightarrow> \<not> sniffs (StatusCode sr) h (SRBody sr) \<and> StatusCode sr \<noteq> 304) \<longrightarrow>
       received sniff (StatusCode sr) h (sent_body (StatusCode sr) (SRBody sr)) n = hdr_Values (SRHeader sr) n) \<and>
    (''Content-Type'' \<in> set (allow_names [] names) \<and> ''Content-Encoding'' \<in> set (allow_names [] names) \<and>
       map_of h ''Content-Type'' \<noteq> Some [] \<and> hdr_first h ''Transfer-Encoding'' = [] \<longrightarrow>
       (\<forall>sniff. \<forall>n\<in>set (allow_names [] names). received sniff (StatusCode sr) (SRHeader sr) (sent_body (StatusCode sr) (SRBody sr)) n =
         received sniff (StatusCode sr) h (sent_body (StatusCode sr) (SRBody sr)) n))"
proof -
  obtain h where h: "rw_sent (rw_implicit (cw_w (cp_cw st'))) = Some (StatusCode sr, h)"
    "SRHeader sr = snapshot h [] (allow_names [] names)"
    "rw_body (rw_implicit (cw_w (cp_cw st'))) = sent_body (StatusCode sr) (SRBody sr)"
    "200 \<le> StatusCode sr" "StatusCode sr \<le> 999" "int (length (SRBody sr)) \<le> max 0 m"
    by (rule capture_faithful [OF assms]) blast
  have "received sniff (StatusCode sr) h (sent_body (StatusCode sr) (SRBody sr)) n = hdr_Values (SRHeader sr) n"
    if "n \<in> set (allow_names [] names)" "n = ''Content-Type'' \<longrightarrow> \<not> sniffs (StatusCode sr) h (SRBody sr) \<and> StatusCode sr \<noteq> 304" for sniff n
    using that by (auto simp: h(2) snapshot_values received_def sniffs_def sent_body_def split: if_splits)
  moreover have "received sniff (StatusCode sr) (SRHeader sr) body n = received sniff (StatusCode sr) h body n"
    if "''Content-Type'' \<in> set (allow_names [] names)" "''Content-Encoding'' \<in> set (allow_names [] names)"
      "map_of h ''Content-Type'' \<noteq> Some []" "hdr_first h ''Transfer-Encoding'' = []" "n \<in> set (allow_names [] names)" for sniff body n
    unfolding h(2) by (rule received_stored [OF that])
  ultimately show ?thesis using h by (intro exI [of _ h]) blast
qed

text \<open>A handler that writes a body without a type: its client gets the sniffed one, and so does the replay's.\<close>

definition untyped_prog :: "unit prog" where
  "untyped_prog = Do (WriteHeader 201) (\<lambda>_. Do (Write ''ok'') (\<lambda>_. Done))"

definition untyped_capture :: "unit capture" where
  "untyped_capture = \<lparr>cp_cw = \<lparr>cw_w = new_rw None None, cw_rec = NewRecorder 100 [''Content-Type'', ''Content-Encoding''],
     wroteHeader = False\<rparr>, cp_ctx = background, cp_store = ()\<rparr>"

theorem capture_exact_witness:
  "\<exists>h. rw_sent (rw_implicit (cw_w (cp_cw (snd (run_cap untyped_prog untyped_capture))))) = Some (201, h) \<and>
     sniffs 201 h ''ok'' \<and> received (\<lambda>_. ''text/plain'') 201 [] ''ok'' ''Content-Type'' = received (\<lambda>_. ''text/plain'') 201 h ''ok'' ''Content-Type''"
proof -
  let ?st = "snd (run_cap untyped_prog untyped_capture)" and ?sr = "\<lparr>StatusCode = 201, SRHeader = [], SRBody = ''ok''\<rparr>"
  let ?al = "allow_names [] [''Content-Type'', ''Content-Encoding'']"
  have run: "run_cap untyped_prog \<lparr>cp_cw = \<lparr>cw_w = new_rw None None, cw_rec = NewRecorder 100 [''Content-Type'', ''Content-Encoding''],
      wroteHeader = False\<rparr>, cp_ctx = background, cp_store = ()\<rparr> = (False, ?st)" by code_simp
  have sr: "StoredResponse_of (cw_rec (cw_finalize (cp_cw ?st))) = (?sr, True)" by code_simp
  have sent: "rw_sent (rw_implicit (cw_w (cp_cw ?st))) = Some (201, [])" by code_simp
  have "\<not> abandoned (cw_rec (cp_cw ?st))" "rec_status (cw_rec (cp_cw ?st)) = 201" "rw_sent (cw_w (cp_cw ?st)) = Some (201, [])"
    by code_simp+
  then have "\<not> void_capture (cp_cw ?st)" by (simp add: void_capture_def bad_code_def)
  moreover have al: "''Content-Type'' \<in> set ?al" "''Content-Encoding'' \<in> set ?al" by code_simp+
  moreover have "sniffs 201 [] ''ok''" "hdr_first [] ''Transfer-Encoding'' = []" "sent_body 201 ''ok'' = ''ok''" by code_simp+
  ultimately show ?thesis using capture_exact [OF _ run sr] sent by (auto simp: fresh_rw_def new_rw_def)
qed

text \<open>
  (C28) Whatever the allowlist and whatever the handler does, a stored response holds no
  Set-Cookie, Authorization or hop-by-hop header, names no header outside the allowlist, and its
  body is within the limit.
\<close>

theorem excluded_headers_never_stored:
  assumes "run_cap p \<lparr>cp_cw = \<lparr>cw_w = w, cw_rec = NewRecorder m names, wroteHeader = False\<rparr>, cp_ctx = c, cp_store = s\<rparr>
      = (b, st')"
    and "StoredResponse_of (cw_rec (cw_finalize (cp_cw st'))) = (sr, True)"
  shows "fst ` set (SRHeader sr) \<subseteq> CanonicalMIMEHeaderKey ` set names - set alwaysExcludedHeaders \<and>
    int (length (SRBody sr)) \<le> max 0 m"
proof -
  have inv: "rec_inv (cw_rec (cp_cw st'))" and al: "allow (cw_rec (cp_cw st')) = allow_names [] names"
    and mb: "maxBody (cw_rec (cp_cw st')) = m"
    using run_cap_rec [OF assms(1)] rec_inv_New [of m names] by (simp_all add: NewRecorder_def)
  note cap = rec_inv_captured [OF rec_inv_finalize [OF inv] assms(2)]
  have "fst ` set (SRHeader sr) \<subseteq> set (allow_names [] names)"
  proof -
    have "\<exists>live. SRHeader sr = snapshot live [] (allow_names [] names) \<or> SRHeader sr = []"
      using assms(2) rec_inv_finalize [OF inv] al
      by (auto simp: StoredResponse_of_def rec_inv_def split: if_splits option.splits)
    then show ?thesis using snapshot_names by fastforce
  qed
  then show ?thesis using cap(3) mb by (auto simp: set_allow_names)
qed

definition plain_prog :: "unit prog" where
  "plain_prog = Do (SetHeader ''Content-Type'' [''text/plain'']) (\<lambda>_. Do (WriteHeader 201) (\<lambda>_. Do (Write ''ok'') (\<lambda>_. Done)))"

theorem excluded_headers_never_stored_witness:
  "fst ` set (SRHeader (fst (StoredResponse_of (cw_rec (cw_finalize (cp_cw (snd (run_cap plain_prog sample_capture)))))))) \<subseteq>
     {''Content-Type''} - set alwaysExcludedHeaders"
proof -
  have run: "run_cap plain_prog \<lparr>cp_cw = \<lparr>cw_w = new_rw None None, cw_rec = NewRecorder 100 [''Content-Type''],
      wroteHeader = False\<rparr>, cp_ctx = background, cp_store = ()\<rparr> = (False, snd (run_cap plain_prog sample_capture))"
    by code_simp
  have sr: "StoredResponse_of (cw_rec (cw_finalize (cp_cw (snd (run_cap plain_prog sample_capture))))) =
      (fst (StoredResponse_of (cw_rec (cw_finalize (cp_cw (snd (run_cap plain_prog sample_capture)))))), True)"
    by code_simp
  have "CanonicalMIMEHeaderKey ''Content-Type'' = ''Content-Type''" by code_simp
  with excluded_headers_never_stored [OF run sr] show ?thesis by simp
qed

end
