(* ===== verification/Http_Errors.thy ===== *)
theory Http_Errors
  imports Response_Writer
begin

section \<open>Rejection responses\<close>

text \<open>
  \<^verbatim>\<open>httpidem/errors.go\<close>: the default \<open>ErrorWriter\<close>, an RFC 9457 problem document. The document
  is encoded as \<^verbatim>\<open>encoding/json\<close> does it: short escapes, \<^verbatim>\<open>\u00XX\<close> for other control bytes
  and for the HTML characters, invalid UTF-8 as U+FFFD, and a final newline.
\<close>

definition StatusText_table :: "(int \<times> string) list" where
  "StatusText_table =
    [(100, ''Continue''), (101, ''Switching Protocols''), (102, ''Processing''), (103, ''Early Hints''),
     (200, ''OK''), (201, ''Created''), (202, ''Accepted''), (203, ''Non-Authoritative Information''),
     (204, ''No Content''), (205, ''Reset Content''), (206, ''Partial Content''), (207, ''Multi-Status''),
     (208, ''Already Reported''), (226, ''IM Used''), (300, ''Multiple Choices''), (301, ''Moved Permanently''),
     (302, ''Found''), (303, ''See Other''), (304, ''Not Modified''), (305, ''Use Proxy''),
     (307, ''Temporary Redirect''), (308, ''Permanent Redirect''), (400, ''Bad Request''),
     (401, ''Unauthorized''), (402, ''Payment Required''), (403, ''Forbidden''), (404, ''Not Found''),
     (405, ''Method Not Allowed''), (406, ''Not Acceptable''), (407, ''Proxy Authentication Required''),
     (408, ''Request Timeout''), (409, ''Conflict''), (410, ''Gone''), (411, ''Length Required''),
     (412, ''Precondition Failed''), (413, ''Request Entity Too Large''), (414, ''Request URI Too Long''),
     (415, ''Unsupported Media Type''), (416, ''Requested Range Not Satisfiable''),
     (417, ''Expectation Failed''), (418, ''I'' @ [CHR 0x27] @ ''m a teapot''), (421, ''Misdirected Request''),
     (422, ''Unprocessable Entity''), (423, ''Locked''), (424, ''Failed Dependency''), (425, ''Too Early''),
     (426, ''Upgrade Required''), (428, ''Precondition Required''), (429, ''Too Many Requests''),
     (431, ''Request Header Fields Too Large''), (451, ''Unavailable For Legal Reasons''),
     (500, ''Internal Server Error''), (501, ''Not Implemented''), (502, ''Bad Gateway''),
     (503, ''Service Unavailable''), (504, ''Gateway Timeout''), (505, ''HTTP Version Not Supported''),
     (506, ''Variant Also Negotiates''), (507, ''Insufficient Storage''), (508, ''Loop Detected''),
     (510, ''Not Extended''), (511, ''Network Authentication Required'')]"

definition StatusText :: "int \<Rightarrow> string" where
  "StatusText code = (case map_of StatusText_table code of Some t \<Rightarrow> t | None \<Rightarrow> [])"

subsection \<open>JSON strings\<close>

definition is_cont :: "nat \<Rightarrow> nat \<Rightarrow> char \<Rightarrow> bool" where
  "is_cont lo hi c \<longleftrightarrow> lo \<le> (of_char c :: nat) \<and> (of_char c :: nat) \<le> hi"

text \<open>The length of the UTF-8 sequence a string of bytes starts with; 0 if it is not valid.\<close>

definition utf8_len :: "char \<Rightarrow> string \<Rightarrow> nat" where
  "utf8_len c cs =
     (let b = (of_char c :: nat); cont = is_cont 128 191 in
      if b < 128 then 1
      else case cs of
        [] \<Rightarrow> 0
      | c1 # r1 \<Rightarrow>
          if 194 \<le> b \<and> b \<le> 223 then (if cont c1 then 2 else 0)
          else case r1 of
            [] \<Rightarrow> 0
          | c2 # r2 \<Rightarrow>
              if 224 \<le> b \<and> b \<le> 239 then
                (if is_cont (if b = 224 then 160 else 128) (if b = 237 then 159 else 191) c1 \<and> cont c2 then 3 else 0)
              else case r2 of
                [] \<Rightarrow> 0
              | c3 # r3 \<Rightarrow>
                  if 240 \<le> b \<and> b \<le> 244 then
                    (if is_cont (if b = 240 then 144 else 128) (if b = 244 then 143 else 191) c1 \<and> cont c2 \<and> cont c3
                     then 4 else 0)
                  else 0)"

definition hex_lower :: "nat \<Rightarrow> char" where
  "hex_lower n = ''0123456789abcdef'' ! n"

definition json_byte :: "char \<Rightarrow> string" where
  "json_byte c =
     (let n = (of_char c :: nat) in
      if c = CHR 0x22 \<or> c = CHR 0x5C then [CHR 0x5C, c]
      else if n = 8 then [CHR 0x5C, CHR ''b''] else if n = 12 then [CHR 0x5C, CHR ''f'']
      else if n = 10 then [CHR 0x5C, CHR ''n''] else if n = 13 then [CHR 0x5C, CHR ''r'']
      else if n = 9 then [CHR 0x5C, CHR ''t'']
      else if n < 32 \<or> c = CHR ''<'' \<or> c = CHR ''>'' \<or> c = CHR ''&''
      then CHR 0x5C # ''u00'' @ [hex_lower (n div 16), hex_lower (n mod 16)]
      else [c])"

function json_escape :: "string \<Rightarrow> string" where
  "json_escape [] = []"
| "json_escape (c # cs) =
     (let n = utf8_len c cs in
      if n = 0 then CHR 0x5C # ''ufffd'' @ json_escape cs
      else if n = 1 then json_byte c @ json_escape cs
      else if take n (c # cs) = [CHR 0xE2, CHR 0x80, CHR 0xA8] then CHR 0x5C # ''u2028'' @ json_escape (drop n (c # cs))
      else if take n (c # cs) = [CHR 0xE2, CHR 0x80, CHR 0xA9] then CHR 0x5C # ''u2029'' @ json_escape (drop n (c # cs))
      else take n (c # cs) @ json_escape (drop n (c # cs)))"
  by pat_completeness auto
termination
  by (relation "measure length") (auto simp: less_Suc_eq_le)

definition json_string :: "string \<Rightarrow> string" where
  "json_string s = [CHR 0x22] @ json_escape s @ [CHR 0x22]"

definition json_field :: "string \<Rightarrow> string \<Rightarrow> string" where
  "json_field name v = json_string name @ '':'' @ v"

subsection \<open>The default ErrorWriter\<close>

type_synonym ErrorWriter = "Request \<Rightarrow> int \<Rightarrow> gerror \<Rightarrow> rw \<Rightarrow> bool \<times> rw"

definition problem_document :: "int \<Rightarrow> string \<Rightarrow> bytes" where
  "problem_document status detail =
     ''{'' @ json_field ''type'' (json_string ''about:blank'') @ '','' @
       json_field ''title'' (json_string (StatusText status)) @ '','' @
       json_field ''status'' (FormatInt status) @
       (if detail = [] then [] else '','' @ json_field ''detail'' (json_string detail)) @ ''}'' @ [CHR 0x0A]"

definition problemWriter :: ErrorWriter where
  "problemWriter r status err w =
     (let detail = (if status < 500 then Error err else []);
          w1 = w\<lparr>rw_header := hdr_Set (rw_header w) ''Content-Type'' ''application/problem+json''\<rparr>;
          (panics, w2) = rw_WriteHeader status w1
      in if panics then (True, w2)
         else let (_, w3) = rw_Write (problem_document status detail) w2 in (False, w3))"

lemma problem_document_nonempty [simp]: "problem_document s d \<noteq> []"
  by (simp add: problem_document_def)

text \<open>The status reaches the client, with the document as the body.\<close>

lemma problemWriter_sends:
  assumes "rw_sent w = None" "\<not> rw_hijacked w" "400 \<le> status" "status \<le> 999"
  obtains w' where "problemWriter r status err w = (False, w')"
    "rw_sent w' = Some (status, hdr_Set (rw_header w) ''Content-Type'' ''application/problem+json'')"
    "rw_body w' = rw_body w @ problem_document status (if status < 500 then Error err else [])"
  using assms by (simp add: problemWriter_def rw_WriteHeader_def rw_Write_def rw_implicit_eq bodyAllowed_def Let_def)

text \<open>Nothing of a server-side error reaches the client.\<close>

lemma problemWriter_no_leak: "500 \<le> status \<Longrightarrow> problemWriter r status e w = problemWriter r status e' w"
  by (simp add: problemWriter_def)

subsection \<open>Properties\<close>

text \<open>
  (C37) The default error writer sends the status it is given with a problem document, and for a
  status of 500 or more nothing of the error reaches the client: two different errors give the
  same response.
\<close>

theorem server_errors_do_not_leak:
  assumes "rw_sent w = None" "\<not> rw_hijacked w" "400 \<le> status" "status \<le> 999"
  shows "\<exists>w'. problemWriter r status err w = (False, w') \<and>
    rw_sent w' = Some (status, hdr_Set (rw_header w) ''Content-Type'' ''application/problem+json'') \<and>
    rw_body w' = rw_body w @ problem_document status (if status < 500 then Error err else []) \<and>
    (500 \<le> status \<longrightarrow> problemWriter r status err' w = (False, w'))"
  by (rule problemWriter_sends [OF assms, of r err]) (metis problemWriter_no_leak)

definition sample_request :: Request where
  "sample_request = \<lparr>Method = ''POST'', ReqURL = \<lparr>EscapedPath = ''/pay'', RawQuery = []\<rparr>, ReqHeader = [], ReqBody = None, ContentLength = 0\<rparr>"

theorem server_errors_do_not_leak_witness:
  "problemWriter sample_request 503 (Opaque ''dial tcp 10.0.0.7:6379: refused'') (new_rw None None) =
   problemWriter sample_request 503 (Opaque ''x'') (new_rw None None)"
  using server_errors_do_not_leak [of "new_rw None None" 503 sample_request "Opaque ''dial tcp 10.0.0.7:6379: refused''" "Opaque ''x''"]
  by (auto simp: new_rw_def)

end
