(* ===== verification/Key_Grammar.thy ===== *)
theory Key_Grammar
  imports Http_Base
begin

section \<open>The Idempotency-Key header\<close>

text \<open>
  \<^verbatim>\<open>httpidem/key.go\<close>: \<open>ParseKey\<close>, \<open>parseSFString\<close> and \<open>KeyFromHeader\<close>, and the composition
  of a scope with a key that the middlewares do before they call the core. The locale
  \<open>key_grammar\<close> states what the composition relies on: a parsed key holds no NUL byte.
\<close>

definition HeaderIdempotencyKey :: string where
  "HeaderIdempotencyKey = ''Idempotency-Key''"

definition HeaderIdempotencyReplayed :: string where
  "HeaderIdempotencyReplayed = ''Idempotency-Replayed''"

definition is_ows :: "char \<Rightarrow> bool" where
  "is_ows c \<longleftrightarrow> c = CHR '' '' \<or> c = CHR 0x09"

text \<open>\<^verbatim>\<open>strings.Trim(value, " \t")\<close>.\<close>

definition trim :: "string \<Rightarrow> string" where
  "trim s = rev (dropWhile is_ows (rev (dropWhile is_ows s)))"

definition is_ctl :: "char \<Rightarrow> bool" where
  "is_ctl c \<longleftrightarrow> (of_char c :: nat) \<le> 31 \<or> of_char c = (127 :: nat)"

text \<open>
  The scan of an RFC 8941 string from position \<open>i\<close> on: the unread suffix, and the bytes
  written to the builder so far.
\<close>

fun sf_scan :: "string \<Rightarrow> string \<Rightarrow> string option" where
  "sf_scan b [] = None"
| "sf_scan b (c # cs) =
     (if c = CHR 0x5C then
        (case cs of
           [] \<Rightarrow> None
         | n # cs' \<Rightarrow> if n \<noteq> CHR 0x22 \<and> n \<noteq> CHR 0x5C then None else sf_scan (b @ [n]) cs')
      else if c = CHR 0x22 then (if cs \<noteq> [] then None else Some b)
      else if (of_char c :: nat) < 32 \<or> (of_char c :: nat) > 126 then None
      else sf_scan (b @ [c]) cs)"

definition parseSFString :: "string \<Rightarrow> string option" where
  "parseSFString s = (case s of
       [] \<Rightarrow> None
     | c # cs \<Rightarrow> if length s < 2 \<or> c \<noteq> CHR 0x22 then None else sf_scan [] cs)"

definition invalid_key :: "string \<Rightarrow> gerror" where
  "invalid_key detail = wrap_before (Sentinel ErrKeyInvalid) ('': '' @ detail)"

definition check_length :: "string \<Rightarrow> gerror + string" where
  "check_length key =
     (if length key = 0 \<or> length key > 255
      then Inl (invalid_key (''key is '' @ FormatInt (int (length key)) @ '' bytes, want 1-255''))
      else Inr key)"

definition ParseKey :: "string \<Rightarrow> gerror + string" where
  "ParseKey value =
     (let v = trim value in
      case v of
        [] \<Rightarrow> Inl (invalid_key ''empty value'')
      | c # cs \<Rightarrow>
          if c = CHR 0x22 then
            (case parseSFString v of
               None \<Rightarrow> Inl (invalid_key ''malformed RFC 8941 string'')
             | Some decoded \<Rightarrow> check_length decoded)
          else (case List.find is_ctl v of
              Some x \<Rightarrow> Inl (invalid_key (''control character 0x'' @ hex2 x))
            | None \<Rightarrow> check_length v))"

definition KeyFromHeader :: "Header \<Rightarrow> gerror + string" where
  "KeyFromHeader h = (case hdr_Values h HeaderIdempotencyKey of
       [] \<Rightarrow> Inl (Sentinel ErrKeyMissing)
     | [v] \<Rightarrow> ParseKey v
     | vs \<Rightarrow> Inl (invalid_key (FormatInt (int (length vs)) @ '' Idempotency-Key headers, want exactly 1'')))"

text \<open>\<^verbatim>\<open>storeKey := key; if scope != "" { storeKey = scope + "\x00" + key }\<close>.\<close>

definition scoped_key :: "string \<Rightarrow> string \<Rightarrow> string" where
  "scoped_key scope key = (if scope = [] then key else scope @ [CHR 0x00] @ key)"

subsection \<open>What a parsed key looks like\<close>

definition valid_key :: "string \<Rightarrow> bool" where
  "valid_key k \<longleftrightarrow> 1 \<le> length k \<and> length k \<le> 255 \<and> (\<forall>c\<in>set k. \<not> is_ctl c)"

lemma errors_Is_invalid_key [simp]: "errors_Is (invalid_key d) t = (t = ErrKeyInvalid)"
  by (auto simp: invalid_key_def)

lemma check_length_cases:
  "check_length k = (if 1 \<le> length k \<and> length k \<le> 255 then Inr k else
     Inl (invalid_key (''key is '' @ FormatInt (int (length k)) @ '' bytes, want 1-255'')))"
  by (auto simp: check_length_def Suc_le_eq)

lemma check_length_Inr [simp]:
  "check_length k = Inr k' \<longleftrightarrow> k' = k \<and> 1 \<le> length k \<and> length k \<le> 255"
  by (auto simp: check_length_cases)

lemma sf_scan_printable:
  "sf_scan b cs = Some k \<Longrightarrow> (\<forall>c\<in>set b. 32 \<le> (of_char c :: nat) \<and> (of_char c :: nat) \<le> 126) \<Longrightarrow>
     (\<forall>c\<in>set k. 32 \<le> (of_char c :: nat) \<and> (of_char c :: nat) \<le> 126)"
proof (induction b cs rule: sf_scan.induct)
  case (2 b c cs)
  then show ?case by (fastforce split: if_splits list.splits)
qed simp

lemma parseSFString_printable:
  "parseSFString s = Some k \<Longrightarrow> \<forall>c\<in>set k. 32 \<le> (of_char c :: nat) \<and> (of_char c :: nat) \<le> 126"
  by (rule sf_scan_printable [of "[]" "tl s"])
    (auto simp: parseSFString_def split: list.splits if_splits)

lemma ParseKey_valid: "ParseKey v = Inr k \<Longrightarrow> valid_key k"
proof -
  assume P: "ParseKey v = Inr k"
  then have len: "1 \<le> length k \<and> length k \<le> 255"
    by (auto simp: ParseKey_def Let_def split: list.splits if_splits option.splits)
  have "\<not> is_ctl c" if "c \<in> set k" for c
  proof (cases "trim v \<noteq> [] \<and> hd (trim v) = CHR 0x22")
    case True
    with P have "parseSFString (trim v) = Some k"
      by (auto simp: ParseKey_def Let_def split: list.splits if_splits option.splits)
    from parseSFString_printable [OF this] that show ?thesis by (fastforce simp: is_ctl_def)
  next
    case False
    with P have "k = trim v \<and> List.find is_ctl (trim v) = None"
      by (auto simp: ParseKey_def Let_def split: list.splits if_splits option.splits)
    with that show ?thesis by (auto simp: find_None_iff)
  qed
  with len show ?thesis by (simp add: valid_key_def)
qed

lemma ParseKey_error: "ParseKey v = Inl e \<Longrightarrow> errors_Is e ErrKeyInvalid"
  by (auto simp: ParseKey_def check_length_cases Let_def split: list.splits if_splits option.splits)

lemma ParseKey_not_missing: "ParseKey v = Inl e \<Longrightarrow> \<not> errors_Is e ErrKeyMissing"
  by (auto simp: ParseKey_def check_length_cases Let_def split: list.splits if_splits option.splits)

subsection \<open>Keys sent raw or quoted\<close>

lemma dropWhile_all: "\<forall>c\<in>set xs. P c \<Longrightarrow> dropWhile P (xs @ ys) = dropWhile P ys"
  by (induction xs) auto

lemma trim_padded:
  assumes "\<forall>c\<in>set pre. is_ows c" "\<forall>c\<in>set post. is_ows c" "k \<noteq> []" "\<not> is_ows (hd k)" "\<not> is_ows (last k)"
  shows "trim (pre @ k @ post) = k"
proof -
  have "dropWhile is_ows (pre @ k @ post) = k @ post"
    using assms by (cases k) (auto simp: dropWhile_all)
  moreover have "dropWhile is_ows (rev post @ rev k) = rev k"
    using assms by (cases k rule: rev_cases) (auto simp: dropWhile_all)
  ultimately show ?thesis by (simp add: trim_def)
qed

lemma trim_id: "s \<noteq> [] \<Longrightarrow> \<not> is_ows (hd s) \<Longrightarrow> \<not> is_ows (last s) \<Longrightarrow> trim s = s"
  using trim_padded [of "[]" "[]" s] by simp

lemma ParseKey_raw:
  assumes "valid_key k" "hd k \<noteq> CHR 0x22" "\<not> is_ows (hd k)" "\<not> is_ows (last k)"
    and "\<forall>c\<in>set pre. is_ows c" "\<forall>c\<in>set post. is_ows c"
  shows "ParseKey (pre @ k @ post) = Inr k"
proof -
  have ne: "k \<noteq> []" using assms(1) by (auto simp: valid_key_def)
  have "trim (pre @ k @ post) = k" using assms ne by (simp add: trim_padded)
  moreover have "List.find is_ctl k = None" using assms(1) by (auto simp: find_None_iff valid_key_def)
  moreover have "check_length k = Inr k" using assms(1) by (simp add: check_length_cases valid_key_def)
  ultimately show ?thesis using ne assms(2) by (cases k) (simp_all add: ParseKey_def)
qed

text \<open>The RFC 8941 form of a key: quote and backslash are escaped.\<close>

fun sf_escape :: "string \<Rightarrow> string" where
  "sf_escape [] = []"
| "sf_escape (c # cs) =
     (if c = CHR 0x22 \<or> c = CHR 0x5C then CHR 0x5C # c # sf_escape cs else c # sf_escape cs)"

definition sf_quote :: "string \<Rightarrow> string" where
  "sf_quote k = CHR 0x22 # sf_escape k @ [CHR 0x22]"

lemma sf_scan_escape:
  "\<forall>c\<in>set k. 32 \<le> (of_char c :: nat) \<and> (of_char c :: nat) \<le> 126 \<Longrightarrow>
     sf_scan b (sf_escape k @ [CHR 0x22]) = Some (b @ k)"
  by (induction k arbitrary: b) auto

lemma ParseKey_quoted:
  assumes "1 \<le> length k" "length k \<le> 255" "\<forall>c\<in>set k. 32 \<le> (of_char c :: nat) \<and> (of_char c :: nat) \<le> 126"
  shows "ParseKey (sf_quote k) = Inr k"
proof -
  have "trim (sf_quote k) = sf_quote k"
    by (rule trim_id) (simp_all add: sf_quote_def is_ows_def)
  moreover have "parseSFString (sf_quote k) = Some k"
    using sf_scan_escape [OF assms(3), of "[]"] by (simp add: parseSFString_def sf_quote_def)
  ultimately show ?thesis using assms(1,2)
    by (simp add: ParseKey_def Let_def sf_quote_def check_length_cases)
qed

subsection \<open>Scopes\<close>

locale key_grammar =
  fixes parse :: "'i \<Rightarrow> gerror + string"
  assumes parse_no_nul: "parse x = Inr k \<Longrightarrow> CHR 0x00 \<notin> set k"
begin

lemma scoped_inject:
  assumes "parse x = Inr k" "parse y = Inr k'" "scoped_key sc k = scoped_key sc' k'"
  shows "sc = sc' \<and> k = k'"
  using assms parse_no_nul [OF assms(1)] parse_no_nul [OF assms(2)]
    sep_last_inject [of sc "CHR 0x00" k sc' k']
  by (auto simp: scoped_key_def split: if_splits)

end

lemma valid_key_no_nul: "valid_key k \<Longrightarrow> CHR 0x00 \<notin> set k"
  by (auto simp: valid_key_def is_ctl_def)

lemma KeyFromHeader_valid: "KeyFromHeader h = Inr k \<Longrightarrow> valid_key k"
  by (auto simp: KeyFromHeader_def dest: ParseKey_valid split: list.splits)

interpretation hk: key_grammar KeyFromHeader
  by unfold_locales (simp add: valid_key_no_nul KeyFromHeader_valid)

subsection \<open>Exactly which values are keys\<close>

definition printable :: "string \<Rightarrow> bool" where
  "printable k \<longleftrightarrow> list_all (\<lambda>c. 32 \<le> (of_char c :: nat) \<and> (of_char c :: nat) \<le> 126) k"

text \<open>The escapes of an RFC 8941 string are forced, so every key has one quoted form.\<close>

lemma sf_scan_sound:
  "sf_scan b cs = Some k \<Longrightarrow> \<exists>k'. k = b @ k' \<and> cs = sf_escape k' @ [CHR 0x22] \<and> printable k'"
proof (induction b cs rule: sf_scan.induct)
  case (2 b c cs)
  show ?case
  proof (cases "c = CHR 0x5C")
    case True
    then obtain n cs' where n: "cs = n # cs'" "n = CHR 0x22 \<or> n = CHR 0x5C" "sf_scan (b @ [n]) cs' = Some k"
      using "2.prems" by (auto split: list.splits if_splits)
    then obtain k' where "k = (b @ [n]) @ k'" "cs' = sf_escape k' @ [CHR 0x22]" "printable k'"
      using "2.IH"(1) [OF True n(1)] by auto
    with n True show ?thesis by (intro exI [of _ "n # k'"]) (auto simp: printable_def)
  next
    case False
    show ?thesis
    proof (cases "c = CHR 0x22")
      case True
      then show ?thesis using "2.prems" by (intro exI [of _ "[]"]) (auto simp: printable_def split: if_splits)
    next
      case c: False
      with False "2.prems" have p: "32 \<le> (of_char c :: nat)" "(of_char c :: nat) \<le> 126" "sf_scan (b @ [c]) cs = Some k"
        by (auto split: if_splits)
      then obtain k' where "k = (b @ [c]) @ k'" "cs = sf_escape k' @ [CHR 0x22]" "printable k'"
        using "2.IH"(2) [OF False c] by auto
      with False c p show ?thesis by (intro exI [of _ "c # k'"]) (simp add: printable_def)
    qed
  qed
qed simp

lemma parseSFString_iff: "parseSFString s = Some k \<longleftrightarrow> s = sf_quote k \<and> printable k"
proof
  assume "parseSFString s = Some k"
  then obtain cs where "s = CHR 0x22 # cs" "sf_scan [] cs = Some k"
    by (auto simp: parseSFString_def split: list.splits if_splits)
  with sf_scan_sound [of "[]" cs k] show "s = sf_quote k \<and> printable k" by (simp add: sf_quote_def)
next
  assume "s = sf_quote k \<and> printable k"
  then show "parseSFString s = Some k"
    using sf_scan_escape [of k "[]"] by (simp add: parseSFString_def sf_quote_def printable_def list_all_iff)
qed

lemma printable_not_ctl: "printable k \<Longrightarrow> c \<in> set k \<Longrightarrow> \<not> is_ctl c"
  by (fastforce simp: printable_def is_ctl_def list_all_iff)

lemma ParseKey_iff:
  "ParseKey v = Inr k \<longleftrightarrow> valid_key k \<and> (trim v = k \<and> hd k \<noteq> CHR 0x22 \<or> trim v = sf_quote k \<and> printable k)"
proof (cases "trim v")
  case Nil
  then show ?thesis by (auto simp: ParseKey_def valid_key_def sf_quote_def)
next
  case (Cons c cs)
  show ?thesis
  proof (cases "c = CHR 0x22")
    case True
    then have "ParseKey v = Inr k \<longleftrightarrow> parseSFString (trim v) = Some k \<and> 1 \<le> length k \<and> length k \<le> 255"
      using Cons by (auto simp: ParseKey_def split: option.split)
    also have "\<dots> \<longleftrightarrow> valid_key k \<and> trim v = sf_quote k \<and> printable k"
      unfolding parseSFString_iff valid_key_def using printable_not_ctl by blast
    finally show ?thesis using True Cons by auto
  next
    case False
    then have "ParseKey v = Inr k \<longleftrightarrow> trim v = k \<and> valid_key k"
      using Cons by (auto simp: ParseKey_def valid_key_def find_None_iff split: option.splits)
        (metis find_None_iff option.distinct(1) option.exhaust)+
    then show ?thesis using False Cons by (auto simp: sf_quote_def)
  qed
qed

lemma trim_ends: "trim v \<noteq> [] \<Longrightarrow> \<not> is_ows (hd (trim v)) \<and> \<not> is_ows (last (trim v))"
proof -
  let ?d = "dropWhile is_ows v"
  assume ne: "trim v \<noteq> []"
  then have d: "dropWhile is_ows (rev ?d) \<noteq> []" by (simp add: trim_def)
  have "last (trim v) = hd (dropWhile is_ows (rev ?d))" using d by (simp add: trim_def last_rev)
  then have l: "\<not> is_ows (last (trim v))" using hd_dropWhile [OF d] by simp
  obtain xs where "rev ?d = xs @ dropWhile is_ows (rev ?d)" by (metis takeWhile_dropWhile_id)
  then have "?d = trim v @ rev xs" by (metis rev_append rev_rev_ident trim_def)
  then have "hd (trim v) = hd ?d" "?d \<noteq> []" using ne by auto
  with l hd_dropWhile [of is_ows v] show ?thesis by simp
qed

subsection \<open>Properties\<close>

text \<open>
  (C33) The keys the header parser accepts, exactly: there is one \<^verbatim>\<open>Idempotency-Key\<close> value, and with the
  blanks at its ends trimmed it is either the key itself, not beginning with a quote, or the RFC
  8941 string of the key, which is then printable ASCII; the key has 1 to 255 bytes and no control
  character. No value is a missing key, everything else an invalid one.
\<close>

theorem accepted_keys_valid:
  "(KeyFromHeader h = Inr k \<longleftrightarrow> (\<exists>v. hdr_Values h HeaderIdempotencyKey = [v] \<and> valid_key k \<and>
     (trim v = k \<and> hd k \<noteq> CHR 0x22 \<or> trim v = sf_quote k \<and> printable k))) \<and>
   (KeyFromHeader h = Inl e \<longrightarrow> errors_Is e ErrKeyMissing = (hdr_Values h HeaderIdempotencyKey = []) \<and>
     errors_Is e ErrKeyInvalid = (hdr_Values h HeaderIdempotencyKey \<noteq> []))"
proof (intro conjI impI)
  show "KeyFromHeader h = Inr k \<longleftrightarrow> (\<exists>v. hdr_Values h HeaderIdempotencyKey = [v] \<and> valid_key k \<and>
      (trim v = k \<and> hd k \<noteq> CHR 0x22 \<or> trim v = sf_quote k \<and> printable k))"
    by (auto simp: KeyFromHeader_def ParseKey_iff split: list.splits)
qed (auto simp: KeyFromHeader_def ParseKey_error ParseKey_not_missing split: list.splits)

theorem accepted_keys_valid_witness:
  "KeyFromHeader [(''Idempotency-Key'', ['' k1 ''])] = Inr ''k1'' \<and>
   (\<exists>e. KeyFromHeader [] = Inl e \<and> errors_Is e ErrKeyMissing)"
proof -
  have v: "hdr_Values [(''Idempotency-Key'', ['' k1 ''])] HeaderIdempotencyKey = ['' k1 '']" "trim '' k1 '' = ''k1''" "valid_key ''k1''"
    by code_simp+
  obtain e where e: "KeyFromHeader [] = Inl e" "hdr_Values [] HeaderIdempotencyKey = []"
    by (auto simp: KeyFromHeader_def hdr_Values_def)
  show ?thesis
    using accepted_keys_valid [of "[(''Idempotency-Key'', ['' k1 ''])]" "''k1''"] v accepted_keys_valid [of "[]" _ e] e by auto
qed

text \<open>
  (C34) Which keys a client can send: a valid key can be sent as it is, with optional blanks around it,
  unless it begins with a quote or has a blank at an end; a valid key of printable ASCII can be sent
  as an RFC 8941 string; both forms parse to the key itself, and no other key can be sent at all.
\<close>

theorem keys_can_be_sent:
  "((\<exists>v. ParseKey v = Inr k) \<longleftrightarrow> valid_key k \<and>
     (hd k \<noteq> CHR 0x22 \<and> \<not> is_ows (hd k) \<and> \<not> is_ows (last k) \<or> printable k)) \<and>
   (valid_key k \<and> hd k \<noteq> CHR 0x22 \<and> \<not> is_ows (hd k) \<and> \<not> is_ows (last k) \<and> list_all is_ows pre \<and> list_all is_ows post \<longrightarrow>
      ParseKey (pre @ k @ post) = Inr k) \<and>
   (valid_key k \<and> printable k \<longrightarrow> ParseKey (sf_quote k) = Inr k)"
proof -
  have raw: "ParseKey (pre @ k @ post) = Inr k" if "valid_key k" "hd k \<noteq> CHR 0x22" "\<not> is_ows (hd k)" "\<not> is_ows (last k)"
      "list_all is_ows pre" "list_all is_ows post" for pre post
    using ParseKey_raw [OF that(1-4)] that(5,6) by (simp add: list_all_iff)
  have quoted: "ParseKey (sf_quote k) = Inr k" if "valid_key k" "printable k"
    using that by (intro ParseKey_quoted) (simp_all add: valid_key_def printable_def list_all_iff)
  have "valid_key k \<and> (hd k \<noteq> CHR 0x22 \<and> \<not> is_ows (hd k) \<and> \<not> is_ows (last k) \<or> printable k)" if "ParseKey v = Inr k" for v
    using that trim_ends [of v] by (cases "trim v = []") (auto simp: ParseKey_iff valid_key_def)
  then show ?thesis using raw raw [of "[]" "[]"] quoted by auto
qed

theorem keys_can_be_sent_witness:
  "ParseKey '' k1 '' = Inr ''k1'' \<and> ParseKey (sf_quote ''k1'') = Inr ''k1'' \<and>
   valid_key [CHR 0x22, CHR 0xC3, CHR 0xA9] \<and> (\<nexists>v. ParseKey v = Inr [CHR 0x22, CHR 0xC3, CHR 0xA9])"
proof -
  have v: "valid_key ''k1''" "printable ''k1''" "valid_key [CHR 0x22, CHR 0xC3, CHR 0xA9]" "\<not> printable [CHR 0x22, CHR 0xC3, CHR 0xA9]"
    by code_simp+
  show ?thesis
    using keys_can_be_sent [of "''k1''" "'' ''" "'' ''"] keys_can_be_sent [of "[CHR 0x22, CHR 0xC3, CHR 0xA9]"] v
    by (simp add: is_ows_def)
qed

text \<open>
  (C35) Keys of different scopes never share a store key: the store key determines the scope and
  the client's key.
\<close>

theorem scopes_do_not_collide:
  assumes "KeyFromHeader h = Inr k" "KeyFromHeader h' = Inr k'" "scoped_key sc k = scoped_key sc' k'"
  shows "sc = sc' \<and> k = k'"
  using assms by (rule hk.scoped_inject)

theorem scopes_do_not_collide_witness: "scoped_key ''tenant1'' ''k1'' \<noteq> scoped_key ''tenant2'' ''k1''"
proof
  assume eq: "scoped_key ''tenant1'' ''k1'' = scoped_key ''tenant2'' ''k1''"
  have k: "KeyFromHeader [(''Idempotency-Key'', [''k1''])] = Inr ''k1''" by code_simp
  from scopes_do_not_collide [OF k k eq] show False by simp
qed

end
