(* ===== verification/Fingerprint_Calc.thy ===== *)
theory Fingerprint_Calc
  imports Http_Base
begin

section \<open>The request fingerprint\<close>

text \<open>
  \<^verbatim>\<open>httpidem/fingerprint.go\<close>. The hash function is the argument \<open>sha256\<close>: what is proved
  holds for every function from bytes to bytes, and where different requests must get different
  fingerprints the claim is about the bytes that are hashed (two requests that collide
  exhibit a collision of the hash function).
\<close>

definition fingerprint_input :: "string \<Rightarrow> URL \<Rightarrow> bytes \<Rightarrow> bytes" where
  "fingerprint_input meth u body =
     ToUpper meth @ [CHR 0x0A] @ EscapedPath u @ ''?'' @ RawQuery u @ [CHR 0x0A] @ body"

definition Fingerprint_of :: "(bytes \<Rightarrow> bytes) \<Rightarrow> string \<Rightarrow> URL \<Rightarrow> bytes \<Rightarrow> bytes" where
  "Fingerprint_of sha256 meth u body = sha256 (fingerprint_input meth u body)"

text \<open>
  What \<^verbatim>\<open>net/http\<close> and \<^verbatim>\<open>net/url\<close> guarantee of a parsed request line: no newline in any part,
  and an escaped path holds no question mark.
\<close>

definition wf_target :: "string \<Rightarrow> URL \<Rightarrow> bool" where
  "wf_target meth u \<longleftrightarrow> CHR 0x0A \<notin> set meth \<and> CHR ''?'' \<notin> set (EscapedPath u) \<and>
     CHR 0x0A \<notin> set (EscapedPath u) \<and> CHR 0x0A \<notin> set (RawQuery u)"

lemma fingerprint_input_inject:
  assumes wf: "wf_target m u" "wf_target m' u'"
    and eq: "fingerprint_input m u b = fingerprint_input m' u' b'"
  shows "ToUpper m = ToUpper m' \<and> EscapedPath u = EscapedPath u' \<and> RawQuery u = RawQuery u' \<and> b = b'"
proof -
  have first: "ToUpper m = ToUpper m' \<and>
      EscapedPath u @ CHR ''?'' # (RawQuery u @ CHR 0x0A # b) = EscapedPath u' @ CHR ''?'' # (RawQuery u' @ CHR 0x0A # b')"
    by (rule sep_first_inject [where z = "CHR 0x0A"])
      (use eq wf in \<open>simp_all add: fingerprint_input_def wf_target_def newline_notin_ToUpper\<close>)
  have second: "EscapedPath u = EscapedPath u' \<and> RawQuery u @ CHR 0x0A # b = RawQuery u' @ CHR 0x0A # b'"
    by (rule sep_first_inject [where z = "CHR ''?''"]) (use first wf in \<open>simp_all add: wf_target_def\<close>)
  have "RawQuery u = RawQuery u' \<and> b = b'"
    by (rule sep_first_inject [where z = "CHR 0x0A"]) (use second wf in \<open>simp_all add: wf_target_def\<close>)
  then show ?thesis using first second by blast
qed

lemma Fingerprint_collision:
  assumes "wf_target m u" "wf_target m' u'" "Fingerprint_of sha256 m u b = Fingerprint_of sha256 m' u' b'"
    and "(ToUpper m, EscapedPath u, RawQuery u, b) \<noteq> (ToUpper m', EscapedPath u', RawQuery u', b')"
  shows "\<exists>x y. x \<noteq> y \<and> sha256 x = sha256 y"
  using assms fingerprint_input_inject [OF assms(1,2), of b b'] by (auto simp: Fingerprint_of_def)

subsection \<open>Properties\<close>

text \<open>
  (C36) Two requests with different method (up to case), path, query or body hash different
  bytes; so equal fingerprints of different requests exhibit a collision of the hash function.
\<close>

theorem fingerprint_separates:
  assumes "wf_target m u" "wf_target m' u'"
    and "(ToUpper m, EscapedPath u, RawQuery u, b) \<noteq> (ToUpper m', EscapedPath u', RawQuery u', b')"
  shows "fingerprint_input m u b \<noteq> fingerprint_input m' u' b' \<and>
    (Fingerprint_of sha256 m u b = Fingerprint_of sha256 m' u' b' \<longrightarrow> (\<exists>x y. x \<noteq> y \<and> sha256 x = sha256 y))"
  using fingerprint_input_inject [OF assms(1,2), of b b'] Fingerprint_collision [OF assms(1,2) _ assms(3), of sha256]
    assms(3) by auto

theorem fingerprint_separates_witness:
  "fingerprint_input ''POST'' \<lparr>EscapedPath = ''/a'', RawQuery = []\<rparr> ''x'' \<noteq>
   fingerprint_input ''post'' \<lparr>EscapedPath = ''/a'', RawQuery = ''q''\<rparr> ''x''"
  using fingerprint_separates [of "''POST''" "\<lparr>EscapedPath = ''/a'', RawQuery = []\<rparr>" "''post''"
      "\<lparr>EscapedPath = ''/a'', RawQuery = ''q''\<rparr>" "''x''" "''x''" "\<lambda>x. x"]
  by (simp add: wf_target_def)

end
