(* ===== verification/Middleware.thy ===== *)
theory Middleware
  imports Handler_Run Http_Errors Key_Grammar Fingerprint_Calc
begin

section \<open>The net/http middleware\<close>

text \<open>
  \<^verbatim>\<open>httpidem/httpidem.go\<close>: the configuration and its options, \<open>readBody\<close>, \<open>ServeHTTP\<close> with
  every branch, and the replay path. A call maps a \<open>world\<close> (the client's response writer, the
  store, the log lines, and as ghost state the list of handler invocations) to a world
  and whether it panicked. The environment of a call holds what it reads from outside: the
  token's random bytes, the environments of the \<open>Begin\<close> attempts and of the two possible
  \<open>Finish\<close> calls, and what other requests do to the store before each. The hash function is
  the argument \<open>sha256\<close>.

  \<open>ServeHTTP\<close> is cut in the places where the source has its blank lines: \<open>serve_keyed\<close> is
  everything from the fingerprint on, \<open>serve_proceed\<close> the execution under a lease, \<open>settle\<close> what
  follows a handler that returned.
\<close>

record config =
  cfg_require :: bool
  cfg_leaseTTL :: Duration
  cfg_recordTTL :: Duration
  maxRequestBody :: int
  maxResponseBody :: int
  bypassLargeBody :: bool
  policy :: "int \<Rightarrow> gerror option \<Rightarrow> Decision"
  errorWriter :: ErrorWriter
  failOpen :: bool
  methods :: "string \<Rightarrow> bool"
  storeHeaders :: "string list"
  keyScope :: "(Request \<Rightarrow> string) option"
  keyValidator :: "(string \<Rightarrow> bool) option"
  hashKeysInLogs :: bool
  replayedHeader :: bool

definition DefaultMaxRequestBody :: int where
  "DefaultMaxRequestBody = 1048576"

definition DefaultMaxResponseBody :: int where
  "DefaultMaxResponseBody = 1048576"

definition maxStoredResponseOverhead :: int where
  "maxStoredResponseOverhead = 65536"

type_synonym Option = "config \<Rightarrow> config"

definition opt_Require :: "bool \<Rightarrow> Option" where
  "opt_Require v c = c\<lparr>cfg_require := v\<rparr>"

definition opt_LeaseTTL :: "Duration \<Rightarrow> Option" where
  "opt_LeaseTTL d c = c\<lparr>cfg_leaseTTL := d\<rparr>"

definition opt_RecordTTL :: "Duration \<Rightarrow> Option" where
  "opt_RecordTTL d c = c\<lparr>cfg_recordTTL := d\<rparr>"

definition opt_MaxRequestBody :: "int \<Rightarrow> Option" where
  "opt_MaxRequestBody n c = c\<lparr>maxRequestBody := n\<rparr>"

definition opt_MaxResponseBody :: "int \<Rightarrow> Option" where
  "opt_MaxResponseBody n c = c\<lparr>maxResponseBody := n\<rparr>"

definition opt_BypassLargeBody :: "bool \<Rightarrow> Option" where
  "opt_BypassLargeBody v c = c\<lparr>bypassLargeBody := v\<rparr>"

definition opt_Policy :: "(int \<Rightarrow> gerror option \<Rightarrow> Decision) \<Rightarrow> Option" where
  "opt_Policy p c = c\<lparr>policy := p\<rparr>"

definition opt_Errors :: "ErrorWriter \<Rightarrow> Option" where
  "opt_Errors ew c = c\<lparr>errorWriter := ew\<rparr>"

definition opt_FailOpen :: "bool \<Rightarrow> Option" where
  "opt_FailOpen v c = c\<lparr>failOpen := v\<rparr>"

definition opt_Methods :: "string list \<Rightarrow> Option" where
  "opt_Methods ms c = c\<lparr>methods := foldl (\<lambda>f m. f(ToUpper m := True)) (\<lambda>_. False) ms\<rparr>"

definition opt_StoreHeaders :: "string list \<Rightarrow> Option" where
  "opt_StoreHeaders names c = c\<lparr>storeHeaders := names\<rparr>"

definition opt_KeyScope :: "(Request \<Rightarrow> string) \<Rightarrow> Option" where
  "opt_KeyScope fn c = c\<lparr>keyScope := Some fn\<rparr>"

definition opt_KeyValidator :: "(string \<Rightarrow> bool) \<Rightarrow> Option" where
  "opt_KeyValidator fn c = c\<lparr>keyValidator := Some fn\<rparr>"

definition opt_HashKeysInLogs :: "bool \<Rightarrow> Option" where
  "opt_HashKeysInLogs v c = c\<lparr>hashKeysInLogs := v\<rparr>"

definition opt_ReplayedHeader :: "bool \<Rightarrow> Option" where
  "opt_ReplayedHeader v c = c\<lparr>replayedHeader := v\<rparr>"

definition default_config :: config where
  "default_config = \<lparr>cfg_require = False, cfg_leaseTTL = 0, cfg_recordTTL = 0,
     maxRequestBody = DefaultMaxRequestBody, maxResponseBody = DefaultMaxResponseBody,
     bypassLargeBody = False, policy = defaultDecide, errorWriter = problemWriter, failOpen = False,
     methods = (\<lambda>_. False)(''POST'' := True, ''PATCH'' := True),
     storeHeaders = [''Content-Type'', ''Content-Language'', ''Content-Encoding'', ''Content-Disposition'', ''Location''],
     keyScope = None, keyValidator = None, hashKeysInLogs = False, replayedHeader = True\<rparr>"

text \<open>\<^verbatim>\<open>New\<close>: the options applied in order to the default configuration.\<close>

definition New :: "Option list \<Rightarrow> config" where
  "New opts = foldl (\<lambda>c opt. opt c) default_config opts"

subsection \<open>Worlds\<close>

record logline =
  lg_level :: string
  lg_msg :: string
  lg_attrs :: "(string \<times> string) list"

record 's world =
  wd_w :: rw
  wd_store :: 's
  wd_log :: "logline list"
  wd_calls :: "(Request \<times> ctx) list"

record ('s, 'e) call_env =
  ce_rnd :: "gerror + bytes"
  ce_begin :: "nat \<Rightarrow> ('s, 'e) attempt_env"
  ce_before_finish :: "'s \<Rightarrow> 's"
  ce_finish :: 'e
  ce_before_release :: "'s \<Rightarrow> 's"
  ce_release :: 'e

type_synonym 's handler = "Request \<Rightarrow> ctx \<Rightarrow> 's prog"

definition warn :: "string \<Rightarrow> (string \<times> string) list \<Rightarrow> 's world \<Rightarrow> 's world" where
  "warn msg attrs wd = wd\<lparr>wd_log := wd_log wd @ [\<lparr>lg_level = ''WARN'', lg_msg = msg, lg_attrs = attrs\<rparr>]\<rparr>"

definition log_error :: "string \<Rightarrow> (string \<times> string) list \<Rightarrow> 's world \<Rightarrow> 's world" where
  "log_error msg attrs wd = wd\<lparr>wd_log := wd_log wd @ [\<lparr>lg_level = ''ERROR'', lg_msg = msg, lg_attrs = attrs\<rparr>]\<rparr>"

definition error_attr :: "gerror \<Rightarrow> (string \<times> string) list" where
  "error_attr e = [(''error'', Error e)]"

text \<open>\<^verbatim>\<open>m.next.ServeHTTP(w, r)\<close>: the handler on the client's own writer.\<close>

definition next_ServeHTTP :: "'s handler \<Rightarrow> Request \<Rightarrow> ctx \<Rightarrow> 's world \<Rightarrow> bool \<times> 's world" where
  "next_ServeHTTP h r c wd =
     (let (p, st) = run_raw (h r c) \<lparr>pl_w = wd_w wd, pl_ctx = c, pl_store = wd_store wd\<rparr>
      in (p, wd\<lparr>wd_w := pl_w st, wd_store := pl_store st, wd_calls := wd_calls wd @ [(r, c)]\<rparr>))"

definition WriteError :: "config \<Rightarrow> Request \<Rightarrow> int \<Rightarrow> gerror \<Rightarrow> 's world \<Rightarrow> bool \<times> 's world" where
  "WriteError cfg r status err wd =
     (let (p, w') = errorWriter cfg r status err (wd_w wd) in (p, wd\<lparr>wd_w := w'\<rparr>))"

subsection \<open>Helpers of the middleware\<close>

definition hashForLog :: "(bytes \<Rightarrow> bytes) \<Rightarrow> string \<Rightarrow> string" where
  "hashForLog sha256 s = ''sha256:'' @ EncodeToString (take 8 (sha256 s))"

definition keyAttrs :: "(bytes \<Rightarrow> bytes) \<Rightarrow> config \<Rightarrow> string \<Rightarrow> string \<Rightarrow> (string \<times> string) list" where
  "keyAttrs sha256 cfg scope key =
     (let key' = (if hashKeysInLogs cfg then hashForLog sha256 key else key);
          scope' = (if hashKeysInLogs cfg \<and> scope \<noteq> [] then hashForLog sha256 scope else scope)
      in [(''idempotency_key'', key')] @ (if scope' \<noteq> [] then [(''idempotency_scope'', scope')] else []))"

text \<open>
  \<open>readBody\<close> returns what the source returns, and the part of the body left unread. The limit
  \<^verbatim>\<open>max+1\<close> is computed in \<^verbatim>\<open>int64\<close>; \<^verbatim>\<open>io.LimitReader\<close> with a limit of 0 or less is at its end.
\<close>

definition ReadAll_limited :: "Body \<Rightarrow> int \<Rightarrow> gerror + bytes" where
  "ReadAll_limited b n =
     (if n \<le> int (length (body_bytes b)) then Inr (take (nat n) (body_bytes b))
      else case body_err b of Some e \<Rightarrow> Inl e | None \<Rightarrow> Inr (body_bytes b))"

definition readBody :: "Request \<Rightarrow> int \<Rightarrow> gerror + bytes \<times> bool" where
  "readBody r limit = (case ReqBody r of
       None \<Rightarrow> Inr ([], False)
     | Some b \<Rightarrow> (case ReadAll_limited b (wrap64 (limit + 1)) of
           Inl e \<Rightarrow> Inl e
         | Inr body \<Rightarrow> if int (length body) > limit then Inr (body, True) else Inr (body, False)))"

text \<open>The bypass path hands the prefix and the unread rest to the handler, joined.\<close>

definition rejoin :: "Request \<Rightarrow> bytes \<Rightarrow> Request" where
  "rejoin r body = (case ReqBody r of
       None \<Rightarrow> r
     | Some b \<Rightarrow> r\<lparr>ReqBody := Some \<lparr>body_bytes = body @ drop (length body) (body_bytes b), body_err = body_err b\<rparr>\<rparr>)"

definition rebuffer :: "Request \<Rightarrow> bytes \<Rightarrow> Request" where
  "rebuffer r body = r\<lparr>ReqBody := Some \<lparr>body_bytes = body, body_err = None\<rparr>, ContentLength := int (length body)\<rparr>"

definition retryAfterSeconds :: "Duration \<Rightarrow> string" where
  "retryAfterSeconds d =
     (let secs = quot (wrap64 (wrap64 (d + Second) - 1)) Second;
          secs = (if secs < 1 then 1 else secs)
      in FormatInt secs)"

definition scope_of :: "config \<Rightarrow> Request \<Rightarrow> string" where
  "scope_of cfg r = (case keyScope cfg of None \<Rightarrow> [] | Some f \<Rightarrow> f r)"

definition writeReplay :: "(bytes \<Rightarrow> bytes) \<Rightarrow> config \<Rightarrow> Request \<Rightarrow> string \<Rightarrow> string \<Rightarrow> bytes \<Rightarrow> 's world \<Rightarrow> bool \<times> 's world" where
  "writeReplay sha256 cfg r scope key payload wd =
     (if int (length payload) > wrap64 (maxResponseBody cfg + maxStoredResponseOverhead) then
        WriteError cfg r 500 corrupt
          (log_error ''httpidem: stored payload exceeds the configured response limits; refusing to replay''
            (keyAttrs sha256 cfg scope key @ [(''payload_bytes'', FormatInt (int (length payload)))]) wd)
      else case UnmarshalBinary payload of
          Inl err \<Rightarrow> WriteError cfg r 500 err
            (log_error ''httpidem: stored response payload is corrupted''
              (keyAttrs sha256 cfg scope key @ error_attr err) wd)
        | Inr sr \<Rightarrow>
            (let w1 = (if replayedHeader cfg
                       then (wd_w wd)\<lparr>rw_header := hdr_Set (rw_header (wd_w wd)) HeaderIdempotencyReplayed ''true''\<rparr>
                       else wd_w wd);
                 (rep, w2) = WriteStored sr w1
             in (rep = Panicked, wd\<lparr>wd_w := w2\<rparr>)))"

subsection \<open>After the handler\<close>

definition store_do :: "('s \<Rightarrow> 'r \<times> 's) \<Rightarrow> 's world \<Rightarrow> 'r \<times> 's world" where
  "store_do f wd = (let (x, s') = f (wd_store wd) in (x, wd\<lparr>wd_store := s'\<rparr>))"

text \<open>The decision of the policy, overruled when the response cannot be stored.\<close>

definition final_decision :: "config \<Rightarrow> (string \<times> string) list \<Rightarrow> Recorder \<Rightarrow> gerror option \<Rightarrow> 's world \<Rightarrow>
    Decision \<times> 's world" where
  "final_decision cfg attrs rec herr wd =
     (let decision = policy cfg (Status rec) herr in
      if decision = Persist \<and> abandoned rec then
        (Discard, warn ''httpidem: response was streamed (Flush/Hijack); discarding instead of persisting'' attrs wd)
      else if decision = Persist \<and> overflowed rec then
        (Discard, warn ''httpidem: response exceeds MaxResponseBody; discarding instead of persisting'' attrs wd)
      else (decision, wd))"

definition settle :: "('s, 'e) Store \<Rightarrow> config \<Rightarrow> ('s, 'e) call_env \<Rightarrow> (string \<times> string) list \<Rightarrow> string \<Rightarrow> string \<Rightarrow>
    Options \<Rightarrow> Recorder \<Rightarrow> gerror option \<Rightarrow> 's world \<Rightarrow> 's world" where
  "settle S cfg env attrs storeKey token o' rec herr wd =
     (let (decision, wd1) = final_decision cfg attrs rec herr wd;
          payload = (if decision = Persist then MarshalBinary (fst (StoredResponse_of rec)) else []);
          ((leaseLost, err), wd2) = store_do (\<lambda>s. Finish S (ce_finish env) storeKey token decision payload o'
              (ce_before_finish env s)) wd1
      in case err of
           Some e \<Rightarrow>
             if decision = Persist then
               (let wd3 = warn ''httpidem: persisting response failed; idempotency temporarily weakened''
                      (attrs @ error_attr e) wd2;
                    ((_, rerr), wd4) = store_do (\<lambda>s. Finish S (ce_release env) storeKey token Discard [] o'
                      (ce_before_release env s)) wd3
                in case rerr of
                     Some re \<Rightarrow> warn ''httpidem: best-effort release failed; key stays reserved until lease expiry''
                         (attrs @ error_attr re) wd4
                   | None \<Rightarrow> wd4)
             else warn ''httpidem: releasing reservation failed; key stays reserved until lease expiry''
                 (attrs @ error_attr e) wd2
         | None \<Rightarrow>
             if leaseLost then warn ''httpidem: lease lost during execution; response returned but not stored for replay''
                 (attrs @ [(''event'', ''lease_lost'')]) wd2
             else wd2)"

text \<open>The deferred function, when the handler panicked: discard, and let the panic go on.\<close>

definition on_panic :: "('s, 'e) Store \<Rightarrow> ('s, 'e) call_env \<Rightarrow> (string \<times> string) list \<Rightarrow> string \<Rightarrow> string \<Rightarrow>
    Options \<Rightarrow> ctx \<Rightarrow> 's world \<Rightarrow> 's world" where
  "on_panic S env attrs storeKey token o' c wd =
     (if finished c then wd
      else let ((_, ferr), wd1) = store_do (\<lambda>s. Finish S (ce_finish env) storeKey token Discard [] o'
              (ce_before_finish env s)) wd
        in case ferr of
             Some e \<Rightarrow> warn ''httpidem: releasing reservation after handler panic failed'' (attrs @ error_attr e) wd1
           | None \<Rightarrow> wd1)"

subsection \<open>ServeHTTP\<close>

definition lease_ctx :: "string \<Rightarrow> string \<Rightarrow> Options \<Rightarrow> ctx \<Rightarrow> ctx" where
  "lease_ctx storeKey token o' c =
     FinishChannel (ContextWithReservation \<lparr>rsv_Key = storeKey, rsv_Token = token, rsv_Options = Effective o'\<rparr>
       (ErrorChannel c))"

text \<open>\<^verbatim>\<open>m.next.ServeHTTP(cw, r.WithContext(ctx))\<close> with a fresh recorder.\<close>

definition run_under_lease :: "config \<Rightarrow> 's handler \<Rightarrow> Request \<Rightarrow> ctx \<Rightarrow> rw \<Rightarrow> 's \<Rightarrow> bool \<times> 's capture" where
  "run_under_lease cfg h r c w s =
     run_cap (h r c) \<lparr>cp_cw = \<lparr>cw_w = w, cw_rec = NewRecorder (maxResponseBody cfg) (storeHeaders cfg),
                                wroteHeader = False\<rparr>, cp_ctx = c, cp_store = s\<rparr>"

definition serve_proceed :: "('s, 'e) Store \<Rightarrow> config \<Rightarrow> 's handler \<Rightarrow> ('s, 'e) call_env \<Rightarrow> (string \<times> string) list \<Rightarrow>
    string \<Rightarrow> string \<Rightarrow> Options \<Rightarrow> Request \<Rightarrow> ctx \<Rightarrow> 's world \<Rightarrow> bool \<times> 's world" where
  "serve_proceed S cfg h env attrs storeKey token o' r c wd =
     (let c1 = lease_ctx storeKey token o' c;
          (p, st) = run_under_lease cfg h r c1 (wd_w wd) (wd_store wd);
          wd1 = wd\<lparr>wd_w := cw_w (cp_cw st), wd_store := cp_store st, wd_calls := wd_calls wd @ [(r, c1)]\<rparr>
      in if p then (True, on_panic S env attrs storeKey token o' (cp_ctx st) wd1)
         else let cw1 = cw_finalize (cp_cw st) in
           if finished (cp_ctx st) then (False, wd1)
           else (False, settle S cfg env attrs storeKey token o' (cw_rec cw1) (handlerErr (cp_ctx st)) wd1))"

definition lease_options :: "config \<Rightarrow> Options" where
  "lease_options cfg = \<lparr>LeaseTTL = cfg_leaseTTL cfg, RecordTTL = cfg_recordTTL cfg\<rparr>"

definition serve_keyed :: "(bytes \<Rightarrow> bytes) \<Rightarrow> ('s, 'e) Store \<Rightarrow> config \<Rightarrow> 's handler \<Rightarrow> ('s, 'e) call_env \<Rightarrow>
    string \<Rightarrow> bytes \<Rightarrow> Request \<Rightarrow> ctx \<Rightarrow> 's world \<Rightarrow> bool \<times> 's world" where
  "serve_keyed sha256 S cfg h env key body r c wd =
     (let fingerprint = Fingerprint_of sha256 (Method r) (ReqURL r) body;
          scope = scope_of cfg r;
          storeKey = scoped_key scope key;
          attrs = keyAttrs sha256 cfg scope key;
          o' = lease_options cfg;
          (res, wd1) = store_do (Begin S (ce_rnd env) (ce_begin env) storeKey fingerprint o') wd
      in case res of
           Inl err \<Rightarrow>
             if failOpen cfg then
               next_ServeHTTP h r c (warn ''httpidem: store unavailable; proceeding without idempotency (FailOpen)''
                 (attrs @ error_attr err) wd1)
             else WriteError cfg r 503
               (Wrap (sentinel_text ErrStoreUnavailable @ '': '' @ Error err) [Sentinel ErrStoreUnavailable, err]) wd1
         | Inr out \<Rightarrow>
             (case Action out of
                Replay \<Rightarrow> writeReplay sha256 cfg r scope key (OutPayload out) wd1
              | RejectInFlight \<Rightarrow>
                  WriteError cfg r 409 (Sentinel ErrInFlight)
                    (wd1\<lparr>wd_w := (wd_w wd1)\<lparr>rw_header :=
                       hdr_Set (rw_header (wd_w wd1)) ''Retry-After'' (retryAfterSeconds (RetryAfter out))\<rparr>\<rparr>)
              | RejectFingerprintMismatch \<Rightarrow> WriteError cfg r 422 (Sentinel ErrFingerprintMismatch) wd1
              | Proceed \<Rightarrow> serve_proceed S cfg h env attrs storeKey (OutToken out) o' r c wd1))"

definition ServeHTTP :: "(bytes \<Rightarrow> bytes) \<Rightarrow> ('s, 'e) Store \<Rightarrow> config \<Rightarrow> 's handler \<Rightarrow> ('s, 'e) call_env \<Rightarrow>
    Request \<Rightarrow> ctx \<Rightarrow> 's world \<Rightarrow> bool \<times> 's world" where
  "ServeHTTP sha256 S cfg h env r c wd =
     (if \<not> methods cfg (ToUpper (Method r)) then next_ServeHTTP h r c wd
      else case KeyFromHeader (ReqHeader r) of
          Inl err \<Rightarrow>
            if errors_Is err ErrKeyMissing \<and> \<not> cfg_require cfg then next_ServeHTTP h r c wd
            else WriteError cfg r 400 err wd
        | Inr key \<Rightarrow>
            if (case keyValidator cfg of None \<Rightarrow> False | Some f \<Rightarrow> \<not> f key) then
              WriteError cfg r 400 (wrap_before (Sentinel ErrKeyInvalid) '': rejected by KeyValidator'') wd
            else (case readBody r (maxRequestBody cfg) of
                Inl err \<Rightarrow> WriteError cfg r 400 (wrap_after ''httpidem: reading request body: '' err) wd
              | Inr (body, overflow) \<Rightarrow>
                  if overflow then
                    if \<not> bypassLargeBody cfg then WriteError cfg r 413 (Sentinel ErrRequestBodyTooLarge) wd
                    else next_ServeHTTP h (rejoin r body) c
                      (warn ''httpidem: request body exceeds MaxRequestBody; bypassing idempotency''
                        (keyAttrs sha256 cfg [] key) wd)
                  else serve_keyed sha256 S cfg h env key body (rebuffer r body) c wd))"

subsection \<open>Through the checks before the lease\<close>

text \<open>A request that reaches \<open>Begin\<close>: its key and its complete body.\<close>

definition accepted :: "config \<Rightarrow> Request \<Rightarrow> string \<Rightarrow> bytes \<Rightarrow> bool" where
  "accepted cfg r key body \<longleftrightarrow> methods cfg (ToUpper (Method r)) \<and> KeyFromHeader (ReqHeader r) = Inr key \<and>
     (case keyValidator cfg of None \<Rightarrow> True | Some f \<Rightarrow> f key) \<and>
     readBody r (maxRequestBody cfg) = Inr (body, False)"

lemma ServeHTTP_accepted:
  "accepted cfg r key body \<Longrightarrow>
     ServeHTTP sha256 S cfg h env r c wd = serve_keyed sha256 S cfg h env key body (rebuffer r body) c wd"
  by (simp add: accepted_def ServeHTTP_def split: option.splits)

lemma rebuffer_sel [simp]:
  "Method (rebuffer r b) = Method r" "ReqURL (rebuffer r b) = ReqURL r" "ReqHeader (rebuffer r b) = ReqHeader r"
  "ReqBody (rebuffer r b) = Some \<lparr>body_bytes = b, body_err = None\<rparr>"
  by (simp_all add: rebuffer_def)

text \<open>What a request accepted under a limit below the largest \<^verbatim>\<open>int64\<close> has read is all of its body.\<close>

lemma readBody_complete:
  assumes "readBody r limit = Inr (body, False)" "0 \<le> limit" "limit < 2 ^ 63 - 1"
  shows "body = (case ReqBody r of None \<Rightarrow> [] | Some b \<Rightarrow> body_bytes b) \<and>
    (case ReqBody r of None \<Rightarrow> True | Some b \<Rightarrow> body_err b = None) \<and> int (length body) \<le> limit"
proof (cases "ReqBody r")
  case None
  with assms show ?thesis by (simp add: readBody_def)
next
  case (Some b)
  have w: "wrap64 (limit + 1) = limit + 1" using assms(2,3) by (intro wrap64_id) (simp add: in_int64_def)
  show ?thesis
    using assms(1,2) Some w by (auto simp: readBody_def ReadAll_limited_def split: if_splits option.splits)
qed

text \<open>The large-body bypass loses nothing: the handler reads the body the client sent.\<close>

lemma readBody_rejoin:
  assumes "readBody r limit = Inr (body, overflow)"
  shows "rejoin r body = r"
proof (cases "ReqBody r")
  case (Some b)
  with assms have "body @ drop (length body) (body_bytes b) = body_bytes b"
    by (auto simp: readBody_def ReadAll_limited_def split: if_splits option.splits sum.splits)
  with Some show ?thesis by (simp add: rejoin_def)
qed (simp add: rejoin_def)

subsection \<open>Retry-After\<close>

lemma retryAfterSeconds_ceiling:
  assumes "0 < d" "d \<le> 2 ^ 63 - 1 - Second"
  shows "retryAfterSeconds d = FormatInt ((d + Second - 1) div Second)"
proof -
  have b: "in_int64 (d + Second)" "in_int64 (d + Second - 1)"
    using assms by (simp_all add: in_int64_def Second_def)
  have q: "quot (d + Second - 1) Second = (d + Second - 1) div Second"
    using assms(1) by (simp add: quot_nonneg Second_def)
  have "1 \<le> (d + Second - 1) div Second"
    using assms(1) by (simp add: Second_def)
  then show ?thesis using b q by (simp add: retryAfterSeconds_def Let_def)
qed

subsection \<open>Properties\<close>

text \<open>What a request carries, and that a handler was given the whole of it.\<close>

definition sent_bytes :: "Request \<Rightarrow> bytes" where
  "sent_bytes r = (case ReqBody r of None \<Rightarrow> [] | Some b \<Rightarrow> body_bytes b)"

definition same_request :: "Request \<Rightarrow> Request \<Rightarrow> bool" where
  "same_request r r' \<longleftrightarrow> Method r' = Method r \<and> ReqURL r' = ReqURL r \<and> ReqHeader r' = ReqHeader r \<and> sent_bytes r' = sent_bytes r"

lemma store_do_keeps: "wd_w (snd (store_do f wd)) = wd_w wd" "wd_calls (snd (store_do f wd)) = wd_calls wd"
  by (simp_all add: store_do_def split_beta)

lemma warn_keeps: "wd_w (warn m attrs wd) = wd_w wd" "wd_calls (warn m attrs wd) = wd_calls wd"
  by (simp_all add: warn_def)

lemma final_decision_keeps:
  "wd_w (snd (final_decision cfg attrs rec herr wd)) = wd_w wd" "wd_calls (snd (final_decision cfg attrs rec herr wd)) = wd_calls wd"
  by (simp_all add: final_decision_def warn_keeps Let_def)

lemma settle_writer: "wd_w (settle S cfg env attrs k tok opts rec herr wd) = wd_w wd"
  and settle_invocations: "wd_calls (settle S cfg env attrs k tok opts rec herr wd) = wd_calls wd"
  by (simp_all add: settle_def store_do_keeps warn_keeps final_decision_keeps split_beta Let_def split: option.split)

lemma on_panic_writer: "wd_w (on_panic S env attrs k tok opts c wd) = wd_w wd"
  and on_panic_invocations: "wd_calls (on_panic S env attrs k tok opts c wd) = wd_calls wd"
  by (simp_all add: on_panic_def store_do_keeps warn_keeps split_beta Let_def split: option.split)

lemma serve_proceed_call:
  "serve_proceed S cfg h env attrs k tok o' r c wd = (p, wd') \<Longrightarrow> \<exists>c1. wd_calls wd' = wd_calls wd @ [(r, c1)]"
  by (auto simp: serve_proceed_def settle_invocations on_panic_invocations Let_def split: prod.splits if_splits)

lemma next_ServeHTTP_call: "next_ServeHTTP h r c wd = (p, wd') \<Longrightarrow> wd_calls wd' = wd_calls wd @ [(r, c)]"
  by (auto simp: next_ServeHTTP_def split: prod.splits)

lemma WriteError_call: "WriteError cfg r code e wd = (p, wd') \<Longrightarrow> wd_calls wd' = wd_calls wd"
  by (auto simp: WriteError_def split: prod.splits)

lemma writeReplay_call: "writeReplay sha256 cfg r sc key pl wd = (p, wd') \<Longrightarrow> wd_calls wd' = wd_calls wd"
  by (auto simp: writeReplay_def log_error_def Let_def dest!: WriteError_call split: prod.splits sum.splits if_splits)

text \<open>Whatever the store says, a request that reached it calls the handler at most once, with the buffered body.\<close>

lemma serve_keyed_call:
  assumes "serve_keyed sha256 S cfg h env key body r c wd = (p, wd')"
  shows "wd_calls wd' = wd_calls wd \<or> (\<exists>c1. wd_calls wd' = wd_calls wd @ [(r, c1)])"
proof -
  obtain res s1 where B: "Begin S (ce_rnd env) (ce_begin env) (scoped_key (scope_of cfg r) key)
      (Fingerprint_of sha256 (Method r) (ReqURL r) body) (lease_options cfg) (wd_store wd) = (res, s1)" by (meson surj_pair)
  show ?thesis
  proof (cases res)
    case (Inl err)
    then show ?thesis
      using assms B by (auto simp: serve_keyed_def store_do_def warn_def Let_def split: if_splits
          dest!: WriteError_call next_ServeHTTP_call)
  next
    case (Inr out)
    then show ?thesis
      using assms B by (auto simp: serve_keyed_def store_do_def Let_def split: Action.splits
          dest!: WriteError_call writeReplay_call serve_proceed_call)
  qed
qed

text \<open>
  (C38) Under every limit but the largest one, whatever the store does: a request calls its handler at
  most once, and with the method, the URL, the header and all the bytes of the body the client sent.
  The handler of a request that is subject to idempotency and was not too large reads them from a
  buffer, with no read error and the right length, and they are within the limit; the handler of any
  other request is given the request itself.
\<close>

theorem body_is_complete:
  assumes "0 \<le> maxRequestBody cfg" "maxRequestBody cfg < 2 ^ 63 - 1" "ServeHTTP sha256 S cfg h env r c wd = (p, wd')"
  shows "wd_calls wd' = wd_calls wd \<or> (\<exists>r1 c1. wd_calls wd' = wd_calls wd @ [(r1, c1)] \<and> same_request r r1 \<and>
    (if \<exists>key body. accepted cfg r key body
     then ReqBody r1 = Some \<lparr>body_bytes = sent_bytes r, body_err = None\<rparr> \<and> ContentLength r1 = int (length (sent_bytes r)) \<and>
       int (length (sent_bytes r)) \<le> maxRequestBody cfg
     else r1 = r))"
proof (cases "\<exists>key body. accepted cfg r key body")
  case True
  then obtain key body where acc: "accepted cfg r key body" by blast
  then have "readBody r (maxRequestBody cfg) = Inr (body, False)" by (simp add: accepted_def)
  from readBody_complete [OF this assms(1,2)] have b: "body = sent_bytes r" "int (length body) \<le> maxRequestBody cfg"
    unfolding sent_bytes_def by blast+
  have rebuffered: "sent_bytes (rebuffer r body) = body" "ContentLength (rebuffer r body) = int (length body)" for body
    by (simp_all add: sent_bytes_def rebuffer_def)
  from serve_keyed_call [OF assms(3) [unfolded ServeHTTP_accepted [OF acc]]] show ?thesis
    using True b by (auto simp: same_request_def rebuffered)
next
  case False
  have "wd_calls wd' = wd_calls wd \<or> wd_calls wd' = wd_calls wd @ [(r, c)]"
    using assms(3) False readBody_rejoin [of r "maxRequestBody cfg"]
    by (auto simp: ServeHTTP_def accepted_def warn_def split: if_splits sum.splits prod.splits option.splits
        dest!: WriteError_call next_ServeHTTP_call)
  then show ?thesis using False by (auto simp: same_request_def)
qed

text \<open>A payment whose lease cannot be drawn, under a configuration that fails open.\<close>

definition paid_request :: Request where
  "paid_request = \<lparr>Method = ''POST'', ReqURL = \<lparr>EscapedPath = ''/pay'', RawQuery = []\<rparr>,
     ReqHeader = [(''Idempotency-Key'', [''k1''])],
     ReqBody = Some \<lparr>body_bytes = ''four'', body_err = None\<rparr>, ContentLength = - 1\<rparr>"

definition tokenless :: "(unit, unit) call_env" where
  "tokenless = \<lparr>ce_rnd = Inl (Opaque ''entropy''), ce_begin = (\<lambda>_. \<lparr>at_between = id, at_deadline = 0, at_store = (), at_check = 0\<rparr>),
     ce_before_finish = id, ce_finish = (), ce_before_release = id, ce_release = ()\<rparr>"

definition unreachable :: "(unit, unit) Store" where
  "unreachable = \<lparr>Reserve = \<lambda>_ _ s. ((None, Some (Opaque ''down'')), s), Complete = \<lambda>_ _ _ _ _ s. (Some (Opaque ''down''), s),
     Release = \<lambda>_ _ _ s. (Some (Opaque ''down''), s), Get = \<lambda>_ _ s. ((None, Some (Opaque ''down'')), s)\<rparr>"

theorem body_is_complete_witness:
  "\<exists>r1 c1. wd_calls (snd (ServeHTTP (\<lambda>_. []) unreachable (default_config\<lparr>failOpen := True\<rparr>) (\<lambda>_ _. Done)
      tokenless paid_request background \<lparr>wd_w = new_rw None None, wd_store = (), wd_log = [], wd_calls = []\<rparr>)) = [(r1, c1)] \<and>
    ReqBody r1 = Some \<lparr>body_bytes = ''four'', body_err = None\<rparr> \<and> ContentLength r1 = 4"
proof -
  let ?cfg = "default_config\<lparr>failOpen := True\<rparr>"
  let ?wd = "\<lparr>wd_w = new_rw None None, wd_store = (), wd_log = [], wd_calls = []\<rparr> :: unit world"
  let ?run = "ServeHTTP (\<lambda>_. []) unreachable ?cfg (\<lambda>_ _. Done) tokenless paid_request background ?wd"
  have acc: "accepted ?cfg paid_request ''k1'' ''four''" by code_simp
  have one: "wd_calls (snd ?run) \<noteq> []"
    unfolding ServeHTTP_accepted [OF acc]
    by (simp add: serve_keyed_def Begin_def newToken_def tokenless_def store_do_def warn_def next_ServeHTTP_def Let_def split_beta)
  have "0 \<le> maxRequestBody ?cfg" "maxRequestBody ?cfg < 2 ^ 63 - 1" by code_simp+
  from body_is_complete [OF this, of "\<lambda>_. []" unreachable "\<lambda>_ _. Done" tokenless paid_request background ?wd "fst ?run" "snd ?run"] one
  obtain r1 c1 where 1: "wd_calls (snd ?run) = [(r1, c1)]" and
    2: "if \<exists>key body. accepted ?cfg paid_request key body
        then ReqBody r1 = Some \<lparr>body_bytes = sent_bytes paid_request, body_err = None\<rparr> \<and>
          ContentLength r1 = int (length (sent_bytes paid_request)) \<and> int (length (sent_bytes paid_request)) \<le> maxRequestBody ?cfg
        else r1 = paid_request" by auto
  have "\<exists>key body. accepted ?cfg paid_request key body" using acc by blast
  moreover have "sent_bytes paid_request = ''four''" by code_simp
  ultimately show ?thesis using 1 2 by simp
qed

text \<open>
  (C39) With the largest limit the sum \<^verbatim>\<open>max+1\<close> wraps: every body is read as empty, so requests
  that differ in their bodies get the same fingerprint and the handler sees no body.
\<close>

theorem largest_limit_drops_body:
  "readBody r (2 ^ 63 - 1) = Inr ([], False)"
  by (cases "ReqBody r") (simp_all add: readBody_def ReadAll_limited_def wrap64_def)

text \<open>
  \<^verbatim>\<open>Retry-After\<close> is the remaining lease in whole seconds, rounded up: a client that waits that long
  finds the lease over, and it is never less than one second nor a second too long.
\<close>

theorem retry_after_rounds_up:
  assumes "0 < d" "d \<le> 2 ^ 63 - 1 - Second"
  shows "\<exists>secs. retryAfterSeconds d = FormatInt secs \<and> 1 \<le> secs \<and> d \<le> secs * Second \<and> (secs - 1) * Second < d"
proof (intro exI conjI)
  let ?s = "(d + Second - 1) div Second"
  show "retryAfterSeconds d = FormatInt ?s" using assms by (rule retryAfterSeconds_ceiling)
  have eq: "?s * Second + (d + Second - 1) mod Second = d + Second - 1" by (rule div_mult_mod_eq)
  have m: "0 \<le> (d + Second - 1) mod Second" "(d + Second - 1) mod Second < Second"
    by (simp_all add: Second_def)
  show le: "d \<le> ?s * Second" using eq m by linarith
  show "(?s - 1) * Second < d" unfolding left_diff_distrib using eq m by linarith
  have "0 < ?s * Second" using le assms(1) by linarith
  then show "1 \<le> ?s" by (simp add: zero_less_mult_iff Second_def)
qed

theorem retry_after_rounds_up_witness:
  "\<exists>secs. retryAfterSeconds 1500000000 = FormatInt secs \<and> 1 \<le> secs \<and> 1500000000 \<le> secs * Second \<and> (secs - 1) * Second < 1500000000"
  by (rule retry_after_rounds_up) (simp_all add: Second_def)

text \<open>
  For a remaining lease within a second of the largest duration the rounding wraps around, and
  the client is told to retry after one second.
\<close>

theorem retry_after_wraps:
  assumes "2 ^ 63 - Second < d" "d \<le> 2 ^ 63 - 1"
  shows "retryAfterSeconds d = ''1''"
proof -
  have "wrap64 (d + Second) = d + Second - 2 ^ 64" using assms by (intro wrap64_above) (simp_all add: Second_def)
  moreover have "in_int64 (d + Second - 2 ^ 64 - 1)" using assms by (simp add: in_int64_def Second_def)
  moreover have "quot (d + Second - 2 ^ 64 - 1) Second \<le> 0"
    using assms by (subst quot_nonpos) (simp_all add: Second_def pos_imp_zdiv_nonneg_iff)
  ultimately have "retryAfterSeconds d = FormatInt 1" by (simp add: retryAfterSeconds_def Let_def)
  also have "\<dots> = ''1''" by code_simp
  finally show ?thesis .
qed

theorem retry_after_wraps_witness: "retryAfterSeconds (2 ^ 63 - 1) = ''1''"
  by (rule retry_after_wraps) (simp_all add: Second_def)

end
