(* ===== verification/Middleware_Lease.thy ===== *)
theory Middleware_Lease
  imports Middleware
begin

section \<open>The middleware over any store that keeps the contract\<close>

text \<open>
  What a call of the middleware does to the client, to the handler and to the store, proved
  once in the locale \<open>lease_client\<close>, for every store that keeps the contract \<open>lease_store\<close>.
\<close>

text \<open>The answer to a request that is not to be executed.\<close>

definition answer :: "(bytes \<Rightarrow> bytes) \<Rightarrow> config \<Rightarrow> Request \<Rightarrow> string \<Rightarrow> string \<Rightarrow> Outcome \<Rightarrow> 's world \<Rightarrow> bool \<times> 's world" where
  "answer sha256 cfg r scope key out wd = (case Action out of
       Replay \<Rightarrow> writeReplay sha256 cfg r scope key (OutPayload out) wd
     | RejectInFlight \<Rightarrow> WriteError cfg r 409 (Sentinel ErrInFlight)
         (wd\<lparr>wd_w := (wd_w wd)\<lparr>rw_header :=
            hdr_Set (rw_header (wd_w wd)) ''Retry-After'' (retryAfterSeconds (RetryAfter out))\<rparr>\<rparr>)
     | RejectFingerprintMismatch \<Rightarrow> WriteError cfg r 422 (Sentinel ErrFingerprintMismatch) wd
     | Proceed \<Rightarrow> (False, wd))"

lemma decide_not_Proceed: "Action (decide l fp d) \<noteq> Proceed"
  by (simp add: decide_def)

lemma answer_keeps:
  assumes "answer sha256 cfg r sc key out wd = (p, wd')"
  shows "wd_calls wd' = wd_calls wd" and "wd_store wd' = wd_store wd"
  using assms
  by (auto simp: answer_def writeReplay_def WriteError_def log_error_def Let_def
      split: Action.splits prod.splits sum.splits if_splits)

lemma serve_keyed_answers:
  assumes "Begin S (ce_rnd env) (ce_begin env) (scoped_key (scope_of cfg r) key)
      (Fingerprint_of sha256 (Method r) (ReqURL r) body) (lease_options cfg) (wd_store wd) = (Inr out, s')"
    and "Action out \<noteq> Proceed"
  shows "serve_keyed sha256 S cfg h env key body r c wd =
    answer sha256 cfg r (scope_of cfg r) key out (wd\<lparr>wd_store := s'\<rparr>)"
  using assms by (simp add: serve_keyed_def store_do_def answer_def split: Action.splits)

lemma serve_keyed_proceeds:
  assumes "Begin S (ce_rnd env) (ce_begin env) (scoped_key (scope_of cfg r) key)
      (Fingerprint_of sha256 (Method r) (ReqURL r) body) (lease_options cfg) (wd_store wd) = (Inr out, s')"
    and "Action out = Proceed"
  shows "serve_keyed sha256 S cfg h env key body r c wd =
    serve_proceed S cfg h env (keyAttrs sha256 cfg (scope_of cfg r) key) (scoped_key (scope_of cfg r) key)
      (OutToken out) (lease_options cfg) r c (wd\<lparr>wd_store := s'\<rparr>)"
  using assms by (simp add: serve_keyed_def store_do_def Let_def)

lemma settle_persists:
  assumes "policy cfg (Status rec) herr = Persist" "StoredResponse_of rec = (sr, True)"
    and "Finish S (ce_finish env) k tok Persist (MarshalBinary sr) opts (ce_before_finish env (wd_store wd)) = ((False, None), s')"
  shows "settle S cfg env attrs k tok opts rec herr wd = wd\<lparr>wd_store := s'\<rparr>"
  using assms by (auto simp: settle_def final_decision_def StoredResponse_of_def store_do_def split: if_splits)

lemma settle_discards:
  assumes "policy cfg (Status rec) herr = Discard"
    and "Finish S (ce_finish env) k tok Discard [] opts (ce_before_finish env (wd_store wd)) = ((False, None), s')"
  shows "settle S cfg env attrs k tok opts rec herr wd = wd\<lparr>wd_store := s'\<rparr>"
  using assms by (auto simp: settle_def final_decision_def store_do_def)

text \<open>A streamed or oversized response is discarded whatever the policy says.\<close>

lemma settle_overruled:
  assumes "policy cfg (Status rec) herr = Persist" "abandoned rec \<or> overflowed rec"
    and "Finish S (ce_finish env) k tok Discard [] opts (ce_before_finish env (wd_store wd)) = ((False, None), s')"
  shows "wd_store (settle S cfg env attrs k tok opts rec herr wd) = s'"
  using assms by (auto simp: settle_def final_decision_def store_do_def warn_def)

text \<open>The store operations of a handler keep a property of the store.\<close>

primrec store_ops_keep :: "('s \<Rightarrow> bool) \<Rightarrow> 's prog \<Rightarrow> bool" where
  "store_ops_keep P Done = True"
| "store_ops_keep P Panic = True"
| "store_ops_keep P (Do a k) =
     ((case a of StoreOp f \<Rightarrow> \<forall>s. P s \<longrightarrow> P (snd (f s)) | _ \<Rightarrow> True) \<and> (\<forall>r. store_ops_keep P (k r)))"

lemma cap_step_store:
  "cap_step a st = (r, st') \<Longrightarrow> (case a of StoreOp f \<Rightarrow> \<forall>s. P s \<longrightarrow> P (snd (f s)) | _ \<Rightarrow> True) \<Longrightarrow>
     P (cp_store st) \<Longrightarrow> P (cp_store st')"
  by (cases a) (auto simp: cap_step_def split: prod.splits)

lemma run_cap_store:
  "run_cap p st = (b, st') \<Longrightarrow> store_ops_keep P p \<Longrightarrow> P (cp_store st) \<Longrightarrow> P (cp_store st')"
proof (induction p arbitrary: st)
  case (Do a k)
  obtain r st1 where S: "cap_step a st = (r, st1)" by force
  with Do.prems(1) have "run_cap (k r) st1 = (b, st')" by simp
  from Do.IH [OF rangeI this] cap_step_store [OF S, of P] Do.prems(2,3) show ?case by simp
qed simp_all

lemma run_raw_store:
  "run_raw p st = (b, st') \<Longrightarrow> store_ops_keep P p \<Longrightarrow> P (pl_store st) \<Longrightarrow> P (pl_store st')"
proof (induction p arbitrary: st)
  case (Do a k)
  obtain r st1 where S: "raw_step a st = (r, st1)" by force
  with Do.prems(1) have "run_raw (k r) st1 = (b, st')" by simp
  moreover have "P (pl_store st1)"
    using S Do.prems(2,3) by (cases a) (auto simp: raw_step_def split: prod.splits)
  ultimately show ?case using Do.IH [OF rangeI] Do.prems(2) by simp
qed simp_all

text \<open>Other requests keep a property of the store between the steps of a call.\<close>

definition env_keeps :: "('s \<Rightarrow> bool) \<Rightarrow> ('s, 'e) call_env \<Rightarrow> bool" where
  "env_keeps P env \<longleftrightarrow> (\<forall>n s. P s \<longrightarrow> P (at_between (ce_begin env n) s)) \<and>
     (\<forall>s. P s \<longrightarrow> P (ce_before_finish env s)) \<and> (\<forall>s. P s \<longrightarrow> P (ce_before_release env s))"

lemma WriteError_store: "wd_store (snd (WriteError cfg r code e wd)) = wd_store wd"
  by (simp add: WriteError_def split: prod.splits)

lemma writeReplay_store: "wd_store (snd (writeReplay sha256 cfg r sc key pl wd)) = wd_store wd"
  by (simp add: writeReplay_def WriteError_store log_error_def Let_def split: prod.splits sum.splits)

lemma next_ServeHTTP_store:
  "\<forall>r c. store_ops_keep P (h r c) \<Longrightarrow> P (wd_store wd) \<Longrightarrow> P (wd_store (snd (next_ServeHTTP h r c wd)))"
  using run_raw_store [of "h r c" "\<lparr>pl_w = wd_w wd, pl_ctx = c, pl_store = wd_store wd\<rparr>" _ _ P]
  by (simp add: next_ServeHTTP_def split: prod.splits)

lemma warn_store [simp]: "wd_store (warn m a wd) = wd_store wd"
  by (simp add: warn_def)

subsection \<open>The replayed response\<close>

text \<open>The writer of a replay, before the stored response is written to it.\<close>

definition marked :: "config \<Rightarrow> rw \<Rightarrow> rw" where
  "marked cfg w = (if replayedHeader cfg
     then w\<lparr>rw_header := hdr_Set (rw_header w) HeaderIdempotencyReplayed ''true''\<rparr> else w)"

lemma fresh_marked [simp]: "fresh_rw (marked cfg w) = fresh_rw w"
  by (simp add: marked_def fresh_rw_def)

lemma writeReplay_sends:
  assumes "fresh_rw (wd_w wd)" "storable sr" "200 \<le> StatusCode sr" "StatusCode sr \<le> 999"
    and "int (length (MarshalBinary sr)) \<le> wrap64 (maxResponseBody cfg + maxStoredResponseOverhead)"
  obtains w' h where "writeReplay sha256 cfg r sc key (MarshalBinary sr) wd = (False, wd\<lparr>wd_w := w'\<rparr>)"
    "rw_sent w' = Some (StatusCode sr, h)" "rw_body w' = sent_body (StatusCode sr) (SRBody sr)"
    "map_of h = map_of (rw_header (marked cfg (wd_w wd))) ++ map_of (SRHeader sr)"
proof -
  have wf: "wf_header (SRHeader sr)" using assms(2) by (simp add: storable_def)
  let ?sr = "sr\<lparr>SRHeader := sorted_header (SRHeader sr)\<rparr>"
  have wf': "wf_header (SRHeader ?sr)" using distinct_sorted_header [OF wf] by (simp add: wf_header_def)
  obtain e w' h where ws: "WriteStored ?sr (marked cfg (wd_w wd)) = (Reply e, w')"
    "rw_sent w' = Some (StatusCode sr, h)" "rw_body w' = sent_body (StatusCode sr) (SRBody sr)"
    "map_of h = map_of (rw_header (marked cfg (wd_w wd))) ++ map_of (SRHeader ?sr)"
    by (rule WriteStored_sends [of "marked cfg (wd_w wd)" ?sr]) (use assms(1,3,4) wf' in simp_all)
  have "writeReplay sha256 cfg r sc key (MarshalBinary sr) wd = (False, wd\<lparr>wd_w := w'\<rparr>)"
    using assms(5) ws(1) by (simp add: writeReplay_def Unmarshal_Marshal [OF assms(2)] marked_def)
  then show thesis using that ws(2-4) by (simp add: map_of_sorted_header [OF wf])
qed

text \<open>
  Two responses agree for the client when they have the same status, the same body and,
  for every name in the allowlist that the first one carries, the same values.
\<close>

definition same_response :: "string list \<Rightarrow> rw \<Rightarrow> rw \<Rightarrow> bool" where
  "same_response names w w' \<longleftrightarrow> (case (rw_sent w, rw_sent w') of
       (Some (code, h), Some (code', h')) \<Rightarrow> code' = code \<and>
         (\<forall>n\<in>set names. hdr_Values h n \<noteq> [] \<longrightarrow> hdr_Values h' n = hdr_Values h n)
     | _ \<Rightarrow> False) \<and> rw_body w' = rw_body w"

lemma allow_names_canonical: "n \<in> set (allow_names [] names) \<Longrightarrow> CanonicalMIMEHeaderKey n = n"
  by (auto simp: set_allow_names)

lemma replay_same_response:
  assumes "rw_sent w = Some (code, h)" "rw_body w = sent_body code body"
    and "rw_sent w' = Some (code, h')" "rw_body w' = sent_body code body"
    and "map_of h' = f ++ map_of (snapshot h [] (allow_names [] names))"
  shows "same_response (allow_names [] names) w w'"
  using assms by (auto simp: same_response_def map_add_def map_of_snapshot hdr_Values_def allow_names_canonical)

subsection \<open>Over the contract\<close>

text \<open>The middleware as a client of the contract.\<close>

locale lease_client = lease_store
begin

text \<open>A live record answers the request; the handler does not run.\<close>

lemma serve_refuses:
  assumes "ce_rnd env = Inr b" "sinv (at_between (ce_begin env 1) (wd_store wd))" "up (at_store (ce_begin env 1))"
    and "sclock (at_store (ce_begin env 1)) \<le> t"
    and v: "sview (sclock (at_store (ce_begin env 1))) (at_between (ce_begin env 1) (wd_store wd))
        (scoped_key (scope_of cfg r) key) = Some l"
    and live: "at_check (ce_begin env 1) < rebuilt (at_store (ce_begin env 1)) (l_deadline l)"
  obtains s' where "serve_keyed sha256 S cfg h env key body r c wd =
      answer sha256 cfg r (scope_of cfg r) key (decide l (Fingerprint_of sha256 (Method r) (ReqURL r) body)
        (time_Sub (rebuilt (at_store (ce_begin env 1)) (l_deadline l)) (at_check (ce_begin env 1))))
        (wd\<lparr>wd_store := s'\<rparr>)"
    "sinv s'" "sview t s' = sview t (at_between (ce_begin env 1) (wd_store wd))"
proof -
  let ?fp = "Fingerprint_of sha256 (Method r) (ReqURL r) body"
  obtain res s' where B: "Begin S (Inr b) (ce_begin env) (scoped_key (scope_of cfg r) key) ?fp (lease_options cfg)
      (wd_store wd) = (res, s')" by force
  have "sinv s' \<and> res = Inr (decide l ?fp (time_Sub (rebuilt (at_store (ce_begin env 1)) (l_deadline l))
      (at_check (ce_begin env 1)))) \<and> sview t s' = sview t (at_between (ce_begin env 1) (wd_store wd))"
    using Begin_first [OF assms(2-4) _ B] v live by simp
  then show thesis
    using that [OF serve_keyed_answers [OF _ decide_not_Proceed]] B assms(1) by metis
qed

text \<open>A free key is claimed, and the handler runs under the new lease.\<close>

lemma serve_claims:
  assumes "ce_rnd env = Inr b" "sinv (at_between (ce_begin env 1) (wd_store wd))" "up (at_store (ce_begin env 1))"
    and "sclock (at_store (ce_begin env 1)) \<le> t"
    and v: "sview (sclock (at_store (ce_begin env 1))) (at_between (ce_begin env 1) (wd_store wd))
        (scoped_key (scope_of cfg r) key) = None"
  obtains s' l where "serve_keyed sha256 S cfg h env key body r c wd =
      serve_proceed S cfg h env (keyAttrs sha256 cfg (scope_of cfg r) key) (scoped_key (scope_of cfg r) key)
        (EncodeToString b) (lease_options cfg) r c (wd\<lparr>wd_store := s'\<rparr>)"
    "sinv s'" "l_state l = StateReserved" "l_token l = EncodeToString b"
    "l_fp l = Fingerprint_of sha256 (Method r) (ReqURL r) body"
    "l_deadline l = grant (at_store (ce_begin env 1)) (reservation_of (scoped_key (scope_of cfg r) key)
        (Fingerprint_of sha256 (Method r) (ReqURL r) body) (EncodeToString b) (lease_options cfg)
        (at_deadline (ce_begin env 1)))"
    "sview t s' = live_at t ((sview (sclock (at_store (ce_begin env 1))) (at_between (ce_begin env 1) (wd_store wd)))
        (scoped_key (scope_of cfg r) key := Some l))"
    "Begin S (ce_rnd env) (ce_begin env) (scoped_key (scope_of cfg r) key)
        (Fingerprint_of sha256 (Method r) (ReqURL r) body) (lease_options cfg) (wd_store wd)
        = (Inr (proceed_outcome (EncodeToString b)), s')"
proof -
  let ?fp = "Fingerprint_of sha256 (Method r) (ReqURL r) body"
  let ?k = "scoped_key (scope_of cfg r) key"
  let ?r = "reservation_of ?k ?fp (EncodeToString b) (lease_options cfg) (at_deadline (ce_begin env 1))"
  obtain res s' where B: "Begin S (Inr b) (ce_begin env) ?k ?fp (lease_options cfg) (wd_store wd) = (res, s')" by force
  have first: "sinv s' \<and> res = Inr (proceed_outcome (EncodeToString b)) \<and>
      sview t s' = live_at t ((sview (sclock (at_store (ce_begin env 1))) (at_between (ce_begin env 1) (wd_store wd)))
        (?k := Some (new_lease ?r (grant (at_store (ce_begin env 1)) ?r))))"
    using Begin_first [OF assms(2-4) _ B] v by simp
  have "serve_keyed sha256 S cfg h env key body r c wd =
      serve_proceed S cfg h env (keyAttrs sha256 cfg (scope_of cfg r) key) ?k (EncodeToString b)
        (lease_options cfg) r c (wd\<lparr>wd_store := s'\<rparr>)"
    using serve_keyed_proceeds [of S env cfg r key sha256 body wd "proceed_outcome (EncodeToString b)" s' h c]
      B assms(1) first by simp
  with first B assms(1) show thesis
    using that [of s' "new_lease ?r (grant (at_store (ce_begin env 1)) ?r)"] by auto
qed

text \<open>A handler that returned, was captured and is to be persisted: its response is stored.\<close>

lemma proceed_persists:
  assumes run: "run_under_lease cfg h r (lease_ctx k tok opts c) (wd_w wd) (wd_store wd) = (False, st)"
    and "\<not> finished (cp_ctx st)"
    and "policy cfg (Status (cw_rec (cw_finalize (cp_cw st)))) (handlerErr (cp_ctx st)) = Persist"
    and "StoredResponse_of (cw_rec (cw_finalize (cp_cw st))) = (sr, True)"
    and "sinv (ce_before_finish env (cp_store st))" "up (ce_finish env)" "sclock (ce_finish env) \<le> t"
    and "held_by (sview (sclock (ce_finish env)) (ce_before_finish env (cp_store st))) k tok l"
  obtains s' where "serve_proceed S cfg h env attrs k tok opts r c wd =
      (False, wd\<lparr>wd_w := cw_w (cp_cw st), wd_store := s', wd_calls := wd_calls wd @ [(r, lease_ctx k tok opts c)]\<rparr>)"
    "sinv s'"
    "sview t s' = live_at t ((sview (sclock (ce_finish env)) (ce_before_finish env (cp_store st)))
        (k := Some (completed_lease l (MarshalBinary sr) (keep (ce_finish env) (recordTTL opts)))))"
proof -
  obtain res s' where F: "Finish S (ce_finish env) k tok Persist (MarshalBinary sr) opts
      (ce_before_finish env (cp_store st)) = (res, s')" by (meson surj_pair)
  note f = finish_persists [OF assms(5,6,8,7) F]
  have "serve_proceed S cfg h env attrs k tok opts r c wd =
      (False, wd\<lparr>wd_w := cw_w (cp_cw st), wd_store := s', wd_calls := wd_calls wd @ [(r, lease_ctx k tok opts c)]\<rparr>)"
    using assms(1,2) settle_persists [OF assms(3,4), of S env k tok opts] F f(1)
    by (simp add: serve_proceed_def)
  with f(2,3) that show thesis by blast
qed

text \<open>A handler that panicked: the reservation is released and the panic goes on.\<close>

lemma proceed_panics:
  assumes run: "run_under_lease cfg h r (lease_ctx k tok opts c) (wd_w wd) (wd_store wd) = (True, st)"
    and "\<not> finished (cp_ctx st)"
    and "sinv (ce_before_finish env (cp_store st))" "up (ce_finish env)" "sclock (ce_finish env) \<le> t"
    and "held_by (sview (sclock (ce_finish env)) (ce_before_finish env (cp_store st))) k tok l"
  obtains s' where "serve_proceed S cfg h env attrs k tok opts r c wd =
      (True, wd\<lparr>wd_w := cw_w (cp_cw st), wd_store := s', wd_calls := wd_calls wd @ [(r, lease_ctx k tok opts c)]\<rparr>)"
    "sinv s'" "sview t s' = (sview t (ce_before_finish env (cp_store st)))(k := None)"
proof -
  obtain res s' where F: "Finish S (ce_finish env) k tok Discard [] opts
      (ce_before_finish env (cp_store st)) = (res, s')" by (meson surj_pair)
  note f = finish_discards [OF assms(3,4,6,5) F]
  have "serve_proceed S cfg h env attrs k tok opts r c wd =
      (True, wd\<lparr>wd_w := cw_w (cp_cw st), wd_store := s', wd_calls := wd_calls wd @ [(r, lease_ctx k tok opts c)]\<rparr>)"
    using assms(1,2) F f(1) by (simp add: serve_proceed_def on_panic_def store_do_def)
  with f(2,3) that show thesis by blast
qed

text \<open>A handler that returned, with a response that is not to be stored: the key is free again.\<close>

lemma proceed_discards:
  assumes run: "run_under_lease cfg h r (lease_ctx k tok opts c) (wd_w wd) (wd_store wd) = (False, st)"
    and "\<not> finished (cp_ctx st)"
    and rec: "rec = cw_rec (cw_finalize (cp_cw st))" "d = policy cfg (Status rec) (handlerErr (cp_ctx st))"
    and "d = Discard \<or> d = Persist \<and> (abandoned rec \<or> overflowed rec)"
    and "sinv (ce_before_finish env (cp_store st))" "up (ce_finish env)" "sclock (ce_finish env) \<le> t"
    and "held_by (sview (sclock (ce_finish env)) (ce_before_finish env (cp_store st))) k tok l"
  obtains wd' where "serve_proceed S cfg h env attrs k tok opts r c wd = (False, wd')"
    "wd_w wd' = cw_w (cp_cw st)" "wd_calls wd' = wd_calls wd @ [(r, lease_ctx k tok opts c)]"
    "sinv (wd_store wd')" "sview t (wd_store wd') = (sview t (ce_before_finish env (cp_store st)))(k := None)"
proof -
  let ?wd1 = "wd\<lparr>wd_w := cw_w (cp_cw st), wd_store := cp_store st, wd_calls := wd_calls wd @ [(r, lease_ctx k tok opts c)]\<rparr>"
  obtain res s' where F: "Finish S (ce_finish env) k tok Discard [] opts
      (ce_before_finish env (cp_store st)) = (res, s')" by (meson surj_pair)
  note f = finish_discards [OF assms(6,7,9,8) F]
  let ?wd' = "settle S cfg env attrs k tok opts rec (handlerErr (cp_ctx st)) ?wd1"
  have "wd_store ?wd' = s' \<and> wd_w ?wd' = wd_w ?wd1 \<and> wd_calls ?wd' = wd_calls ?wd1"
    using assms(5) F f(1) unfolding rec(2) by (auto simp: settle_def final_decision_def store_do_def warn_def)
  moreover have "serve_proceed S cfg h env attrs k tok opts r c wd = (False, ?wd')"
    using assms(1,2) by (simp add: serve_proceed_def rec(1))
  ultimately show thesis using that f(2,3) by simp
qed

text \<open>Up to the handler: the first request with a free key runs the handler under a new lease.\<close>

lemma serve_first:
  assumes acc: "accepted cfg r key body" and "ce_rnd env = Inr b"
    and free: "sinv (at_between (ce_begin env 1) (wd_store wd))" "up (at_store (ce_begin env 1))"
      "sview (sclock (at_store (ce_begin env 1))) (at_between (ce_begin env 1) (wd_store wd)) k = None"
    and k: "k = scoped_key (scope_of cfg (rebuffer r body)) key"
    and fp: "fp = Fingerprint_of sha256 (Method r) (ReqURL r) body"
  shows "ServeHTTP sha256 S cfg h env r c wd =
    serve_proceed S cfg h env (keyAttrs sha256 cfg (scope_of cfg (rebuffer r body)) key) k (EncodeToString b)
      (lease_options cfg) (rebuffer r body) c
      (wd\<lparr>wd_store := snd (Begin S (ce_rnd env) (ce_begin env) k fp (lease_options cfg) (wd_store wd))\<rparr>)"
proof -
  obtain s1 where P: "serve_keyed sha256 S cfg h env key body (rebuffer r body) c wd =
      serve_proceed S cfg h env (keyAttrs sha256 cfg (scope_of cfg (rebuffer r body)) key) k
        (EncodeToString b) (lease_options cfg) (rebuffer r body) c (wd\<lparr>wd_store := s1\<rparr>)"
    and B: "Begin S (ce_rnd env) (ce_begin env) k fp (lease_options cfg) (wd_store wd)
        = (Inr (proceed_outcome (EncodeToString b)), s1)"
    by (rule serve_claims [OF assms(2) free(1,2) order_refl free(3) [unfolded k], of sha256 h body c,
          unfolded rebuffer_sel, folded k fp])
  then show ?thesis by (simp add: ServeHTTP_accepted [OF acc])
qed

text \<open>A request that meets a live record is answered from the record.\<close>

lemma serve_answered:
  assumes acc: "accepted cfg r key body" and "ce_rnd env = Inr b"
    and "sinv (at_between (ce_begin env 1) (wd_store wd))" "up (at_store (ce_begin env 1))"
    and "sview (sclock (at_store (ce_begin env 1))) (at_between (ce_begin env 1) (wd_store wd))
        (scoped_key (scope_of cfg (rebuffer r body)) key) = Some l"
    and "at_check (ce_begin env 1) < rebuilt (at_store (ce_begin env 1)) (l_deadline l)"
    and "sclock (at_store (ce_begin env 1)) \<le> t"
  obtains s' where "ServeHTTP sha256 S cfg h env r c wd =
      answer sha256 cfg (rebuffer r body) (scope_of cfg (rebuffer r body)) key
        (decide l (Fingerprint_of sha256 (Method r) (ReqURL r) body)
          (time_Sub (rebuilt (at_store (ce_begin env 1)) (l_deadline l)) (at_check (ce_begin env 1))))
        (wd\<lparr>wd_store := s'\<rparr>)"
    "sinv s'" "sview t s' = sview t (at_between (ce_begin env 1) (wd_store wd))"
  using serve_refuses [OF assms(2-4,7,5,6), of sha256 h body c] that
  by (simp add: ServeHTTP_accepted [OF acc]) blast

text \<open>
  The whole story of a key: the first request is executed, its response stored, and a later
  request with the same fingerprint gets the same response without executing anything.
\<close>

lemma first_request:
  assumes acc: "accepted cfg r key body" and "ce_rnd env = Inr b"
    and free: "sinv (at_between (ce_begin env 1) (wd_store wd))" "up (at_store (ce_begin env 1))"
      "sview (sclock (at_store (ce_begin env 1))) (at_between (ce_begin env 1) (wd_store wd)) k = None"
    and k: "k = scoped_key (scope_of cfg (rebuffer r body)) key"
    and fp: "fp = Fingerprint_of sha256 (Method r) (ReqURL r) body"
    and run: "run_under_lease cfg h (rebuffer r body) (lease_ctx k (EncodeToString b) (lease_options cfg) c) (wd_w wd)
        (snd (Begin S (ce_rnd env) (ce_begin env) k fp (lease_options cfg) (wd_store wd))) = (False, st)"
    and "\<not> finished (cp_ctx st)"
    and "policy cfg (Status (cw_rec (cw_finalize (cp_cw st)))) (handlerErr (cp_ctx st)) = Persist"
    and "StoredResponse_of (cw_rec (cw_finalize (cp_cw st))) = (sr, True)"
    and fin: "sinv (ce_before_finish env (cp_store st))" "up (ce_finish env)" "sclock (ce_finish env) \<le> t"
    and held: "held_by (sview (sclock (ce_finish env)) (ce_before_finish env (cp_store st))) k (EncodeToString b) l"
  obtains s' where "ServeHTTP sha256 S cfg h env r c wd =
      (False, wd\<lparr>wd_w := cw_w (cp_cw st), wd_store := s',
         wd_calls := wd_calls wd @ [(rebuffer r body, lease_ctx k (EncodeToString b) (lease_options cfg) c)]\<rparr>)"
    "sinv s'"
    "sview t s' = live_at t ((sview (sclock (ce_finish env)) (ce_before_finish env (cp_store st)))
        (k := Some (completed_lease l (MarshalBinary sr) (keep (ce_finish env) (recordTTL (lease_options cfg))))))"
proof -
  let ?s1 = "snd (Begin S (ce_rnd env) (ce_begin env) k fp (lease_options cfg) (wd_store wd))"
  have run': "run_under_lease cfg h (rebuffer r body) (lease_ctx k (EncodeToString b) (lease_options cfg) c)
      (wd_w (wd\<lparr>wd_store := ?s1\<rparr>)) (wd_store (wd\<lparr>wd_store := ?s1\<rparr>)) = (False, st)"
    using run by simp
  from proceed_persists [OF run' assms(9-11) fin held] obtain s' where
    E: "serve_proceed S cfg h env (keyAttrs sha256 cfg (scope_of cfg (rebuffer r body)) key) k (EncodeToString b)
        (lease_options cfg) (rebuffer r body) c (wd\<lparr>wd_store := ?s1\<rparr>) =
      (False, wd\<lparr>wd_store := ?s1, wd_w := cw_w (cp_cw st), wd_store := s',
        wd_calls := wd_calls (wd\<lparr>wd_store := ?s1\<rparr>) @ [(rebuffer r body, lease_ctx k (EncodeToString b) (lease_options cfg) c)]\<rparr>)"
    and R: "sinv s'"
    "sview t s' = live_at t ((sview (sclock (ce_finish env)) (ce_before_finish env (cp_store st)))
        (k := Some (completed_lease l (MarshalBinary sr) (keep (ce_finish env) (recordTTL (lease_options cfg))))))"
    .
  show thesis by (rule that [OF _ R]) (use E in \<open>simp add: serve_first [OF acc assms(2) free k fp]\<close>)
qed

lemma retry_request:
  assumes acc: "accepted cfg r key body" and "ce_rnd env = Inr b"
    and st: "sinv (at_between (ce_begin env 1) (wd_store wd))" "up (at_store (ce_begin env 1))"
      "sview (sclock (at_store (ce_begin env 1))) (at_between (ce_begin env 1) (wd_store wd))
        (scoped_key (scope_of cfg (rebuffer r body)) key) = Some l"
    and live: "at_check (ce_begin env 1) < rebuilt (at_store (ce_begin env 1)) (l_deadline l)"
    and stored: "l_state l = StateCompleted" "l_fp l = Fingerprint_of sha256 (Method r) (ReqURL r) body"
      "l_payload l = MarshalBinary sr"
    and wr: "fresh_rw (wd_w wd)" "storable sr" "200 \<le> StatusCode sr" "StatusCode sr \<le> 999"
      "int (length (MarshalBinary sr)) \<le> wrap64 (maxResponseBody cfg + maxStoredResponseOverhead)"
  obtains wd' h' where "ServeHTTP sha256 S cfg h env r c wd = (False, wd')" "wd_calls wd' = wd_calls wd"
    "wd_log wd' = wd_log wd"
    "rw_sent (wd_w wd') = Some (StatusCode sr, h')" "rw_body (wd_w wd') = sent_body (StatusCode sr) (SRBody sr)"
    "map_of h' = map_of (rw_header (marked cfg (wd_w wd))) ++ map_of (SRHeader sr)"
proof -
  obtain s' where A: "ServeHTTP sha256 S cfg h env r c wd =
      answer sha256 cfg (rebuffer r body) (scope_of cfg (rebuffer r body)) key
        (decide l (Fingerprint_of sha256 (Method r) (ReqURL r) body)
          (time_Sub (rebuilt (at_store (ce_begin env 1)) (l_deadline l)) (at_check (ce_begin env 1))))
        (wd\<lparr>wd_store := s'\<rparr>)"
    using serve_answered [OF acc assms(2) st live order_refl, of sha256 h c] by metis
  have W: "answer sha256 cfg (rebuffer r body) (scope_of cfg (rebuffer r body)) key
        (decide l (Fingerprint_of sha256 (Method r) (ReqURL r) body)
          (time_Sub (rebuilt (at_store (ce_begin env 1)) (l_deadline l)) (at_check (ce_begin env 1))))
        (wd\<lparr>wd_store := s'\<rparr>) =
      writeReplay sha256 cfg (rebuffer r body) (scope_of cfg (rebuffer r body)) key (MarshalBinary sr) (wd\<lparr>wd_store := s'\<rparr>)"
    using stored by (simp add: answer_def decide_def)
  obtain w' h' where R: "writeReplay sha256 cfg (rebuffer r body) (scope_of cfg (rebuffer r body)) key (MarshalBinary sr)
        (wd\<lparr>wd_store := s'\<rparr>) = (False, wd\<lparr>wd_store := s', wd_w := w'\<rparr>)"
    "rw_sent w' = Some (StatusCode sr, h')" "rw_body w' = sent_body (StatusCode sr) (SRBody sr)"
    "map_of h' = map_of (rw_header (marked cfg (wd_w wd))) ++ map_of (SRHeader sr)"
    by (rule writeReplay_sends [of "wd\<lparr>wd_store := s'\<rparr>" sr cfg sha256 "rebuffer r body" "scope_of cfg (rebuffer r body)" key])
      (use wr in simp_all)
  have "ServeHTTP sha256 S cfg h env r c wd = (False, wd\<lparr>wd_store := s', wd_w := w'\<rparr>)"
    unfolding A W by (rule R(1))
  then show thesis using that R(2-4) by simp
qed

subsection \<open>Every call keeps the invariant of the store\<close>

lemma store_do_inv: "sinv (snd (f (wd_store wd))) \<Longrightarrow> sinv (wd_store (snd (store_do f wd)))"
  by (simp add: store_do_def split_beta)

lemma settle_inv:
  assumes "env_keeps sinv env" "sinv (wd_store wd)"
  shows "sinv (wd_store (settle S cfg env attrs k tok opts rec herr wd))"
proof -
  obtain d wd1 where D: "final_decision cfg attrs rec herr wd = (d, wd1)" by force
  have 1: "sinv (wd_store wd1)" using D assms(2) by (auto simp: final_decision_def Let_def split: if_splits)
  let ?fin = "\<lambda>p s. Finish S (ce_finish env) k tok d p opts (ce_before_finish env s)"
  let ?rel = "\<lambda>s. Finish S (ce_release env) k tok Discard [] opts (ce_before_release env s)"
  have fin: "sinv (wd_store (snd (store_do (?fin p) w)))" if "sinv (wd_store w)" for p and w :: "'a world"
    by (rule store_do_inv, rule Finish_inv) (use assms(1) that in \<open>simp add: env_keeps_def\<close>)
  have rel: "sinv (wd_store (snd (store_do ?rel w)))" if "sinv (wd_store w)" for w :: "'a world"
    by (rule store_do_inv, rule Finish_inv) (use assms(1) that in \<open>simp add: env_keeps_def\<close>)
  let ?p = "if d = Persist then MarshalBinary (fst (StoredResponse_of rec)) else []"
  obtain lost err wd2 where F: "store_do (?fin ?p) wd1 = ((lost, err), wd2)" by (metis prod.exhaust)
  have 2: "sinv (wd_store wd2)" using fin [OF 1, of ?p] F by simp
  have 3: "sinv (wd_store (snd (store_do ?rel (warn m a wd2))))" for m a using rel [of "warn m a wd2"] 2 by simp
  show ?thesis
    unfolding settle_def D F Let_def case_prod_conv using 2 3
    by (auto simp: split_beta split: option.splits)
qed

lemma serve_proceed_inv:
  assumes "env_keeps sinv env" "\<forall>r c. store_ops_keep sinv (h r c)" "sinv (wd_store wd)"
  shows "sinv (wd_store (snd (serve_proceed S cfg h env attrs k tok opts r c wd)))"
proof -
  obtain p st where R: "run_under_lease cfg h r (lease_ctx k tok opts c) (wd_w wd) (wd_store wd) = (p, st)" by force
  have 1: "sinv (cp_store st)"
    using run_cap_store [OF R [unfolded run_under_lease_def], of sinv] assms(2,3) by simp
  have "sinv (snd (Finish S e k tok Discard [] opts (ce_before_finish env (cp_store st))))" for e
    by (rule Finish_inv) (use assms(1) 1 in \<open>simp add: env_keeps_def\<close>)
  then have panic: "sinv (wd_store (on_panic S env attrs k tok opts c' wd'))" if "wd_store wd' = cp_store st" for c' wd'
    using 1 that by (simp add: on_panic_def store_do_def split_beta split: option.splits)
  show ?thesis
    using R 1 panic
    by (simp add: serve_proceed_def Let_def settle_inv [OF assms(1)])
qed

lemma ServeHTTP_inv:
  assumes "env_keeps sinv env" "\<forall>r c. store_ops_keep sinv (h r c)" "sinv (wd_store wd)"
  shows "sinv (wd_store (snd (ServeHTTP sha256 S cfg h env r c wd)))"
proof -
  note raw = next_ServeHTTP_store [of sinv, OF assms(2)]
  have keyed: "sinv (wd_store (snd (serve_keyed sha256 S cfg h env key body r' c wd)))" for key body r'
  proof -
    let ?k = "scoped_key (scope_of cfg r') key"
    obtain res s1 where B: "Begin S (ce_rnd env) (ce_begin env) ?k (Fingerprint_of sha256 (Method r') (ReqURL r') body)
        (lease_options cfg) (wd_store wd) = (res, s1)" by force
    have 1: "sinv s1"
      using Begin_inv [of "ce_begin env" "wd_store wd"] B assms(1,3) unfolding env_keeps_def by (metis snd_conv)
    show ?thesis
    proof (cases res)
      case (Inl e)
      with B 1 raw show ?thesis by (simp add: serve_keyed_def store_do_def WriteError_store Let_def)
    next
      case (Inr out)
      show ?thesis
      proof (cases "Action out = Proceed")
        case True
        then show ?thesis using serve_keyed_proceeds [OF B [unfolded Inr]] serve_proceed_inv [OF assms(1,2)] 1 by simp
      next
        case False
        then show ?thesis using serve_keyed_answers [OF B [unfolded Inr]] answer_keeps(2) 1
          by (metis prod.collapse surjective_pairing world.select_convs(2) world.surjective world.update_convs(2))
      qed
    qed
  qed
  show ?thesis
    using raw assms(3) keyed by (simp add: ServeHTTP_def WriteError_store split: sum.splits option.splits prod.splits)
qed

end

end
