(* ===== verification/Exchange_Example.thy ===== *)
theory Exchange_Example
  imports Memstore Middleware_Lease
begin

section \<open>A concrete exchange\<close>

text \<open>
  The inputs on which the properties of the middleware are exercised: a request, a handler that
  answers 201 with a small body, a quiet environment, and the values the definitions take
  on them.
\<close>

interpretation mc: lease_client mem_Store mem_inv mem_view "\<lambda>now. now" "\<lambda>_. True"
  "\<lambda>_ r. LeaseExpiresAt r" "\<lambda>now ttl. now + ttl" "\<lambda>_ d. d"
  by unfold_locales

definition demo_request :: Request where
  "demo_request = \<lparr>Method = ''POST'', ReqURL = \<lparr>EscapedPath = ''/pay'', RawQuery = []\<rparr>,
     ReqHeader = [(''Idempotency-Key'', [''k1''])],
     ReqBody = Some \<lparr>body_bytes = ''x'', body_err = None\<rparr>, ContentLength = 1\<rparr>"

definition demo_handler :: "'s handler" where
  "demo_handler r c = Do (SetHeader ''Content-Type'' [''text/plain''])
     (\<lambda>_. Do (WriteHeader 201) (\<lambda>_. Do (Write ''ok'') (\<lambda>_. Done)))"

definition demo_env :: "Time \<Rightarrow> (memstore, Time) call_env" where
  "demo_env t = \<lparr>ce_rnd = Inr ''ab'',
     ce_begin = (\<lambda>_. \<lparr>at_between = id, at_deadline = t, at_store = t, at_check = t\<rparr>),
     ce_before_finish = id, ce_finish = t + 1, ce_before_release = id, ce_release = t + 1\<rparr>"

definition demo_world :: "'s \<Rightarrow> 's world" where
  "demo_world s = \<lparr>wd_w = new_rw None None, wd_store = s, wd_log = [], wd_calls = []\<rparr>"

definition demo_end :: "'s \<Rightarrow> ctx \<Rightarrow> 's capture" where
  "demo_end s c = \<lparr>cp_cw = \<lparr>cw_w = (new_rw None None)\<lparr>rw_header := [(''Content-Type'', [''text/plain''])],
       rw_sent := Some (201, [(''Content-Type'', [''text/plain''])]), rw_body := ''ok''\<rparr>,
     cw_rec = (NewRecorder (maxResponseBody default_config) (storeHeaders default_config))\<lparr>rec_status := 201,
       rec_header := Some [(''Content-Type'', [''text/plain''])], rec_body := ''ok''\<rparr>,
     wroteHeader = True\<rparr>, cp_ctx = c, cp_store = s\<rparr>"

definition demo_response :: StoredResponse where
  "demo_response = \<lparr>StatusCode = 201, SRHeader = [(''Content-Type'', [''text/plain''])], SRBody = ''ok''\<rparr>"



definition demo_cw :: "captureWriter" where
  "demo_cw = \<lparr>cw_w = rw_set ''Content-Type'' [''text/plain''] (new_rw None None),
     cw_rec = NewRecorder (maxResponseBody default_config) (storeHeaders default_config), wroteHeader = False\<rparr>"

lemma demo_cw_ops:
  "cw_WriteHeader 201 demo_cw = (False, snd (cw_WriteHeader 201 demo_cw))"
  "cw_Write ''ok'' (snd (cw_WriteHeader 201 demo_cw)) = (None, cp_cw (demo_end () background))"
  by code_simp+

lemma demo_run:
  "run_under_lease default_config demo_handler r c (new_rw None None) s = (False, demo_end s c)"
proof -
  obtain cw1 where 1: "cw_WriteHeader 201 demo_cw = (False, cw1)" "cw_Write ''ok'' cw1 = (None, cp_cw (demo_end s c))"
    using demo_cw_ops by (simp add: demo_end_def)
  have "demo_end s c = \<lparr>cp_cw = cp_cw (demo_end s c), cp_ctx = c, cp_store = s\<rparr>" by (simp add: demo_end_def)
  with 1 show ?thesis by (simp add: run_under_lease_def demo_handler_def cap_step_def demo_cw_def [symmetric])
qed

lemma demo_captured: "StoredResponse_of (cw_rec (cw_finalize (cp_cw (demo_end s c)))) = (demo_response, True)"
  by code_simp
lemma demo_storable: "storable demo_response"
 by (simp add: storable_def demo_response_def in_int64_def wf_header_def ok_entry_def maxHeaderNames_def maxHeaderValues_def)
lemma demo_size: "int (length (MarshalBinary demo_response)) \<le> wrap64 (maxResponseBody default_config + maxStoredResponseOverhead)"
  by code_simp
lemma demo_opts: "leaseTTL (lease_options default_config) = 30000000000" "recordTTL (lease_options default_config) = 86400000000000"
  by code_simp+
lemma demo_persist: "policy default_config (Status (cw_rec (cw_finalize (cp_cw (demo_end s c))))) e = Persist"
  by code_simp
lemma demo_kept_capture: "\<not> void_capture (cp_cw (demo_end s c))"
  by (simp add: void_capture_def demo_end_def bad_code_def NewRecorder_def)
lemma demo_finished: "\<not> finished (cp_ctx (demo_end s (lease_ctx k t opts c)))"
  by (simp add: demo_end_def finished_def lease_ctx_def FinishChannel_def finishedBox_done_def)

lemma demo_Begin: "snd (Begin mem_Store (Inr ''ab'') (ce_begin (demo_env 0)) k fp opts mem_New) =
   \<lparr>recs = [k \<mapsto> reservation_of k fp (EncodeToString ''ab'') opts 0]\<rparr>"
 by (simp add: demo_env_def Begin_def newToken_def begin_loop.simps begin_attempt_def mem_Reserve_def mem_lookup_def mem_New_def)

lemma demo_inv: "mem_inv \<lparr>recs = [k \<mapsto> reservation_of k fp tok opts t]\<rparr>"
  by (simp add: mem_inv_def)

lemma demo_accepted: "accepted default_config demo_request ''k1'' ''x''"
  by code_simp

lemma demo_env_keeps: "env_keeps P (demo_env t)"
  by (simp add: env_keeps_def demo_env_def)

lemma demo_ops: "store_ops_keep P (demo_handler r c)"
  by (simp add: demo_handler_def)

lemma demo_sel [simp]:
  "ce_rnd (demo_env t) = Inr ''ab''" "ce_begin (demo_env t) n = \<lparr>at_between = id, at_deadline = t, at_store = t, at_check = t\<rparr>"
  "ce_before_finish (demo_env t) = id" "ce_finish (demo_env t) = t + 1"
  "wd_w (demo_world s) = new_rw None None" "wd_store (demo_world s) = s" "wd_calls (demo_world s) = []"
  "fresh_rw (new_rw None None)" "cp_store (demo_end s c) = s"
  by (simp_all add: demo_env_def demo_world_def fresh_rw_def new_rw_def demo_end_def)

end
