(* ===== verification/Lease_System.thy ===== *)
theory Lease_System
  imports Core
begin

section \<open>Concurrent clients of one store\<close>

text \<open>
  Any number of clients, in any number of processes, run \<open>Begin\<close> and \<open>Finish\<close> on the same
  store; one step is one store operation (an attempt of \<open>Begin\<close>'s loop, or a \<open>Finish\<close>), so
  every interleaving is a path of \<open>lease_step\<close>. A client may stop for ever after any step,
  anybody may call \<open>Finish\<close> with any key and token, and an operation may fail: before it took
  effect, or after it, with the reply lost (\<open>shaky_store\<close> states what a failing operation may
  do). The store clock only moves forward.

  Ghost state: \<open>sy_owners\<close> the executions that were told to proceed and have not finished, with
  the deadline they were granted; \<open>sy_orphans\<close> the leases of calls that failed, which may have
  been granted or may still be in the store; \<open>sy_results\<close> the responses persisted by an
  execution within its lease, or by a \<open>Finish\<close> whose reply was lost. An execution is named by its
  token: two that drew the same 128 random bits count as one.

  The invariant gives the guarantees of the library: within its lease an execution
  is alone, a persisted response stays the answer for its key until it expires, and a key
  can be claimed again once its deadlines have passed.
\<close>

locale shaky_store = lease_store S sinv sview sclock up grant keep rebuilt
  for S :: "('s, 'e) Store" and sinv sview sclock up grant keep rebuilt +
  fixes shaky :: "'e \<Rightarrow> bool"
  assumes up_shaky: "up e \<Longrightarrow> shaky e"
    and shaky_reserve: "\<lbrakk>sinv s; shaky e; is_reservation r; Reserve S e r s = ((x, err), s')\<rbrakk> \<Longrightarrow>
      (sview (sclock e) s (Key r) = None \<and> (\<forall>er. err = Some er \<longrightarrow> \<not> errors_Is er ErrAlreadyExists) \<and>
       sview (sclock e) s' = live_at (sclock e) ((sview (sclock e) s)(Key r := Some (new_lease r (grant e r))))) \<or>
      (err \<noteq> None \<and> sview (sclock e) s' = sview (sclock e) s)"
    and shaky_complete: "\<lbrakk>sinv s; shaky e; Complete S e k tok p ttl s = (err, s')\<rbrakk> \<Longrightarrow>
      (\<exists>l. held_by (sview (sclock e) s) k tok l \<and>
       sview (sclock e) s' = live_at (sclock e) ((sview (sclock e) s)(k := Some (completed_lease l p (keep e ttl))))) \<or>
      (err \<noteq> None \<and> sview (sclock e) s' = sview (sclock e) s)"
    and shaky_release: "\<lbrakk>sinv s; shaky e; Release S e k tok s = (err, s')\<rbrakk> \<Longrightarrow>
      (\<exists>l. held_by (sview (sclock e) s) k tok l \<and> sview (sclock e) s' = (sview (sclock e) s)(k := None)) \<or>
      (err \<noteq> None \<and> sview (sclock e) s' = sview (sclock e) s)"

record 's sys =
  sy_store :: 's
  sy_clock :: Time
  sy_owners :: "(string \<times> string \<times> bytes \<times> Time) set"
  sy_orphans :: "(string \<times> string \<times> bytes \<times> Time) set"
  sy_results :: "(string \<times> bytes \<times> bytes \<times> Time) set"

definition sys_init :: "'s \<Rightarrow> Time \<Rightarrow> 's sys" where
  "sys_init s t = \<lparr>sy_store = s, sy_clock = t, sy_owners = {}, sy_orphans = {}, sy_results = {}\<rparr>"

definition is_result :: "bytes \<Rightarrow> bytes \<Rightarrow> Time \<Rightarrow> lease \<Rightarrow> bool" where
  "is_result fp p D l \<longleftrightarrow> l_state l = StateCompleted \<and> l_fp l = fp \<and> l_payload l = p \<and> l_deadline l = D"

text \<open>The entries of one execution.\<close>

abbreviation of_exec :: "string \<Rightarrow> string \<Rightarrow> (string \<times> string \<times> bytes \<times> Time) set" where
  "of_exec key tok \<equiv> {x. fst x = key \<and> fst (snd x) = tok}"

inductive lease_step :: "('s, 'e) Store \<Rightarrow> (Time \<Rightarrow> 's \<Rightarrow> view) \<Rightarrow> ('e \<Rightarrow> Time) \<Rightarrow> ('e \<Rightarrow> bool) \<Rightarrow> ('e \<Rightarrow> Record \<Rightarrow> Time) \<Rightarrow>
    ('e \<Rightarrow> Duration \<Rightarrow> Time) \<Rightarrow> 's sys \<Rightarrow> 's sys \<Rightarrow> bool"
  for S :: "('s, 'e) Store" and vw clk ok grant keep where
  step_begin:
    "\<lbrakk>at_between a = id; ok (at_store a); sy_clock st \<le> clk (at_store a);
      begin_attempt S a key fp tok opts n (sy_store st) = (r, s');
      x = (key, tok, fp, grant (at_store a) (reservation_of key fp tok opts (at_deadline a)))\<rbrakk> \<Longrightarrow>
     lease_step S vw clk ok grant keep st (st\<lparr>sy_store := s', sy_clock := clk (at_store a),
       sy_owners := (if r = Return (Inr (proceed_outcome tok)) then insert x (sy_owners st) else sy_owners st),
       sy_orphans := (if \<exists>err. r = Return (Inl err) then insert x (sy_orphans st) else sy_orphans st)\<rparr>)"
| step_finish:
    "\<lbrakk>ok e; sy_clock st \<le> clk e; Finish S e key tok d p opts (sy_store st) = (res, s')\<rbrakk> \<Longrightarrow>
     lease_step S vw clk ok grant keep st (st\<lparr>sy_store := s', sy_clock := clk e,
       sy_owners := sy_owners st - of_exec key tok,
       sy_orphans := (if res = (False, None) then sy_orphans st else sy_orphans st \<union> (sy_owners st \<inter> of_exec key tok)),
       sy_results := sy_results st \<union> {(key, fp, p, keep e (recordTTL opts)) | fp. d = Persist \<and>
         ((res = (False, None) \<and> (\<exists>D. (key, tok, fp, D) \<in> sy_owners st \<and> clk e < D)) \<or>
          (\<exists>l. vw (clk e) s' key = Some l \<and> is_result fp p (keep e (recordTTL opts)) l))}\<rparr>)"
| step_time: "sy_clock st \<le> t \<Longrightarrow> lease_step S vw clk ok grant keep st (st\<lparr>sy_clock := t\<rparr>)"

inductive lease_reachable :: "('s, 'e) Store \<Rightarrow> (Time \<Rightarrow> 's \<Rightarrow> view) \<Rightarrow> ('e \<Rightarrow> Time) \<Rightarrow> ('e \<Rightarrow> bool) \<Rightarrow> ('e \<Rightarrow> Record \<Rightarrow> Time) \<Rightarrow>
    ('e \<Rightarrow> Duration \<Rightarrow> Time) \<Rightarrow> 's sys \<Rightarrow> 's sys \<Rightarrow> bool"
  for S :: "('s, 'e) Store" and vw clk ok grant keep st0 where
  reach_init: "lease_reachable S vw clk ok grant keep st0 st0"
| reach_step: "lease_reachable S vw clk ok grant keep st0 st \<Longrightarrow> lease_step S vw clk ok grant keep st st' \<Longrightarrow>
    lease_reachable S vw clk ok grant keep st0 st'"

lemma lease_reachable_trans:
  assumes "lease_reachable S vw clk ok grant keep st1 st2" "lease_reachable S vw clk ok grant keep st0 st1"
  shows "lease_reachable S vw clk ok grant keep st0 st2"
  using assms by (induction rule: lease_reachable.induct) (auto intro: reach_step)

definition owner_lease :: "string \<Rightarrow> bytes \<Rightarrow> Time \<Rightarrow> lease" where
  "owner_lease tok fp D = \<lparr>l_state = StateReserved, l_token = tok, l_fp = fp, l_payload = [], l_deadline = D\<rparr>"

text \<open>What holds of the store for the ghost state, at an instant.\<close>

definition sys_ok :: "view \<Rightarrow> Time \<Rightarrow> (string \<times> string \<times> bytes \<times> Time) set \<Rightarrow>
    (string \<times> bytes \<times> bytes \<times> Time) set \<Rightarrow> bool" where
  "sys_ok v t owners results \<longleftrightarrow>
     (\<forall>k tok fp D. (k, tok, fp, D) \<in> owners \<longrightarrow> t < D \<longrightarrow> v k = Some (owner_lease tok fp D)) \<and>
     (\<forall>k fp p D. (k, fp, p, D) \<in> results \<longrightarrow> t < D \<longrightarrow> (\<exists>l. v k = Some l \<and> is_result fp p D l))"

lemma owner_lease_sel [simp]:
  "l_state (owner_lease tok fp D) = StateReserved" "l_token (owner_lease tok fp D) = tok"
  "l_fp (owner_lease tok fp D) = fp" "l_deadline (owner_lease tok fp D) = D"
  by (simp_all add: owner_lease_def)

lemma new_lease_owner: "new_lease (reservation_of k fp tok opts now) D = owner_lease tok fp D"
  by (simp add: new_lease_def owner_lease_def)

lemma sys_ok_later:
  assumes "sys_ok v t ow rs" "t \<le> u"
  shows "sys_ok (live_at u v) u ow rs"
  unfolding sys_ok_def
proof (intro conjI allI impI)
  fix k tok fp D
  assume "(k, tok, fp, D) \<in> ow" "u < D"
  then show "live_at u v k = Some (owner_lease tok fp D)"
    using assms by (auto simp: sys_ok_def live_at_def)
next
  fix k fp p D
  assume "(k, fp, p, D) \<in> rs" "u < D"
  moreover from this have "t < D" using assms(2) by simp
  ultimately obtain l where "v k = Some l" "is_result fp p D l" using assms(1) unfolding sys_ok_def by blast
  then show "\<exists>l. live_at u v k = Some l \<and> is_result fp p D l"
    using \<open>u < D\<close> by (auto simp: live_at_def is_result_def)
qed

lemma sys_ok_claim:
  assumes "sys_ok v t ow rs" "v key = None"
  shows "sys_ok (live_at t (v(key := Some (owner_lease tok fp D)))) t (insert (key, tok, fp, D) ow) rs"
proof -
  have ow: "k \<noteq> key" if "(k, tok', fp', D') \<in> ow" "t < D'" for k tok' fp' D'
    using that assms by (auto simp: sys_ok_def)
  have rs: "k \<noteq> key" if "(k, fp', p', D') \<in> rs" "t < D'" for k fp' p' D'
    using that assms unfolding sys_ok_def by (metis option.distinct(1))
  show ?thesis
    using sys_ok_later [OF assms(1) order_refl] ow rs
    by (auto simp: sys_ok_def live_at_upd_Some)
qed

lemma sys_ok_finish:
  assumes "sys_ok v t ow rs" "\<And>l. v key = Some l \<Longrightarrow> l_state l = StateReserved \<and> l_token l = tok"
    and v': "v' = v(key := x)"
    and new: "\<And>fp p D. (key, fp, p, D) \<in> rs' \<Longrightarrow> t < D \<Longrightarrow> \<exists>l. x = Some l \<and> is_result fp p D l"
    and keys: "\<And>k fp p D. (k, fp, p, D) \<in> rs' \<Longrightarrow> k = key"
  shows "sys_ok v' t (ow - of_exec key tok) (rs \<union> rs')"
proof -
  have ow: "k \<noteq> key" if "(k, tok', fp', D') \<in> ow" "t < D'" "tok' \<noteq> tok \<or> k \<noteq> key" for k tok' fp' D'
    using that assms(1,2) by (fastforce simp: sys_ok_def)
  have rs: "k \<noteq> key" if "(k, fp', p', D') \<in> rs" "t < D'" for k fp' p' D'
  proof
    assume "k = key"
    with that assms(1) obtain l where "v key = Some l" "is_result fp' p' D' l" unfolding sys_ok_def by blast
    with assms(2) show False by (auto simp: is_result_def)
  qed
  show ?thesis
    unfolding sys_ok_def
  proof (intro conjI allI impI)
    fix k tok' fp' D'
    assume "(k, tok', fp', D') \<in> ow - of_exec key tok" "t < D'"
    then show "v' k = Some (owner_lease tok' fp' D')"
      using ow assms(1) by (auto simp: v' sys_ok_def)
  next
    fix k fp' p' D'
    assume r: "(k, fp', p', D') \<in> rs \<union> rs'" "t < D'"
    show "\<exists>l. v' k = Some l \<and> is_result fp' p' D' l"
    proof (cases "(k, fp', p', D') \<in> rs")
      case True
      then show ?thesis using rs r(2) assms(1) by (simp add: v' sys_ok_def)
    next
      case False
      then show ?thesis using r new keys by (auto simp: v')
    qed
  qed
qed

lemma sys_ok_shown:
  assumes "sys_ok v t ow rs" "ow' \<subseteq> ow" "\<And>k fp p D. (k, fp, p, D) \<in> rs' \<Longrightarrow> \<exists>l. v k = Some l \<and> is_result fp p D l"
  shows "sys_ok v t ow' (rs \<union> rs')"
  unfolding sys_ok_def
proof (intro conjI allI impI)
  fix k tok fp D
  assume "(k, tok, fp, D) \<in> ow'" "t < D"
  then show "v k = Some (owner_lease tok fp D)" using assms(1,2) unfolding sys_ok_def by blast
next
  fix k fp p D
  assume "(k, fp, p, D) \<in> rs \<union> rs'" "t < D"
  then show "\<exists>l. v k = Some l \<and> is_result fp p D l" using assms(1,3) unfolding sys_ok_def by blast
qed

subsection \<open>The guarantees\<close>

text \<open>Two executions of one key that are both within their leases are the same execution.\<close>

definition one_execution :: "'s sys \<Rightarrow> bool" where
  "one_execution st \<longleftrightarrow> (\<forall>k tok fp D tok' fp' D'.
     (k, tok, fp, D) \<in> sy_owners st \<and> sy_clock st < D \<and> (k, tok', fp', D') \<in> sy_owners st \<and> sy_clock st < D' \<longrightarrow>
     tok' = tok \<and> fp' = fp \<and> D' = D)"

text \<open>
  Until it expires, a response persisted within its lease is what the store holds for its
  key, it is the only one, and no execution of the key is within a lease.
\<close>

definition answers_final :: "view \<Rightarrow> 's sys \<Rightarrow> bool" where
  "answers_final v st \<longleftrightarrow> (\<forall>k fp p D. (k, fp, p, D) \<in> sy_results st \<and> sy_clock st < D \<longrightarrow>
     (\<exists>l. v k = Some l \<and> is_result fp p D l) \<and>
     (\<forall>fp' p' D'. (k, fp', p', D') \<in> sy_results st \<and> sy_clock st < D' \<longrightarrow> fp' = fp \<and> p' = p \<and> D' = D) \<and>
     (\<forall>tok fp' D'. (k, tok, fp', D') \<in> sy_owners st \<longrightarrow> D' \<le> sy_clock st))"

lemma sys_ok_guarantees:
  assumes "sys_ok v (sy_clock st) (sy_owners st) (sy_results st)"
  shows "one_execution st \<and> answers_final v st"
proof
  have "Some (owner_lease tok fp D) = Some (owner_lease tok' fp' D')"
    if "(k, tok, fp, D) \<in> sy_owners st" "sy_clock st < D" "(k, tok', fp', D') \<in> sy_owners st" "sy_clock st < D'" for k tok fp D tok' fp' D'
    using assms that unfolding sys_ok_def by metis
  then show "one_execution st" unfolding one_execution_def by (simp add: owner_lease_def) blast
  have l: "\<exists>l. v k = Some l \<and> is_result fp p D l" if "(k, fp, p, D) \<in> sy_results st" "sy_clock st < D" for k fp p D
    using assms that unfolding sys_ok_def by blast
  moreover have "fp' = fp \<and> p' = p \<and> D' = D"
    if "(k, fp, p, D) \<in> sy_results st" "sy_clock st < D" "(k, fp', p', D') \<in> sy_results st" "sy_clock st < D'" for k fp p D fp' p' D'
    using l [OF that(1,2)] l [OF that(3,4)] by (auto simp: is_result_def)
  moreover have "D' \<le> sy_clock st"
    if "(k, fp, p, D) \<in> sy_results st" "sy_clock st < D" "(k, tok, fp', D') \<in> sy_owners st" for k fp p D tok fp' D'
  proof (rule ccontr)
    assume "\<not> D' \<le> sy_clock st"
    then have "v k = Some (owner_lease tok fp' D')" using assms that(3) by (simp add: sys_ok_def)
    with l [OF that(1,2)] show False by (auto simp: is_result_def)
  qed
  ultimately show "answers_final v st" unfolding answers_final_def by blast
qed

text \<open>
  The other direction: every live record belongs to an unfinished execution, to a call that
  failed, or is a persisted response, so that the deadlines of a key are those of its
  executions, failed calls and responses.
\<close>

definition accounted :: "view \<Rightarrow> (string \<times> string \<times> bytes \<times> Time) set \<Rightarrow> (string \<times> bytes \<times> bytes \<times> Time) set \<Rightarrow> bool" where
  "accounted v owners results \<longleftrightarrow> (\<forall>k l. v k = Some l \<longrightarrow>
     (l_state l = StateReserved \<and> (k, l_token l, l_fp l, l_deadline l) \<in> owners) \<or>
     (l_state l = StateCompleted \<and> (k, l_fp l, l_payload l, l_deadline l) \<in> results))"

definition deadlines :: "'s sys \<Rightarrow> string \<Rightarrow> Time set" where
  "deadlines st k = {D. (\<exists>tok fp. (k, tok, fp, D) \<in> sy_owners st \<union> sy_orphans st) \<or> (\<exists>fp p. (k, fp, p, D) \<in> sy_results st)}"

lemma accountedD:
  "accounted v ow rs \<Longrightarrow> v k = Some l \<Longrightarrow> (l_state l = StateReserved \<and> (k, l_token l, l_fp l, l_deadline l) \<in> ow) \<or>
     (l_state l = StateCompleted \<and> (k, l_fp l, l_payload l, l_deadline l) \<in> rs)"
  by (simp add: accounted_def)

lemma accounted_mono: "accounted v ow rs \<Longrightarrow> ow \<subseteq> ow' \<Longrightarrow> rs \<subseteq> rs' \<Longrightarrow> accounted v ow' rs'"
  unfolding accounted_def by blast

lemma accounted_later: "accounted v ow rs \<Longrightarrow> accounted (live_at u v) ow rs"
  by (auto simp: accounted_def live_at_def split: option.splits if_splits)

lemma accounted_claim: "accounted v ow rs \<Longrightarrow> accounted (live_at t (v(key := Some (owner_lease tok fp D)))) (insert (key, tok, fp, D) ow) rs"
  by (rule accounted_later) (auto simp: accounted_def)

lemma accounted_finish:
  assumes "accounted v ow rs" "\<And>l. x = Some l \<Longrightarrow> l_state l = StateCompleted \<and> (key, l_fp l, l_payload l, l_deadline l) \<in> rs'"
  shows "accounted (v(key := x)) (ow - of_exec key tok) (rs \<union> rs')"
  using assms by (auto simp: accounted_def)

subsection \<open>The invariant, over the contract\<close>

locale lease_clients = shaky_store
begin

text \<open>What one attempt of \<open>Begin\<close> does, told to proceed or not, with its reply or without it.\<close>

lemma attempt_shaky:
  assumes "sinv s" "at_between a = id" "shaky (at_store a)" "begin_attempt S a key fp tok opts n s = (r, s')"
  defines "t \<equiv> sclock (at_store a)"
  obtains (claimed) "sview t s key = None" "r = Return (Inr (proceed_outcome tok)) \<or> (\<exists>err. r = Return (Inl err))"
      "sview t s' = live_at t ((sview t s)(key := Some (owner_lease tok fp (grant (at_store a) (reservation_of key fp tok opts (at_deadline a))))))"
    | (unchanged) "r \<noteq> Return (Inr (proceed_outcome tok))" "sview t s' = sview t s"
proof -
  let ?r = "reservation_of key fp tok opts (at_deadline a)"
  obtain x err where R: "Reserve S (at_store a) ?r s = ((x, err), s')"
    using assms(2,4) by (auto simp: begin_attempt_def split: prod.splits option.splits if_splits)
  from shaky_reserve [OF assms(1,3) is_reservation_reservation_of R] show thesis
  proof
    assume "sview (sclock (at_store a)) s (Key ?r) = None \<and> (\<forall>er. err = Some er \<longrightarrow> \<not> errors_Is er ErrAlreadyExists) \<and>
      sview (sclock (at_store a)) s' = live_at (sclock (at_store a)) ((sview (sclock (at_store a)) s)(Key ?r := Some (new_lease ?r (grant (at_store a) ?r))))"
    moreover from this have "r = Return (Inr (proceed_outcome tok)) \<or> (\<exists>err. r = Return (Inl err))"
      using assms(2,4) R by (auto simp: begin_attempt_def split: option.splits)
    ultimately show thesis by (intro claimed) (simp_all add: t_def new_lease_owner)
  next
    assume "err \<noteq> None \<and> sview (sclock (at_store a)) s' = sview (sclock (at_store a)) s"
    moreover from this have "r \<noteq> Return (Inr (proceed_outcome tok))"
      using assms(2,4) R by (auto simp: begin_attempt_def on_existing_def split: option.splits if_splits)
    ultimately show thesis by (intro unchanged) (simp_all add: t_def)
  qed
qed

text \<open>What one \<open>Finish\<close> does: it frees or completes a key that its token holds, or changes nothing and says so.\<close>

lemma finish_shaky:
  assumes "sinv s" "shaky e" "Finish S e key tok d p opts s = (res, s')"
  defines "t \<equiv> sclock e"
  obtains (took) l x where "held_by (sview t s) key tok l" "sview t s' = (sview t s)(key := x)"
      "x = (if d = Persist \<and> t < keep e (recordTTL opts) then Some (completed_lease l p (keep e (recordTTL opts))) else None)"
    | (unchanged) "res \<noteq> (False, None)" "sview t s' = sview t s"
proof (cases "d = Persist \<or> d = Discard")
  case True
  obtain err s1 where C: "(if d = Persist then Complete S e key tok p (recordTTL opts) s else Release S e key tok s) = (err, s1)"
    by (meson surj_pair)
  have s1: "s1 = s'" and res: "res = (if lost_error err then (True, None) else (False, err))"
    using Finish_cases [OF True C] assms(3) by simp_all
  have "(\<exists>l. held_by (sview t s) key tok l \<and> sview t s' = (sview t s)(key := (if d = Persist \<and> t < keep e (recordTTL opts)
      then Some (completed_lease l p (keep e (recordTTL opts))) else None))) \<or> (err \<noteq> None \<and> sview t s' = sview t s)"
  proof (cases "d = Persist")
    case True
    then have "Complete S e key tok p (recordTTL opts) s = (err, s')" using C s1 by simp
    from shaky_complete [OF assms(1,2) this] show ?thesis
      using True view_later [OF assms(1) order_refl, of "sclock e"] by (simp add: t_def live_at_upd_Some)
  next
    case False
    then have "Release S e key tok s = (err, s')" using C s1 by simp
    from shaky_release [OF assms(1,2) this] show ?thesis using False by (simp add: t_def)
  qed
  then show thesis
  proof
    assume "err \<noteq> None \<and> sview t s' = sview t s"
    then show thesis using unchanged res by simp
  qed (use took in blast)
next
  case False
  then show thesis using assms(3) by (intro unchanged) (auto simp: Finish_def)
qed

lemma step_keeps:
  assumes "lease_step S sview sclock shaky grant keep st st'"
    and inv: "sinv (sy_store st)"
    and ok: "sys_ok (sview (sy_clock st) (sy_store st)) (sy_clock st) (sy_owners st) (sy_results st)"
  shows "sinv (sy_store st') \<and>
    sys_ok (sview (sy_clock st') (sy_store st')) (sy_clock st') (sy_owners st') (sy_results st')"
  using assms(1)
proof cases
  case (step_begin a key fp tok opts n r s' x)
  let ?t = "sclock (at_store a)"
  have pre: "sys_ok (sview ?t (sy_store st)) ?t (sy_owners st) (sy_results st)"
    using sys_ok_later [OF ok step_begin(4)] by (simp add: view_later [OF inv step_begin(4)])
  have inv': "sinv s'" using attempt_inv [OF _ step_begin(5)] inv step_begin(2) by simp
  from inv step_begin(2,3,5) show ?thesis
  proof (cases rule: attempt_shaky)
    case claimed
    have c: "sys_ok (sview ?t s') ?t (insert x (sy_owners st)) (sy_results st)"
      using sys_ok_claim [OF pre claimed(1)] unfolding claimed(3) step_begin(6) .
    then have "sys_ok (sview ?t s') ?t (sy_owners st) (sy_results st)"
      using sys_ok_shown [OF c, of "sy_owners st" "{}"] by auto
    with c show ?thesis unfolding step_begin(1) using inv' by simp
  next
    case unchanged
    then show ?thesis using inv' pre unfolding step_begin(1) by simp
  qed
next
  case (step_finish e key tok d p opts res s')
  let ?v = "sview (sclock e) (sy_store st)"
  let ?rs = "{(key, fp, p, keep e (recordTTL opts)) | fp. d = Persist \<and>
         ((res = (False, None) \<and> (\<exists>D. (key, tok, fp, D) \<in> sy_owners st \<and> sclock e < D)) \<or>
          (\<exists>l. sview (sclock e) s' key = Some l \<and> is_result fp p (keep e (recordTTL opts)) l))}"
  have pre: "sys_ok ?v (sclock e) (sy_owners st) (sy_results st)"
    using sys_ok_later [OF ok step_finish(3)] by (simp add: view_later [OF inv step_finish(3)])
  have "sys_ok (sview (sclock e) s') (sclock e) (sy_owners st - of_exec key tok) (sy_results st \<union> ?rs)"
    using inv step_finish(2,4)
  proof (cases rule: finish_shaky)
    case (took l x)
    have h: "?v key = Some l" "l_state l = StateReserved" "l_token l = tok" using took(1) by (simp_all add: held_by_def)
    have fp: "l_fp l = fp" if "(key, tok, fp, D) \<in> sy_owners st" "sclock e < D" for fp D
      using that pre h(1) by (auto simp: sys_ok_def)
    show ?thesis
      by (rule sys_ok_finish [OF pre _ took(2)]) (use h in \<open>auto simp: is_result_def took(2,3) fp split: if_splits\<close>)
  next
    case unchanged
    show ?thesis unfolding unchanged(2) by (rule sys_ok_shown [OF pre]) (use unchanged in auto)
  qed
  moreover have "sinv s'" using Finish_inv [OF inv, of e key tok d p opts] step_finish(4) by simp
  ultimately show ?thesis unfolding step_finish(1) by simp
next
  case (step_time t)
  then show ?thesis
    using inv sys_ok_later [OF ok step_time(2)] view_later [OF inv step_time(2)] by simp
qed

lemma reachable_ok:
  assumes "lease_reachable S sview sclock shaky grant keep (sys_init s t) st" "sinv s"
  shows "sinv (sy_store st) \<and> sys_ok (sview (sy_clock st) (sy_store st)) (sy_clock st) (sy_owners st) (sy_results st)"
  using assms(1)
proof induction
  case reach_init
  then show ?case using assms(2) by (simp add: sys_init_def sys_ok_def)
next
  case (reach_step st st')
  then show ?case using step_keeps by blast
qed

text \<open>On a store that was empty at first, every live record is accounted for.\<close>

lemma step_accounts:
  assumes "lease_step S sview sclock shaky grant keep st st'"
    and inv: "sinv (sy_store st)"
    and acc: "accounted (sview (sy_clock st) (sy_store st)) (sy_owners st \<union> sy_orphans st) (sy_results st)"
  shows "accounted (sview (sy_clock st') (sy_store st')) (sy_owners st' \<union> sy_orphans st') (sy_results st')"
  using assms(1)
proof cases
  case (step_begin a key fp tok opts n r s' x)
  let ?t = "sclock (at_store a)"
  have pre: "accounted (sview ?t (sy_store st)) (sy_owners st \<union> sy_orphans st) (sy_results st)"
    using accounted_later [OF acc, of ?t] by (simp add: view_later [OF inv step_begin(4)])
  from inv step_begin(2,3,5) show ?thesis
  proof (cases rule: attempt_shaky)
    case claimed
    have "accounted (sview ?t s') (insert x (sy_owners st \<union> sy_orphans st)) (sy_results st)"
      using accounted_claim [OF pre] unfolding claimed(3) step_begin(6) .
    then show ?thesis using claimed(2) unfolding step_begin(1) by auto
  next
    case unchanged
    have "accounted (sview ?t s') (sy_owners st \<union> sy_orphans st) (sy_results st)" using pre unchanged(2) by simp
    moreover from this have "accounted (sview ?t s') (insert x (sy_owners st \<union> sy_orphans st)) (sy_results st)"
      by (elim accounted_mono) auto
    ultimately show ?thesis unfolding step_begin(1) by auto
  qed
next
  case (step_finish e key tok d p opts res s')
  let ?ow = "sy_owners st \<union> sy_orphans st"
  let ?rs = "{(key, fp, p, keep e (recordTTL opts)) | fp. d = Persist \<and>
         ((res = (False, None) \<and> (\<exists>D. (key, tok, fp, D) \<in> sy_owners st \<and> sclock e < D)) \<or>
          (\<exists>l. sview (sclock e) s' key = Some l \<and> is_result fp p (keep e (recordTTL opts)) l))}"
  have pre: "accounted (sview (sclock e) (sy_store st)) ?ow (sy_results st)"
    using accounted_later [OF acc, of "sclock e"] by (simp add: view_later [OF inv step_finish(3)])
  let ?left = "(sy_owners st - of_exec key tok) \<union>
    (if res = (False, None) then sy_orphans st else sy_orphans st \<union> (sy_owners st \<inter> of_exec key tok))"
  have "accounted (sview (sclock e) s') ?left (sy_results st \<union> ?rs)"
    using inv step_finish(2,4)
  proof (cases rule: finish_shaky)
    case (took l x)
    have "accounted (sview (sclock e) s') (?ow - of_exec key tok) (sy_results st \<union> ?rs)"
      unfolding took(2) by (rule accounted_finish [OF pre]) (auto simp: took(3) is_result_def split: if_splits)
    then show ?thesis by (rule accounted_mono) auto
  next
    case unchanged
    have left: "?ow \<subseteq> ?left" using unchanged(1) by auto
    show ?thesis unfolding unchanged(2) by (rule accounted_mono [OF pre left]) auto
  qed
  then show ?thesis unfolding step_finish(1) by simp
next
  case (step_time t)
  then show ?thesis using accounted_later [OF acc, of t] view_later [OF inv step_time(2)] by simp
qed

lemma reachable_accounts:
  assumes "lease_reachable S sview sclock shaky grant keep (sys_init s t) st" "sinv s" "\<And>k. sview t s k = None"
  shows "accounted (sview (sy_clock st) (sy_store st)) (sy_owners st \<union> sy_orphans st) (sy_results st)"
  using assms(1)
proof induction
  case reach_init
  then show ?case using assms(3) by (simp add: sys_init_def accounted_def)
next
  case (reach_step st st')
  then show ?case using step_accounts reachable_ok [OF reach_step.hyps(1) assms(2)] by blast
qed

text \<open>Whatever the clients did, and wherever they stopped, a key can be claimed again.\<close>

lemma comes_back:
  assumes "lease_reachable S sview sclock shaky grant keep (sys_init s t) st" "sinv s" "\<And>k. sview t s k = None"
  shows "\<exists>T. (T = sy_clock st \<or> T \<in> deadlines st k) \<and>
    (\<forall>b env fp opts. at_between (env 1) = id \<and> up (at_store (env 1)) \<and> T \<le> sclock (at_store (env 1)) \<longrightarrow>
      fst (Begin S (Inr b) env k fp opts (sy_store st)) = Inr (proceed_outcome (EncodeToString b)))"
proof -
  have inv: "sinv (sy_store st)" using reachable_ok [OF assms(1,2)] by blast
  have free: "fst (Begin S (Inr b) env k fp opts (sy_store st)) = Inr (proceed_outcome (EncodeToString b))"
    if "at_between (env 1) = id" "up (at_store (env 1))" "sview (sclock (at_store (env 1))) (sy_store st) k = None" for b env fp opts
  proof -
    obtain res s' where B: "Begin S (Inr b) env k fp opts (sy_store st) = (res, s')" by (meson surj_pair)
    from Begin_first [OF _ _ order_refl _ B] that inv B show ?thesis by simp
  qed
  show ?thesis
  proof (cases "sview (sy_clock st) (sy_store st) k")
    case None
    then have "sview u (sy_store st) k = None" if "sy_clock st \<le> u" for u
      using view_later [OF inv that] by (simp add: live_at_def)
    with free show ?thesis by (intro exI [of _ "sy_clock st"]) blast
  next
    case (Some l)
    have "l_deadline l \<in> deadlines st k"
      using accountedD [OF reachable_accounts [OF assms] Some] by (auto simp: deadlines_def)
    moreover have "sview u (sy_store st) k = None" if "l_deadline l \<le> u" for u
      using view_later [OF inv, of "sy_clock st" u] view_known [OF inv, of "sy_clock st" k l] Some that by (simp add: live_at_def)
    ultimately show ?thesis using free by (intro exI [of _ "l_deadline l"]) blast
  qed
qed

theorem guarantees:
  assumes "lease_reachable S sview sclock shaky grant keep (sys_init s t) st" "sinv s"
  shows "one_execution st \<and> answers_final (sview (sy_clock st) (sy_store st)) st"
  using sys_ok_guarantees reachable_ok [OF assms] by blast

text \<open>A free key can be claimed and its response persisted: the ghost state is not vacuous.\<close>

lemma can_start:
  assumes "sinv s" "up e" "sclock e = t" "sview t s k = None"
  obtains s' where "lease_reachable S sview sclock shaky grant keep (sys_init s t)
      \<lparr>sy_store = s', sy_clock = t, sy_owners = {(k, tok, fp, grant e (reservation_of k fp tok opts d))},
       sy_orphans = {}, sy_results = {}\<rparr>"
    "sinv s'" "sview t s' = live_at t ((sview t s)(k := Some (owner_lease tok fp (grant e (reservation_of k fp tok opts d)))))"
proof -
  let ?a = "\<lparr>at_between = id, at_deadline = d, at_store = e, at_check = d\<rparr> :: ('a, 'b) attempt_env"
  obtain r s' where A: "begin_attempt S ?a k fp tok opts 1 s = (r, s')" by (meson surj_pair)
  note c = attempt_claims [of ?a s k fp tok opts 1 r s' t] attempt_inv [of ?a s, OF _ A]
  have r: "r = Return (Inr (proceed_outcome tok))" using c(1) A assms by simp
  have "lease_step S sview sclock shaky grant keep (sys_init s t) \<lparr>sy_store = s', sy_clock = t,
      sy_owners = {(k, tok, fp, grant e (reservation_of k fp tok opts d))}, sy_orphans = {}, sy_results = {}\<rparr>"
    using step_begin [of ?a shaky "sys_init s t" sclock S k fp tok opts 1 r s' _ grant sview keep] A assms up_shaky
    by (simp add: r sys_init_def)
  from reach_step [OF reach_init this] show thesis
    using that [of s'] c A assms by (simp add: new_lease_owner)
qed

lemma can_persist:
  assumes "sinv s" "up e" "sclock e = t" "sview t s k = None" "t < grant e (reservation_of k fp tok opts d)"
  obtains s' where "lease_reachable S sview sclock shaky grant keep (sys_init s t)
      \<lparr>sy_store = s', sy_clock = t, sy_owners = {}, sy_orphans = {}, sy_results = {(k, fp, p, keep e (recordTTL opts))}\<rparr>"
proof -
  let ?D = "grant e (reservation_of k fp tok opts d)"
  obtain s1 where 1: "lease_reachable S sview sclock shaky grant keep (sys_init s t)
      \<lparr>sy_store = s1, sy_clock = t, sy_owners = {(k, tok, fp, ?D)}, sy_orphans = {}, sy_results = {}\<rparr>"
    and inv: "sinv s1" and v: "sview t s1 = live_at t ((sview t s)(k := Some (owner_lease tok fp ?D)))"
    by (rule can_start [OF assms(1-4)])
  let ?st = "\<lparr>sy_store = s1, sy_clock = t, sy_owners = {(k, tok, fp, ?D)}, sy_orphans = {}, sy_results = {}\<rparr>"
  obtain res s2 where F: "Finish S e k tok Persist p opts s1 = (res, s2)" by (meson surj_pair)
  have "held_by (sview (sclock e) s1) k tok (owner_lease tok fp ?D)"
    using assms(3,5) v by (simp add: held_by_def live_at_upd_Some)
  note f = finish_persists [OF inv assms(2) this order_refl F]
  have "{(k, fp', p, keep e (recordTTL opts)) | fp'. Persist = Persist \<and>
      ((res = (False, None) \<and> (\<exists>D. (k, tok, fp', D) \<in> sy_owners ?st \<and> sclock e < D)) \<or>
       (\<exists>l. sview (sclock e) s2 k = Some l \<and> is_result fp' p (keep e (recordTTL opts)) l))} = {(k, fp, p, keep e (recordTTL opts))}"
    using assms(3,5) f(1,3) by (auto simp: is_result_def live_at_def split: if_splits)
  then have "lease_step S sview sclock shaky grant keep ?st \<lparr>sy_store = s2, sy_clock = t, sy_owners = {},
      sy_orphans = {}, sy_results = {(k, fp, p, keep e (recordTTL opts))}\<rparr>"
    using step_finish [of shaky e ?st sclock S k tok Persist p opts res s2 sview grant keep] up_shaky [OF assms(2)] assms(3) F f(1)
    by simp
  from reach_step [OF 1 this] that show thesis by blast
qed

end

end
