(* ===== verification/Lease_Calls.thy ===== *)
theory Lease_Calls
  imports Lease_System
begin

section \<open>Calls as paths of the concurrent system\<close>

text \<open>
  \<open>Begin\<close> and \<open>Finish\<close> as the front ends call them, with what other clients do in between, are
  paths of \<open>lease_step\<close>. \<open>R\<close> stands for the reachability of such a system. What others do up to
  an instant is a function of the store that some path computes (\<open>activity\<close>); a whole call is
  again such a path, and when \<open>Begin\<close> returns its execution is an owner of the key, at the instant and
  with the deadline of the reservation that was granted.
\<close>

type_synonym 's paths = "'s sys \<Rightarrow> 's sys \<Rightarrow> bool"

definition activity :: "'s paths \<Rightarrow> Time \<Rightarrow> ('s \<Rightarrow> 's) \<Rightarrow> bool" where
  "activity R t f \<longleftrightarrow> (\<forall>st. sy_clock st \<le> t \<longrightarrow> (\<exists>st'. R st st' \<and> sy_store st' = f (sy_store st) \<and> sy_clock st' \<le> t))"

text \<open>A store that a path from \<open>st\<close> reaches by an instant.\<close>

definition reached :: "'s paths \<Rightarrow> 's sys \<Rightarrow> Time \<Rightarrow> 's \<Rightarrow> bool" where
  "reached R st t s \<longleftrightarrow> (\<exists>st'. R st st' \<and> sy_store st' = s \<and> sy_clock st' \<le> t)"

text \<open>The environment of \<open>Begin\<close>: the attempts one after the other, other clients active before each.\<close>

definition begin_timeline :: "'s paths \<Rightarrow> ('e \<Rightarrow> Time) \<Rightarrow> ('e \<Rightarrow> bool) \<Rightarrow> Time \<Rightarrow> (nat \<Rightarrow> ('s, 'e) attempt_env) \<Rightarrow> bool" where
  "begin_timeline R clk ok t env \<longleftrightarrow> (\<forall>n. ok (at_store (env n)) \<and> clk (at_store (env n)) \<le> t \<and>
     clk (at_store (env n)) \<le> clk (at_store (env (Suc n))) \<and> activity R (clk (at_store (env n))) (at_between (env n)))"

lemma activity_reached:
  "activity R t f \<Longrightarrow> transp R \<Longrightarrow> reached R st t s \<Longrightarrow> reached R st t (f s)"
  unfolding activity_def reached_def by (metis transpD)

lemma reached_mono: "reached R st t s \<Longrightarrow> t \<le> u \<Longrightarrow> reached R st u s"
  unfolding reached_def by (auto intro: order_trans)

lemma transp_lease_reachable: "transp (lease_reachable S vw clk ok grant keep)"
  by (rule transpI) (blast intro: lease_reachable_trans)

lemma activity_id: "activity (lease_reachable S vw clk ok grant keep) t id"
  unfolding activity_def by (auto intro: reach_init)

lemma activity_comp:
  fixes R :: "'s paths"
  assumes "transp R" "activity R t f" "activity R t g"
  shows "activity R t (g \<circ> f)"
  unfolding activity_def
proof (intro allI impI)
  fix st :: "'s sys"
  assume "sy_clock st \<le> t"
  then obtain st1 where 1: "R st st1" "sy_store st1 = f (sy_store st)" "sy_clock st1 \<le> t"
    using assms(2) unfolding activity_def by blast
  then obtain st2 where "R st1 st2" "sy_store st2 = g (sy_store st1)" "sy_clock st2 \<le> t"
    using assms(3) unfolding activity_def by blast
  with 1 show "\<exists>st'. R st st' \<and> sy_store st' = (g \<circ> f) (sy_store st) \<and> sy_clock st' \<le> t"
    using transpD [OF assms(1)] by (intro exI [of _ st2]) auto
qed

subsection \<open>One attempt\<close>

lemma begin_attempt_after:
  "begin_attempt S a key fp tok opts n s = begin_attempt S (a\<lparr>at_between := id\<rparr>) key fp tok opts n (at_between a s)"
  by (simp add: begin_attempt_def split: prod.split option.split)

lemma attempt_path:
  fixes S :: "('s, 'e) Store" and vw clk ok grant keep
  defines "R \<equiv> lease_reachable S vw clk ok grant keep"
  assumes "reached R st0 (clk (at_store a)) s" "ok (at_store a)" "activity R (clk (at_store a)) (at_between a)"
    and A: "begin_attempt S a key fp tok opts n s = (r, s')"
  obtains st where "R st0 st" "sy_store st = s'" "sy_clock st = clk (at_store a)"
    "r = Return (Inr (proceed_outcome tok)) \<Longrightarrow>
      (key, tok, fp, grant (at_store a) (reservation_of key fp tok opts (at_deadline a))) \<in> sy_owners st"
proof -
  obtain st1 where st1: "R st0 st1" "sy_store st1 = at_between a s" "sy_clock st1 \<le> clk (at_store a)"
    using activity_reached [OF assms(4) _ assms(2)] transp_lease_reachable unfolding R_def reached_def by blast
  let ?a = "a\<lparr>at_between := id\<rparr>"
  let ?x = "(key, tok, fp, grant (at_store a) (reservation_of key fp tok opts (at_deadline a)))"
  let ?st = "st1\<lparr>sy_store := s', sy_clock := clk (at_store a),
       sy_owners := (if r = Return (Inr (proceed_outcome tok)) then insert ?x (sy_owners st1) else sy_owners st1),
       sy_orphans := (if \<exists>err. r = Return (Inl err) then insert ?x (sy_orphans st1) else sy_orphans st1)\<rparr>"
  have "lease_step S vw clk ok grant keep st1 ?st"
    using step_begin [of ?a ok st1 clk S key fp tok opts n r s' ?x grant vw keep] A assms(3) st1(2,3)
    by (simp add: begin_attempt_after [of S a])
  then have "R st0 ?st" using st1(1) unfolding R_def by (rule reach_step [rotated])
  from that [OF this] show thesis by auto
qed

subsection \<open>Begin\<close>

text \<open>
  The execution \<open>tok\<close> owns the key, at the instant of one of the attempts of \<open>Begin\<close> and until the
  deadline the store grants to the reservation of that attempt.
\<close>

definition just_granted :: "('e \<Rightarrow> Time) \<Rightarrow> ('e \<Rightarrow> Record \<Rightarrow> Time) \<Rightarrow> (nat \<Rightarrow> ('s, 'e) attempt_env) \<Rightarrow> Options \<Rightarrow> 's sys \<Rightarrow>
    string \<Rightarrow> string \<Rightarrow> bytes \<Rightarrow> bool" where
  "just_granted clk grant env opts st key tok fp \<longleftrightarrow> (\<exists>n. sy_clock st = clk (at_store (env n)) \<and>
     (key, tok, fp, grant (at_store (env n)) (reservation_of key fp tok opts (at_deadline (env n)))) \<in> sy_owners st)"

lemma begin_loop_path:
  fixes S :: "('s, 'e) Store" and vw clk ok grant keep
  defines "R \<equiv> lease_reachable S vw clk ok grant keep"
  assumes env: "begin_timeline R clk ok t env"
  shows "reached R st0 (clk (at_store (env n))) s \<Longrightarrow> begin_loop S env key fp tok opts n s = (res, s') \<Longrightarrow>
    \<exists>st. R st0 st \<and> sy_store st = s' \<and> sy_clock st \<le> t \<and>
      (\<forall>out. res = Inr out \<and> Action out = Proceed \<longrightarrow> OutToken out = tok \<and> just_granted clk grant env opts st key tok fp)"
proof (induction "maxAttempts - n" arbitrary: n s rule: less_induct)
  case less
  obtain q s1 where A: "begin_attempt S (env n) key fp tok opts n s = (q, s1)" by (meson surj_pair)
  have e: "ok (at_store (env n))" "clk (at_store (env n)) \<le> t" "clk (at_store (env n)) \<le> clk (at_store (env (Suc n)))"
    "activity R (clk (at_store (env n))) (at_between (env n))"
    using env by (simp_all add: begin_timeline_def)
  obtain st where st: "R st0 st" "sy_store st = s1" "sy_clock st = clk (at_store (env n))"
    "q = Return (Inr (proceed_outcome tok)) \<Longrightarrow> just_granted clk grant env opts st key tok fp"
    using attempt_path [OF less.prems(1) [unfolded R_def] e(1) e(4) [unfolded R_def] A] unfolding R_def just_granted_def by blast
  show ?case
  proof (cases q)
    case (Return x)
    then have r: "res = x" "s' = s1" using less.prems(2) A by (simp_all add: begin_loop.simps [of S env key fp tok opts n s])
    have "out = proceed_outcome tok" if "x = Inr out" "Action out = Proceed" for out
      using begin_attempt_Proceed [OF A [unfolded Return that(1)] that(2)] .
    then show ?thesis using st e(2) unfolding r Return by (intro exI [of _ st]) auto
  next
    case Again
    then have "n < maxAttempts" using begin_attempt_Again [of s1] A by metis
    moreover have "reached R st0 (clk (at_store (env (Suc n)))) s1" using st e(3) unfolding reached_def by auto
    ultimately show ?thesis using less.hyps [of "Suc n" s1] less.prems(2) A Again
      by (simp add: begin_loop.simps [of S env key fp tok opts n s])
  qed
qed

lemma Begin_path:
  fixes S :: "('s, 'e) Store" and vw clk ok grant keep
  defines "R \<equiv> lease_reachable S vw clk ok grant keep"
  assumes "begin_timeline R clk ok t env" "reached R st0 (clk (at_store (env 1))) s"
    and "Begin S rnd env key fp opts s = (res, s')"
  obtains st where "R st0 st" "sy_store st = s'" "sy_clock st \<le> t"
    "\<And>out. res = Inr out \<Longrightarrow> Action out = Proceed \<Longrightarrow> just_granted clk grant env opts st key (OutToken out) fp"
proof (cases rnd)
  case (Inl e)
  have "clk (at_store (env 1)) \<le> t" using assms(2) by (simp add: begin_timeline_def)
  then obtain st where "R st0 st" "sy_store st = s" "sy_clock st \<le> t" using reached_mono [OF assms(3)] unfolding reached_def by blast
  then show thesis using that assms(4) Inl by (auto simp: Begin_def newToken_def)
next
  case (Inr b)
  then have "begin_loop S env key fp (EncodeToString b) opts 1 s = (res, s')" using assms(4) by (simp add: Begin_def newToken_def)
  from begin_loop_path [OF assms(2,3) [unfolded R_def] this] show thesis using that unfolding R_def by metis
qed

subsection \<open>Finish\<close>

lemma Finish_path:
  fixes S :: "('s, 'e) Store" and vw clk ok grant keep
  defines "R \<equiv> lease_reachable S vw clk ok grant keep"
  assumes "reached R st0 (clk e) s" "ok e" "activity R (clk e) f"
  shows "reached R st0 (clk e) (snd (Finish S e key tok d p opts (f s)))"
proof -
  obtain st1 where st1: "R st0 st1" "sy_store st1 = f s" "sy_clock st1 \<le> clk e"
    using activity_reached [OF assms(4) _ assms(2)] transp_lease_reachable unfolding R_def reached_def by blast
  obtain res s' where F: "Finish S e key tok d p opts (sy_store st1) = (res, s')" by (meson surj_pair)
  from step_finish [of ok e st1 clk S key tok d p opts res s' vw grant keep, OF assms(3) st1(3) F]
  obtain st where "lease_step S vw clk ok grant keep st1 st" "sy_store st = s'" "sy_clock st = clk e" by fastforce
  then show ?thesis using st1 F reach_step unfolding R_def reached_def by (metis order_refl snd_conv)
qed

lemma activity_Finish:
  fixes S :: "('s, 'e) Store"
  assumes "ok e" "clk e = t"
  shows "activity (lease_reachable S vw clk ok grant keep) t (\<lambda>s. snd (Finish S e key tok d p opts s))"
  unfolding activity_def
proof (intro allI impI)
  fix st :: "'s sys"
  assume "sy_clock st \<le> t"
  then have "reached (lease_reachable S vw clk ok grant keep) st (clk e) (sy_store st)"
    using assms unfolding reached_def by (blast intro: reach_init)
  then show "\<exists>st'. lease_reachable S vw clk ok grant keep st st' \<and>
      sy_store st' = snd (Finish S e key tok d p opts (sy_store st)) \<and> sy_clock st' \<le> t"
    using assms Finish_path [of S vw clk ok grant keep st e "sy_store st" id key tok d p opts] activity_id
    unfolding reached_def by force
qed

subsection \<open>An execution under its lease\<close>

text \<open>
  A run under a lease, on the way from \<open>st\<close> to \<open>st'\<close>: it started in a state \<open>st1\<close> in which its execution
  had just been granted the key, and ended in a state \<open>st2\<close>. \<open>runs\<close> relates the store the run started
  on to the one it left.
\<close>

definition leased_run :: "'s paths \<Rightarrow> ('s sys \<Rightarrow> string \<Rightarrow> string \<Rightarrow> bytes \<Rightarrow> bool) \<Rightarrow> 's sys \<Rightarrow> 's sys \<Rightarrow>
    string \<Rightarrow> string \<Rightarrow> bytes \<Rightarrow> ('s \<Rightarrow> 's \<Rightarrow> bool) \<Rightarrow> bool" where
  "leased_run R owns st st' key tok fp runs \<longleftrightarrow> (\<exists>st1 st2. R st st1 \<and> owns st1 key tok fp \<and>
     runs (sy_store st1) (sy_store st2) \<and> R st1 st2 \<and> R st2 st')"

text \<open>
  Paths that end in a state with the guarantees of the library, in which the store holds the lease
  of every execution whose deadline has not passed.
\<close>

definition leases_held :: "view \<Rightarrow> 's sys \<Rightarrow> bool" where
  "leases_held v st \<longleftrightarrow> (\<forall>k tok fp D. (k, tok, fp, D) \<in> sy_owners st \<and> sy_clock st < D \<longrightarrow> v k = Some (owner_lease tok fp D))"

definition sound :: "(Time \<Rightarrow> 's \<Rightarrow> view) \<Rightarrow> 's paths \<Rightarrow> 's paths" where
  "sound vw R = (\<lambda>st1 st2. R st1 st2 \<and> leases_held (vw (sy_clock st2) (sy_store st2)) st2 \<and>
     one_execution st2 \<and> answers_final (vw (sy_clock st2) (sy_store st2)) st2)"

lemma leased_runI:
  assumes "transp R" "R st st1" "owns st1 key tok fp" "R st1 st2" "runs (sy_store st1) (sy_store st2)" "reached R st2 t s"
  shows "\<exists>st'. R st st' \<and> sy_store st' = s \<and> leased_run R owns st st' key tok fp runs"
proof -
  obtain st' where st': "R st2 st'" "sy_store st' = s" using assms(6) unfolding reached_def by blast
  then have "R st st'" using transpD [OF assms(1)] assms(2,4) by meson
  with st' assms(2-5) show ?thesis unfolding leased_run_def by blast
qed

context lease_clients
begin

lemma sound_from:
  assumes "sinv s" "lease_reachable S sview sclock shaky grant keep (sys_init s t) st"
    and "lease_reachable S sview sclock shaky grant keep st st'"
  shows "leases_held (sview (sy_clock st') (sy_store st')) st' \<and> one_execution st' \<and> answers_final (sview (sy_clock st') (sy_store st')) st'"
  using reachable_ok [OF lease_reachable_trans [OF assms(3,2)] assms(1)] guarantees [OF lease_reachable_trans [OF assms(3,2)] assms(1)]
  by (auto simp: leases_held_def sys_ok_def)

lemma leased_run_sound:
  assumes "sinv s" "lease_reachable S sview sclock shaky grant keep (sys_init s t) st"
    and "leased_run (lease_reachable S sview sclock shaky grant keep) owns st st' key tok fp runs"
  shows "leased_run (sound sview (lease_reachable S sview sclock shaky grant keep)) owns st st' key tok fp runs"
proof -
  obtain st1 st2 where r: "lease_reachable S sview sclock shaky grant keep st st1" "lease_reachable S sview sclock shaky grant keep st1 st2"
    "lease_reachable S sview sclock shaky grant keep st2 st'" "owns st1 key tok fp" "runs (sy_store st1) (sy_store st2)"
    using assms(3) unfolding leased_run_def by blast
  have 2: "lease_reachable S sview sclock shaky grant keep st st2" by (rule lease_reachable_trans [OF r(2,1)])
  note ok = sound_from [OF assms(1,2) r(1)] sound_from [OF assms(1,2) 2] sound_from [OF assms(1,2) lease_reachable_trans [OF r(3) 2]]
  with r show ?thesis unfolding leased_run_def sound_def by blast
qed

end

end
