(* ===== verification/Redis_Server.thy ===== *)
theory Redis_Server
  imports Core "HOL-Library.AList"
begin

section \<open>The Redis commands the store relies on\<close>

text \<open>
  The server is not part of the repository: its commands are a record of functions over a
  server state \<open>'r\<close>, and what the store relies on is the locale \<open>redis_server\<close>, in terms of the
  logical content \<open>raw r k\<close> (the fields of the hash under \<open>k\<close> and its expiry time). Times are
  milliseconds of the server clock, which stands still while a script runs. A key is there
  while \<open>now < expiry + grace\<close>; \<open>grace\<close> is 0 or 1, since the documented accuracy of an expiry is
  one millisecond. \<open>reference_redis\<close> is a small server that satisfies the laws.
\<close>

type_synonym fields = "string \<rightharpoonup> string"

record 'r redis =
  EXISTS :: "int \<Rightarrow> string \<Rightarrow> 'r \<Rightarrow> bool"
  PTTL :: "int \<Rightarrow> string \<Rightarrow> 'r \<Rightarrow> int"
  HGETALL :: "int \<Rightarrow> string \<Rightarrow> 'r \<Rightarrow> (string \<times> string) list"
  HGET :: "int \<Rightarrow> string \<Rightarrow> string \<Rightarrow> 'r \<Rightarrow> string option"
  HSET :: "int \<Rightarrow> string \<Rightarrow> (string \<times> string) list \<Rightarrow> 'r \<Rightarrow> 'r"
  PEXPIRE :: "int \<Rightarrow> string \<Rightarrow> string \<Rightarrow> 'r \<Rightarrow> 'r"
  DEL :: "int \<Rightarrow> string \<Rightarrow> 'r \<Rightarrow> 'r"

type_synonym content = "string \<rightharpoonup> fields \<times> int option"

definition alive :: "int \<Rightarrow> int \<Rightarrow> int option \<Rightarrow> bool" where
  "alive grace now ex = (case ex of None \<Rightarrow> True | Some d \<Rightarrow> now < d + grace)"

definition live_fields :: "int \<Rightarrow> int \<Rightarrow> content \<Rightarrow> string \<Rightarrow> (fields \<times> int option) option" where
  "live_fields grace now m k = (case m k of
     None \<Rightarrow> None | Some (f, ex) \<Rightarrow> if alive grace now ex then Some (f, ex) else None)"

text \<open>The largest expiry the store ever asks for: the largest \<^verbatim>\<open>Duration\<close> in milliseconds.\<close>

definition max_px :: int where
  "max_px = 9223372036854"

locale redis_server =
  fixes R :: "'r redis"
    and raw :: "'r \<Rightarrow> content"
    and grace :: int
  assumes grace: "grace = 0 \<or> grace = 1"
    and exists_law: "EXISTS R now k r \<longleftrightarrow> live_fields grace now (raw r) k \<noteq> None"
    and pttl_law: "live_fields grace now (raw r) k = Some (f, Some d) \<Longrightarrow> PTTL R now k r = d - now"
    and hgetall_law: "live_fields grace now (raw r) k = Some (f, ex) \<Longrightarrow>
        map_of (HGETALL R now k r) = f \<and> distinct (map fst (HGETALL R now k r))"
    and hget_law: "HGET R now k name r = (case live_fields grace now (raw r) k of
        None \<Rightarrow> None | Some (f, ex) \<Rightarrow> f name)"
    and hset_law: "distinct (map fst kvs) \<Longrightarrow> raw (HSET R now k kvs r) = (raw r)(k := Some
        (case live_fields grace now (raw r) k of None \<Rightarrow> (map_of kvs, None) | Some (f, ex) \<Rightarrow> (f ++ map_of kvs, ex)))"
    and pexpire_law: "live_fields grace now (raw r) k = Some (f, ex) \<Longrightarrow> 0 < ms \<Longrightarrow> ms \<le> max_px \<Longrightarrow>
        raw (PEXPIRE R now k (FormatInt ms) r) = (raw r)(k := Some (f, Some (now + ms)))"
    and del_law: "raw (DEL R now k r) = (raw r)(k := None)"

subsection \<open>A reference server\<close>

text \<open>Keys to an association list of fields and an expiry.\<close>

type_synonym ref_db = "string \<Rightarrow> ((string \<times> string) list \<times> int option) option"

definition ref_live :: "int \<Rightarrow> string \<Rightarrow> ref_db \<Rightarrow> ((string \<times> string) list \<times> int option) option" where
  "ref_live now k db = (case db k of
     None \<Rightarrow> None | Some (f, ex) \<Rightarrow> if alive 1 now ex then Some (f, ex) else None)"

fun upsert :: "string \<Rightarrow> string \<Rightarrow> (string \<times> string) list \<Rightarrow> (string \<times> string) list" where
  "upsert n v [] = [(n, v)]"
| "upsert n v ((m, w) # f) = (if m = n then (n, v) # f else (m, w) # upsert n v f)"

definition reference_redis :: "ref_db redis" where
  "reference_redis = \<lparr>
     EXISTS = (\<lambda>now k db. ref_live now k db \<noteq> None),
     PTTL = (\<lambda>now k db. case ref_live now k db of None \<Rightarrow> -2 | Some (f, None) \<Rightarrow> -1 | Some (f, Some d) \<Rightarrow> d - now),
     HGETALL = (\<lambda>now k db. case ref_live now k db of None \<Rightarrow> [] | Some (f, ex) \<Rightarrow> AList.clearjunk f),
     HGET = (\<lambda>now k name db. case ref_live now k db of None \<Rightarrow> None | Some (f, ex) \<Rightarrow> map_of f name),
     HSET = (\<lambda>now k kvs db. db(k := Some (case ref_live now k db of
        None \<Rightarrow> (foldl (\<lambda>f (n, v). upsert n v f) [] kvs, None)
      | Some (f, ex) \<Rightarrow> (foldl (\<lambda>f (n, v). upsert n v f) f kvs, ex)))),
     PEXPIRE = (\<lambda>now k ms db. case (ref_live now k db, ParseInt ms) of
        (Some (f, ex), Some n) \<Rightarrow> if n \<le> 0 then db(k := None) else db(k := Some (f, Some (now + n)))
      | _ \<Rightarrow> db),
     DEL = (\<lambda>now k db. db(k := None))\<rparr>"

definition ref_raw :: "ref_db \<Rightarrow> content" where
  "ref_raw db = (\<lambda>k. map_option (\<lambda>(f, ex). (map_of f, ex)) (db k))"

lemma map_of_upsert: "map_of (upsert n v f) = (map_of f)(n := Some v)"
  by (induction n v f rule: upsert.induct) (auto simp: fun_eq_iff)

lemma map_of_upserts: "distinct (map fst kvs) \<Longrightarrow>
    map_of (foldl (\<lambda>f (n, v). upsert n v f) f kvs) = map_of f ++ map_of kvs"
proof (induction kvs arbitrary: f)
  case (Cons kv kvs)
  obtain n v where kv: "kv = (n, v)" by (cases kv)
  have "map_of kvs n = None" using Cons.prems kv by (simp add: map_of_eq_None_iff)
  then show ?case using Cons kv by (auto simp: map_of_upsert map_add_def fun_eq_iff split: option.splits)
qed simp

lemma live_ref_raw:
  "live_fields 1 now (ref_raw db) k = map_option (\<lambda>(f, ex). (map_of f, ex)) (ref_live now k db)"
  by (simp add: live_fields_def ref_raw_def ref_live_def split: option.splits prod.splits)

lemma ref_raw_upd [simp]:
  "ref_raw (db(k := Some (f, ex))) = (ref_raw db)(k := Some (map_of f, ex))"
  "ref_raw (db(k := None)) = (ref_raw db)(k := None)"
  by (simp_all add: ref_raw_def fun_eq_iff)

lemma max_px_int64: "0 < ms \<Longrightarrow> ms \<le> max_px \<Longrightarrow> in_int64 ms"
  by (simp add: in_int64_def max_px_def)

interpretation rr: redis_server reference_redis ref_raw 1
proof (unfold_locales, goal_cases)
  case (4 now r k f ex)
  then show ?case by (auto simp: reference_redis_def live_ref_raw map_of_clearjunk distinct_clearjunk)
next
  case (6 kvs now k r)
  then show ?case
    by (cases "ref_live now k r") (auto simp: reference_redis_def live_ref_raw map_of_upserts)
next
  case (7 now r k f ex ms)
  then show ?case
    by (auto simp: reference_redis_def live_ref_raw ParseInt_FormatInt [OF max_px_int64])
qed (auto simp: reference_redis_def live_ref_raw split: option.splits)

end
