(* ===== verification/Redis_Store.thy ===== *)
theory Redis_Store
  imports Redis_Server
begin

section \<open>The Redis store\<close>

text \<open>
  \<^verbatim>\<open>redistore/redistore.go\<close>: the four Lua scripts over the commands of a server \<open>R\<close>, the
  conversion of their replies, and the store operations. A script is atomic, and its argument
  texts are what Go formats. The environment of an operation holds the caller's clock before
  the script (for relative deadlines) and after it (for rebuilt deadlines), the server's
  clock, and the failures: a request that never reaches the server, and a reply that is
  lost after the script ran.

  Under the laws of \<open>redis_server\<close> the store keeps the contract \<open>lease_store\<close>, on the server's
  clock.
\<close>

definition stateReserved_redis :: string where
  "stateReserved_redis = ''1''"

definition stateCompleted_redis :: string where
  "stateCompleted_redis = ''2''"

datatype redis_value = RStr string | RInt int | RArr "redis_value list" | RNil

subsection \<open>The scripts\<close>

fun flatten_fields :: "(string \<times> string) list \<Rightarrow> redis_value list" where
  "flatten_fields [] = []"
| "flatten_fields ((n, v) # fs) = RStr n # RStr v # flatten_fields fs"

definition reserveScript :: "'r redis \<Rightarrow> int \<Rightarrow> string \<Rightarrow> string \<Rightarrow> string \<Rightarrow> string \<Rightarrow> string \<Rightarrow> string \<Rightarrow> 'r \<Rightarrow>
    redis_value \<times> 'r" where
  "reserveScript R now k a1 a2 a3 a4 a5 r =
     (if EXISTS R now k r then (RArr [RInt (PTTL R now k r), RArr (flatten_fields (HGETALL R now k r))], r)
      else let r1 = HSET R now k [(''state'', a1), (''token'', a2), (''fp'', a3), (''lease_exp_ms'', a4)] r;
               r2 = PEXPIRE R now k a5 r1
        in (RStr ''OK'', r2))"

definition getScript :: "'r redis \<Rightarrow> int \<Rightarrow> string \<Rightarrow> 'r \<Rightarrow> redis_value \<times> 'r" where
  "getScript R now k r =
     (if \<not> EXISTS R now k r then (RNil, r)
      else (RArr [RInt (PTTL R now k r), RArr (flatten_fields (HGETALL R now k r))], r))"

text \<open>The token check the two finishing scripts share.\<close>

definition token_check :: "'r redis \<Rightarrow> int \<Rightarrow> string \<Rightarrow> string \<Rightarrow> 'r \<Rightarrow> string option" where
  "token_check R now k a1 r = (case HGET R now k ''token'' r of
       None \<Rightarrow> Some ''NOT_FOUND''
     | Some token \<Rightarrow>
         if token \<noteq> a1 then Some ''TOKEN_MISMATCH''
         else if HGET R now k ''state'' r \<noteq> Some ''1'' then Some ''NOT_FOUND'' else None)"

definition completeScript :: "'r redis \<Rightarrow> int \<Rightarrow> string \<Rightarrow> string \<Rightarrow> string \<Rightarrow> string \<Rightarrow> string \<Rightarrow> 'r \<Rightarrow>
    redis_value \<times> 'r" where
  "completeScript R now k a1 a2 a3 a4 r = (case token_check R now k a1 r of
       Some status \<Rightarrow> (RStr status, r)
     | None \<Rightarrow>
         (let r1 = HSET R now k [(''state'', ''2''), (''payload'', a2), (''rec_exp_ms'', a3)] r;
              r2 = PEXPIRE R now k a4 r1
          in (RStr ''OK'', r2)))"

definition releaseScript :: "'r redis \<Rightarrow> int \<Rightarrow> string \<Rightarrow> string \<Rightarrow> 'r \<Rightarrow> redis_value \<times> 'r" where
  "releaseScript R now k a1 r = (case token_check R now k a1 r of
       Some status \<Rightarrow> (RStr status, r)
     | None \<Rightarrow> (RStr ''OK'', DEL R now k r))"

subsection \<open>Replies\<close>

definition type_name :: "redis_value \<Rightarrow> string" where
  "type_name v = (case v of RStr _ \<Rightarrow> ''string'' | RInt _ \<Rightarrow> ''int64'' | RArr _ \<Rightarrow> ''[]interface {}'' | RNil \<Rightarrow> ''<nil>'')"

definition quoted :: "string \<Rightarrow> string" where
  "quoted s = [CHR 0x22] @ s @ [CHR 0x22]"

fun as_string :: "redis_value \<Rightarrow> string" where
  "as_string (RStr s) = s"
| "as_string _ = []"

fun field_map :: "redis_value list \<Rightarrow> fields \<Rightarrow> fields" where
  "field_map (n # v # rest) m = field_map rest (m(as_string n \<mapsto> as_string v))"
| "field_map _ m = m"

text \<open>A missing map entry reads as the empty string.\<close>

definition field :: "fields \<Rightarrow> string \<Rightarrow> string" where
  "field f n = (case f n of None \<Rightarrow> [] | Some v \<Rightarrow> v)"

definition UnixMilli_time :: "int \<Rightarrow> Time" where
  "UnixMilli_time ms = ms * Millisecond"

definition UnixMilli :: "Time \<Rightarrow> int" where
  "UnixMilli t = wrap64 (t div Millisecond)"

definition ms_field :: "string \<Rightarrow> fields \<Rightarrow> string \<Rightarrow> Time \<Rightarrow> gerror + Time" where
  "ms_field key f name old = (case f name of
       None \<Rightarrow> Inr old
     | Some v \<Rightarrow> (case ParseInt v of
           None \<Rightarrow> Inl (Opaque (''redistore: corrupted record '' @ quoted key @ '': '' @ name @ '' '' @ quoted v))
         | Some ms \<Rightarrow> Inr (UnixMilli_time ms)))"

definition recordFromFields :: "string \<Rightarrow> fields \<Rightarrow> gerror + Record" where
  "recordFromFields key f =
     (let st = (if field f ''state'' = stateReserved_redis then Some StateReserved
                else if field f ''state'' = stateCompleted_redis then Some StateCompleted else None)
      in case st of
           None \<Rightarrow> Inl (Opaque (''redistore: corrupted record '' @ quoted key @ '': state '' @ quoted (field f ''state'')))
         | Some s \<Rightarrow> (case ms_field key f ''lease_exp_ms'' zero_Time of
               Inl e \<Rightarrow> Inl e
             | Inr lease \<Rightarrow> (case ms_field key f ''rec_exp_ms'' zero_Time of
                   Inl e \<Rightarrow> Inl e
                 | Inr rc \<Rightarrow> Inr \<lparr>Key = key, Fingerprint = field f ''fp'', State = s, Token = field f ''token'',
                       LeaseExpiresAt = lease, RecordExpiresAt = rc, Payload = field f ''payload''\<rparr>)))"

definition recordFromReply :: "Time \<Rightarrow> string \<Rightarrow> redis_value list \<Rightarrow> gerror + Record" where
  "recordFromReply now key reply = (case reply of
       [pttl, raw_fields] \<Rightarrow>
         (case pttl of
            RInt pttlMs \<Rightarrow>
              (case raw_fields of
                 RArr rawFields \<Rightarrow>
                   (case recordFromFields key (field_map rawFields Map.empty) of
                      Inl e \<Rightarrow> Inl e
                    | Inr rc \<Rightarrow>
                        if pttlMs < 0 then Inl (Opaque (''redistore: record '' @ quoted key @ '' has no TTL''))
                        else let deadline = time_Add now (wrap64 (wrap64 pttlMs * Millisecond)) in
                          Inr (if State rc = StateReserved then rc\<lparr>LeaseExpiresAt := deadline\<rparr>
                               else if State rc = StateCompleted then rc\<lparr>RecordExpiresAt := deadline\<rparr> else rc))
               | v \<Rightarrow> Inl (Opaque (''redistore: malformed field list for '' @ quoted key @ '': '' @ type_name v)))
          | v \<Rightarrow> Inl (Opaque (''redistore: malformed PTTL for '' @ quoted key @ '': '' @ type_name v)))
     | _ \<Rightarrow> Inl (Opaque (''redistore: malformed script reply for '' @ quoted key @ '': '' @
           FormatInt (int (length reply)) @ '' elements'')))"

fun show_value :: "redis_value \<Rightarrow> string" where
  "show_value (RStr s) = s"
| "show_value (RInt i) = FormatInt i"
| "show_value RNil = ''<nil>''"
| "show_value (RArr vs) = ''['' @ concat (map (\<lambda>v. show_value v @ '' '') vs) @ '']''"

definition statusToErr :: "redis_value \<Rightarrow> string \<Rightarrow> gerror option" where
  "statusToErr res op =
     (let status = as_string res in
      if status = ''OK'' then None
      else if status = ''NOT_FOUND'' then Some (Sentinel ErrNotFound)
      else if status = ''TOKEN_MISMATCH'' then Some (Sentinel ErrTokenMismatch)
      else Some (Opaque (''redistore: '' @ op @ '': unexpected script result '' @ show_value res)))"

subsection \<open>The operations\<close>

record redis_env =
  re_fail :: "gerror option"
  re_lost :: "gerror option"
  re_now :: Time
  re_ms :: int
  re_after :: Time

text \<open>\<^verbatim>\<open>Script.Run(...).Result()\<close>; a nil reply is the error \<^verbatim>\<open>redis.Nil\<close>.\<close>

definition run_script :: "redis_env \<Rightarrow> (int \<Rightarrow> 'r \<Rightarrow> redis_value \<times> 'r) \<Rightarrow> 'r \<Rightarrow> (gerror + redis_value) \<times> 'r" where
  "run_script e script r = (case re_fail e of
       Some err \<Rightarrow> (Inl err, r)
     | None \<Rightarrow> (let (v, r') = script (re_ms e) r in
         case re_lost e of
           Some err \<Rightarrow> (Inl err, r')
         | None \<Rightarrow> if v = RNil then (Inl (Sentinel ErrRedisNil), r') else (Inr v, r')))"

definition redisKey :: "string \<Rightarrow> string \<Rightarrow> string" where
  "redisKey prefix key = prefix @ key"

definition pxUntil :: "Time \<Rightarrow> Time \<Rightarrow> int" where
  "pxUntil now deadline = (let ms = Milliseconds (time_Sub deadline now) in if ms < 1 then 1 else ms)"

definition redis_Reserve :: "'r redis \<Rightarrow> string \<Rightarrow> ('r, redis_env) reserve_op" where
  "redis_Reserve R prefix e rc r =
     (let (res, r') = run_script e (\<lambda>now. reserveScript R now (redisKey prefix (Key rc)) stateReserved_redis (Token rc)
            (Fingerprint rc) (FormatInt (UnixMilli (LeaseExpiresAt rc)))
            (FormatInt (pxUntil (re_now e) (LeaseExpiresAt rc)))) r
      in case res of
           Inl err \<Rightarrow> ((None, Some (wrap_after ''redistore: reserve: '' err)), r')
         | Inr v \<Rightarrow> (case v of
               RStr _ \<Rightarrow> ((None, None), r')
             | RArr vs \<Rightarrow> (case recordFromReply (re_after e) (Key rc) vs of
                   Inl err \<Rightarrow> ((None, Some err), r')
                 | Inr existing \<Rightarrow> ((Some existing, Some (Sentinel ErrAlreadyExists)), r'))
             | _ \<Rightarrow> ((None, Some (Opaque (''redistore: reserve: unexpected script result '' @ type_name v))), r')))"

text \<open>A \<^verbatim>\<open>Duration\<close> is an \<^verbatim>\<open>int64\<close>, hence the \<open>wrap64\<close> of the argument.\<close>

definition redis_Complete :: "'r redis \<Rightarrow> string \<Rightarrow> ('r, redis_env) complete_op" where
  "redis_Complete R prefix e key token payload ttl r =
     (let ms = Milliseconds (wrap64 ttl); pxMs = (if ms < 1 then 1 else ms);
          (res, r') = run_script e (\<lambda>now. completeScript R now (redisKey prefix key) token payload
            (FormatInt (UnixMilli (time_Add (re_now e) (wrap64 ttl)))) (FormatInt pxMs)) r
      in case res of
           Inl err \<Rightarrow> (Some (wrap_after ''redistore: complete: '' err), r')
         | Inr v \<Rightarrow> (statusToErr v ''complete'', r'))"

definition redis_Release :: "'r redis \<Rightarrow> string \<Rightarrow> ('r, redis_env) release_op" where
  "redis_Release R prefix e key token r =
     (let (res, r') = run_script e (\<lambda>now. releaseScript R now (redisKey prefix key) token) r
      in case res of
           Inl err \<Rightarrow> (Some (wrap_after ''redistore: release: '' err), r')
         | Inr v \<Rightarrow> (statusToErr v ''release'', r'))"

definition redis_Get :: "'r redis \<Rightarrow> string \<Rightarrow> ('r, redis_env) get_op" where
  "redis_Get R prefix e key r =
     (let (res, r') = run_script e (\<lambda>now. getScript R now (redisKey prefix key)) r
      in case res of
           Inl err \<Rightarrow> if errors_Is err ErrRedisNil then ((None, None), r')
                      else ((None, Some (wrap_after ''redistore: get: '' err)), r')
         | Inr v \<Rightarrow> (case v of
               RArr vs \<Rightarrow> (case recordFromReply (re_after e) key vs of
                   Inl err \<Rightarrow> ((None, Some err), r')
                 | Inr rc \<Rightarrow> ((Some rc, None), r'))
             | _ \<Rightarrow> ((None, Some (Opaque (''redistore: get: unexpected script result '' @ type_name v))), r')))"

definition redis_Store :: "'r redis \<Rightarrow> string \<Rightarrow> ('r, redis_env) Store" where
  "redis_Store R prefix = \<lparr>Reserve = redis_Reserve R prefix, Complete = redis_Complete R prefix,
     Release = redis_Release R prefix, Get = redis_Get R prefix\<rparr>"

text \<open>\<^verbatim>\<open>New(client, opts...)\<close>: the default prefix, replaced by \<^verbatim>\<open>KeyPrefix\<close>.\<close>

definition redis_KeyPrefix :: "string \<Rightarrow> string \<Rightarrow> string" where
  "redis_KeyPrefix p prefix = p"

definition redis_New :: "(string \<Rightarrow> string) list \<Rightarrow> string" where
  "redis_New opts = foldl (\<lambda>s opt. opt s) ''idemlease:'' opts"

subsection \<open>The logical content\<close>

definition wf_fields :: "fields \<Rightarrow> bool" where
  "wf_fields f \<longleftrightarrow> (f ''state'' = Some ''1'' \<or> f ''state'' = Some ''2'') \<and> f ''token'' \<noteq> None \<and>
     (\<forall>v. f ''lease_exp_ms'' = Some v \<longrightarrow> ParseInt v \<noteq> None) \<and>
     (\<forall>v. f ''rec_exp_ms'' = Some v \<longrightarrow> ParseInt v \<noteq> None)"

definition state_of :: "fields \<Rightarrow> State" where
  "state_of f = (if f ''state'' = Some ''1'' then StateReserved else StateCompleted)"

definition redis_lease :: "int \<Rightarrow> fields \<Rightarrow> int \<Rightarrow> lease" where
  "redis_lease grace f d = \<lparr>l_state = state_of f, l_token = field f ''token'', l_fp = field f ''fp'',
     l_payload = field f ''payload'', l_deadline = d + grace\<rparr>"

definition redis_view :: "('r \<Rightarrow> content) \<Rightarrow> int \<Rightarrow> string \<Rightarrow> Time \<Rightarrow> 'r \<Rightarrow> view" where
  "redis_view raw grace prefix t r = (\<lambda>k. case live_fields grace t (raw r) (redisKey prefix k) of
     Some (f, Some d) \<Rightarrow> Some (redis_lease grace f d) | _ \<Rightarrow> None)"

text \<open>Every record of the store is well-formed and has an expiry.\<close>

definition redis_inv :: "('r \<Rightarrow> content) \<Rightarrow> string \<Rightarrow> 'r \<Rightarrow> bool" where
  "redis_inv raw prefix r \<longleftrightarrow> (\<forall>k f ex. raw r (redisKey prefix k) = Some (f, ex) \<longrightarrow> wf_fields f \<and> ex \<noteq> None)"

lemma redisKey_inject [simp]: "redisKey p k = redisKey p k' \<longleftrightarrow> k = k'"
  by (simp add: redisKey_def)

lemma field_map_flatten:
  "distinct (map fst fs) \<Longrightarrow> field_map (flatten_fields fs) m = m ++ map_of fs"
proof (induction fs arbitrary: m rule: flatten_fields.induct)
  case (2 n v fs)
  then have "map_of fs n = None" by (simp add: map_of_eq_None_iff)
  with 2 show ?case by (auto simp: map_add_def fun_eq_iff split: option.splits)
qed simp

lemma ms_field_ok: "(\<And>v. f n = Some v \<Longrightarrow> ParseInt v \<noteq> None) \<Longrightarrow> \<exists>t. ms_field key f n old = Inr t"
  by (cases "f n") (auto simp: ms_field_def split: option.splits)

lemma recordFromFields_wf:
  assumes "wf_fields f"
  obtains x where "recordFromFields k f = Inr x" "Key x = k" "State x = state_of f" "Token x = field f ''token''"
    "Fingerprint x = field f ''fp''" "Payload x = field f ''payload''"
proof -
  obtain a b where "ms_field k f ''lease_exp_ms'' zero_Time = Inr a" "ms_field k f ''rec_exp_ms'' zero_Time = Inr b"
    using assms ms_field_ok [of f "''lease_exp_ms''" k] ms_field_ok [of f "''rec_exp_ms''" k]
    unfolding wf_fields_def by metis
  moreover have "field f ''state'' = ''1'' \<and> state_of f = StateReserved \<or> field f ''state'' = ''2'' \<and> state_of f = StateCompleted"
    using assms by (auto simp: wf_fields_def field_def state_of_def)
  ultimately show thesis
    using that by (auto simp: recordFromFields_def stateReserved_redis_def stateCompleted_redis_def)
qed

lemma recordFromReply_wf:
  assumes "wf_fields (map_of fs)" "distinct (map fst fs)" "0 \<le> p"
  obtains x where "recordFromReply now k [RInt p, RArr (flatten_fields fs)] = Inr x"
    "reports x k (redis_lease g (map_of fs) d)" "active_deadline x = now + wrap64 (wrap64 p * Millisecond)"
proof -
  obtain x where x: "recordFromFields k (map_of fs) = Inr x" "Key x = k" "State x = state_of (map_of fs)"
    "Token x = field (map_of fs) ''token''" "Fingerprint x = field (map_of fs) ''fp''"
    "Payload x = field (map_of fs) ''payload''"
    by (rule recordFromFields_wf [OF assms(1)])
  have "State x = StateReserved \<or> State x = StateCompleted" using x(3) by (simp add: state_of_def)
  then show thesis
    using that x assms(2,3)
    by (elim disjE) (simp_all add: recordFromReply_def field_map_flatten time_Add_def reports_def redis_lease_def
        active_deadline_def)
qed

lemma Milliseconds_bound: "in_int64 d \<Longrightarrow> Milliseconds d \<le> max_px"
proof (cases "0 \<le> d")
  case True
  assume "in_int64 d"
  then have "d div 1000000 \<le> 9223372036854" 
    using zdiv_mono1 [of d 9223372036854775807 1000000] by (simp add: in_int64_def)
  with True show ?thesis by (simp add: Milliseconds_def quot_nonneg Millisecond_def max_px_def)
next
  case False
  then have "0 \<le> (- d) div 1000000" by (intro pos_imp_zdiv_nonneg_iff [THEN iffD2]) auto
  with False show ?thesis by (simp add: Milliseconds_def quot_nonpos Millisecond_def max_px_def)
qed

lemma pxUntil_bounds: "0 < pxUntil now d" "pxUntil now d \<le> max_px"
  using Milliseconds_bound [of "time_Sub d now"] by (auto simp: pxUntil_def Let_def max_px_def)

definition record_px :: "Duration \<Rightarrow> int" where
  "record_px ttl = (if Milliseconds (wrap64 ttl) < 1 then 1 else Milliseconds (wrap64 ttl))"

lemma record_px_bounds: "0 < record_px ttl" "record_px ttl \<le> max_px"
  using Milliseconds_bound [of "wrap64 ttl"] by (auto simp: record_px_def max_px_def)

subsection \<open>The contract\<close>

lemma redis_view_upd:
  assumes "raw r' = (raw r)(redisKey prefix k := Some (f, Some d))"
  shows "redis_view raw grace prefix t r' =
    (redis_view raw grace prefix t r)(k := if t < d + grace then Some (redis_lease grace f d) else None)"
  using assms by (auto simp: redis_view_def live_fields_def alive_def fun_eq_iff)

lemma redis_view_del:
  assumes "raw r' = (raw r)(redisKey prefix k := None)"
  shows "redis_view raw grace prefix t r' = (redis_view raw grace prefix t r)(k := None)"
  using assms by (auto simp: redis_view_def live_fields_def fun_eq_iff)

lemma redis_inv_upd:
  assumes "redis_inv raw prefix r" "raw r' = (raw r)(redisKey prefix k := Some (f, Some d))" "wf_fields f"
  shows "redis_inv raw prefix r'"
  using assms by (auto simp: redis_inv_def split: if_splits)

lemma redis_inv_del:
  assumes "redis_inv raw prefix r" "raw r' = (raw r)(redisKey prefix k := None)"
  shows "redis_inv raw prefix r'"
  using assms by (auto simp: redis_inv_def split: if_splits)

lemma redis_view_Some:
  assumes "redis_view raw grace prefix t r k = Some l"
  obtains f d where "live_fields grace t (raw r) (redisKey prefix k) = Some (f, Some d)" "l = redis_lease grace f d"
    "t < d + grace" "raw r (redisKey prefix k) = Some (f, Some d)"
  using assms by (auto simp: redis_view_def live_fields_def alive_def split: option.splits if_splits)

lemma redis_view_None:
  assumes "redis_inv raw prefix r" "redis_view raw grace prefix t r k = None"
  shows "live_fields grace t (raw r) (redisKey prefix k) = None"
  using assms by (fastforce simp: redis_view_def live_fields_def redis_inv_def split: option.splits if_splits)

lemma redis_view_later:
  assumes "t \<le> u"
  shows "redis_view raw grace prefix u r = live_at u (redis_view raw grace prefix t r)"
proof (rule ext)
  fix k
  show "redis_view raw grace prefix u r k = live_at u (redis_view raw grace prefix t r) k"
    using assms by (auto simp: redis_view_def live_at_def live_fields_def alive_def redis_lease_def split: option.splits)
qed

lemma live_fields_raw: "live_fields g t m k = Some (f, ex) \<Longrightarrow> m k = Some (f, ex)"
  by (auto simp: live_fields_def split: option.splits if_splits)

lemma live_fields_new: "live_fields g t (m(k := Some (f, ex))) k = (if alive g t ex then Some (f, ex) else None)"
  by (simp add: live_fields_def)

definition reserved_fields :: "Record \<Rightarrow> fields" where
  "reserved_fields rc = map_of [(''state'', ''1''), (''token'', Token rc), (''fp'', Fingerprint rc),
     (''lease_exp_ms'', FormatInt (UnixMilli (LeaseExpiresAt rc)))]"

definition completed_fields :: "fields \<Rightarrow> bytes \<Rightarrow> Time \<Rightarrow> fields" where
  "completed_fields f p d = f ++ map_of [(''state'', ''2''), (''payload'', p), (''rec_exp_ms'', FormatInt (UnixMilli d))]"

lemma ParseInt_UnixMilli: "ParseInt (FormatInt (UnixMilli t)) = Some (UnixMilli t)"
  by (rule ParseInt_FormatInt) (simp add: UnixMilli_def)

lemma wf_reserved_fields: "wf_fields (reserved_fields rc)"
  by (simp add: wf_fields_def reserved_fields_def ParseInt_UnixMilli)

lemma wf_completed_fields: "wf_fields f \<Longrightarrow> wf_fields (completed_fields f p d)"
  by (auto simp: wf_fields_def completed_fields_def ParseInt_UnixMilli)

lemma lease_reserved_fields: "redis_lease g (reserved_fields rc) d = new_lease rc (d + g)"
  by (simp add: redis_lease_def reserved_fields_def new_lease_def state_of_def field_def)

lemma lease_completed_fields:
  "redis_lease g (completed_fields f p t) d = completed_lease (redis_lease g f d') p (d + g)"
  by (simp add: redis_lease_def completed_fields_def completed_lease_def state_of_def field_def)

text \<open>A server, and the key prefix of a store on it.\<close>

locale redis_deployment = redis_server R raw grace
  for R :: "'r redis" and raw and grace +
  fixes prefix :: string
begin

lemma reserve_script_free:
  assumes "live_fields grace now (raw r) k = None" "0 < px" "px \<le> max_px"
    "reserveScript R now k ''1'' (Token rc) (Fingerprint rc) (FormatInt (UnixMilli (LeaseExpiresAt rc))) (FormatInt px) r = (v, r')"
  shows "v = RStr ''OK'' \<and> raw r' = (raw r)(k := Some (reserved_fields rc, Some (now + px)))"
proof -
  let ?kvs = "[(''state'', ''1''), (''token'', Token rc), (''fp'', Fingerprint rc),
     (''lease_exp_ms'', FormatInt (UnixMilli (LeaseExpiresAt rc)))]"
  have h: "raw (HSET R now k ?kvs r) = (raw r)(k := Some (reserved_fields rc, None))"
    using hset_law [of ?kvs now k r] assms(1) by (simp add: reserved_fields_def)
  then have "live_fields grace now (raw (HSET R now k ?kvs r)) k = Some (reserved_fields rc, None)"
    by (simp add: live_fields_new alive_def)
  from pexpire_law [OF this assms(2,3)] h
  have "raw (PEXPIRE R now k (FormatInt px) (HSET R now k ?kvs r)) = (raw r)(k := Some (reserved_fields rc, Some (now + px)))"
    by simp
  then show ?thesis using assms(1,4) exists_law [of now k r] by (auto simp: reserveScript_def)
qed

lemma reserve_script_taken:
  assumes "live_fields grace now (raw r) k = Some (f, Some d)"
  shows "reserveScript R now k a1 a2 a3 a4 a5 r =
    (RArr [RInt (d - now), RArr (flatten_fields (HGETALL R now k r))], r)"
  using assms exists_law [of now k r] pttl_law [OF assms] by (simp add: reserveScript_def)

lemma token_check_cases:
  assumes "live_fields grace now (raw r) k = Some (f, ex)" "wf_fields f"
  shows "token_check R now k tok r =
    (if field f ''token'' \<noteq> tok then Some ''TOKEN_MISMATCH'' else if state_of f \<noteq> StateReserved then Some ''NOT_FOUND'' else None)"
  using assms by (auto simp: token_check_def hget_law field_def state_of_def wf_fields_def split: option.splits)

lemma token_check_absent:
  "live_fields grace now (raw r) k = None \<Longrightarrow> token_check R now k tok r = Some ''NOT_FOUND''"
  by (simp add: token_check_def hget_law)

lemma complete_script_held:
  assumes live: "live_fields grace now (raw r) k = Some (f, Some d)" and "token_check R now k tok r = None"
    and "0 < px" "px \<le> max_px" "completeScript R now k tok p (FormatInt (UnixMilli t)) (FormatInt px) r = (v, r')"
  shows "v = RStr ''OK'' \<and> raw r' = (raw r)(k := Some (completed_fields f p t, Some (now + px)))"
proof -
  let ?kvs = "[(''state'', ''2''), (''payload'', p), (''rec_exp_ms'', FormatInt (UnixMilli t))]"
  have h: "raw (HSET R now k ?kvs r) = (raw r)(k := Some (completed_fields f p t, Some d))"
    using hset_law [of ?kvs now k r] live by (simp add: completed_fields_def)
  moreover have "alive grace now (Some d)" using live by (auto simp: live_fields_def split: option.splits if_splits)
  ultimately have "live_fields grace now (raw (HSET R now k ?kvs r)) k = Some (completed_fields f p t, Some d)"
    by (simp add: live_fields_new)
  from pexpire_law [OF this assms(3,4)] h
  have "raw (PEXPIRE R now k (FormatInt px) (HSET R now k ?kvs r)) = (raw r)(k := Some (completed_fields f p t, Some (now + px)))"
    by simp
  then show ?thesis using assms(2,5) by (auto simp: completeScript_def)
qed

lemma release_script_held:
  assumes "token_check R now k tok r = None" "releaseScript R now k tok r = (v, r')"
  shows "v = RStr ''OK'' \<and> raw r' = (raw r)(k := None)"
  using assms by (auto simp: releaseScript_def del_law)

lemma reserve_outcomes:
  assumes inv: "redis_inv raw prefix r" and run: "re_fail e = None"
    and S: "reserveScript R (re_ms e) (redisKey prefix (Key rc)) stateReserved_redis (Token rc) (Fingerprint rc)
        (FormatInt (UnixMilli (LeaseExpiresAt rc))) (FormatInt (pxUntil (re_now e) (LeaseExpiresAt rc))) r = (v, r')"
  obtains (free) "redis_view raw grace prefix (re_ms e) r (Key rc) = None" "v = RStr ''OK''"
      "raw r' = (raw r)(redisKey prefix (Key rc) := Some (reserved_fields rc, Some (re_ms e + pxUntil (re_now e) (LeaseExpiresAt rc))))"
  | (taken) f d where "redis_view raw grace prefix (re_ms e) r (Key rc) = Some (redis_lease grace f d)" "wf_fields f"
      "live_fields grace (re_ms e) (raw r) (redisKey prefix (Key rc)) = Some (f, Some d)" "0 \<le> d - re_ms e" "r' = r"
      "v = RArr [RInt (d - re_ms e), RArr (flatten_fields (HGETALL R (re_ms e) (redisKey prefix (Key rc)) r))]"
proof (cases "redis_view raw grace prefix (re_ms e) r (Key rc)")
  case None
  from reserve_script_free [OF redis_view_None [OF inv None] pxUntil_bounds S [unfolded stateReserved_redis_def]] None
  show thesis using free by simp
next
  case (Some l)
  then obtain f d where fd: "live_fields grace (re_ms e) (raw r) (redisKey prefix (Key rc)) = Some (f, Some d)"
    "l = redis_lease grace f d" "re_ms e < d + grace" "raw r (redisKey prefix (Key rc)) = Some (f, Some d)"
    by (rule redis_view_Some)
  have wf: "wf_fields f" using inv fd(4) by (simp add: redis_inv_def)
  have pos: "0 \<le> d - re_ms e" using fd(3) grace by auto
  have "v = RArr [RInt (d - re_ms e), RArr (flatten_fields (HGETALL R (re_ms e) (redisKey prefix (Key rc)) r))]" "r' = r"
    using S unfolding reserve_script_taken [OF fd(1)] by auto
  with taken [OF Some [unfolded fd(2)] wf fd(1) pos] show thesis by blast
qed

lemma finish_outcomes:
  assumes inv: "redis_inv raw prefix r"
  obtains (held) f d where "held_by (redis_view raw grace prefix t r) k tok (redis_lease grace f d)"
      "live_fields grace t (raw r) (redisKey prefix k) = Some (f, Some d)" "wf_fields f"
      "token_check R t (redisKey prefix k) tok r = None"
  | (lost) s where "\<nexists>l. held_by (redis_view raw grace prefix t r) k tok l"
      "token_check R t (redisKey prefix k) tok r = Some s" "s = ''NOT_FOUND'' \<or> s = ''TOKEN_MISMATCH''"
proof (cases "redis_view raw grace prefix t r k")
  case None
  show thesis by (rule lost [OF _ token_check_absent [OF redis_view_None [OF inv None]]]) (use None in \<open>simp_all add: held_by_def\<close>)
next
  case (Some l)
  then obtain f d where fd: "live_fields grace t (raw r) (redisKey prefix k) = Some (f, Some d)"
    "l = redis_lease grace f d" "raw r (redisKey prefix k) = Some (f, Some d)" by (rule redis_view_Some)
  have wf: "wf_fields f" using inv fd(3) by (simp add: redis_inv_def)
  show thesis
  proof (cases "field f ''token'' = tok \<and> state_of f = StateReserved")
    case True
    show thesis
      by (rule held [OF _ fd(1) wf])
        (use True Some fd(2) token_check_cases [OF fd(1) wf, of tok] in \<open>simp_all add: held_by_def redis_lease_def\<close>)
  next
    case False
    then have "\<exists>s. token_check R t (redisKey prefix k) tok r = Some s \<and> (s = ''NOT_FOUND'' \<or> s = ''TOKEN_MISMATCH'')"
      using token_check_cases [OF fd(1) wf, of tok] by auto
    moreover have "\<nexists>l. held_by (redis_view raw grace prefix t r) k tok l"
      using False Some fd(2) by (auto simp: held_by_def redis_lease_def)
    ultimately show thesis using lost by blast
  qed
qed

end

lemma run_script_up: "re_fail e = None \<Longrightarrow> re_lost e = None \<Longrightarrow> script (re_ms e) r = (v, r') \<Longrightarrow> v \<noteq> RNil \<Longrightarrow>
    run_script e script r = (Inr v, r')"
  by (simp add: run_script_def)

lemma run_script_state:
  "run_script e script r = (res, r') \<Longrightarrow> r' = r \<or> (re_fail e = None \<and> r' = snd (script (re_ms e) r))"
  by (auto simp: run_script_def split: option.splits prod.splits if_splits)

lemma statusToErr_simps [simp]:
  "statusToErr (RStr ''OK'') op = None" "statusToErr (RStr ''NOT_FOUND'') op = Some (Sentinel ErrNotFound)"
  "statusToErr (RStr ''TOKEN_MISMATCH'') op = Some (Sentinel ErrTokenMismatch)"
  by (simp_all add: statusToErr_def)

definition redis_up :: "redis_env \<Rightarrow> bool" where
  "redis_up e \<longleftrightarrow> re_fail e = None \<and> re_lost e = None"

definition redis_grant :: "int \<Rightarrow> redis_env \<Rightarrow> Record \<Rightarrow> Time" where
  "redis_grant grace e rc = re_ms e + pxUntil (re_now e) (LeaseExpiresAt rc) + grace"

definition redis_keep :: "int \<Rightarrow> redis_env \<Rightarrow> Duration \<Rightarrow> Time" where
  "redis_keep grace e ttl = re_ms e + record_px ttl + grace"

text \<open>A deadline on the server's clock, rebuilt on the caller's.\<close>

definition redis_rebuilt :: "int \<Rightarrow> redis_env \<Rightarrow> Time \<Rightarrow> Time" where
  "redis_rebuilt grace e d = re_after e + wrap64 (wrap64 (d - grace - re_ms e) * Millisecond)"

lemma redis_Store_sel [simp]:
  "Reserve (redis_Store R prefix) = redis_Reserve R prefix" "Complete (redis_Store R prefix) = redis_Complete R prefix"
  "Release (redis_Store R prefix) = redis_Release R prefix" "Get (redis_Store R prefix) = redis_Get R prefix"
  by (simp_all add: redis_Store_def)

context redis_deployment
begin

lemma redis_reserve_state:
  assumes "redis_inv raw prefix r" "redis_Reserve R prefix e rc r = (res, r')"
  shows "redis_inv raw prefix r'"
proof -
  let ?script = "\<lambda>now. reserveScript R now (redisKey prefix (Key rc)) stateReserved_redis (Token rc)
      (Fingerprint rc) (FormatInt (UnixMilli (LeaseExpiresAt rc))) (FormatInt (pxUntil (re_now e) (LeaseExpiresAt rc)))"
  obtain x where run: "run_script e ?script r = (x, r')"
    using assms(2) by (auto simp: redis_Reserve_def Let_def split: prod.splits sum.splits redis_value.splits)
  from run_script_state [OF run] show ?thesis
  proof
    assume up: "re_fail e = None \<and> r' = snd (?script (re_ms e) r)"
    then obtain v where S: "?script (re_ms e) r = (v, r')" by (metis prod.collapse)
    show ?thesis
      by (cases rule: reserve_outcomes [OF assms(1) conjunct1 [OF up] S])
        (use assms(1) redis_inv_upd [OF assms(1) _ wf_reserved_fields] in auto)
  qed (use assms(1) in simp)
qed

lemma redis_reserve_free:
  assumes "redis_inv raw prefix r" "redis_up e" "redis_view raw grace prefix (re_ms e) r (Key rc) = None"
    and "redis_Reserve R prefix e rc r = (res, r')"
  shows "res = (None, None) \<and> redis_view raw grace prefix t r' =
    (redis_view raw grace prefix t r)(Key rc := if t < redis_grant grace e rc then Some (new_lease rc (redis_grant grace e rc)) else None)"
proof -
  have up: "re_fail e = None" "re_lost e = None" using assms(2) by (simp_all add: redis_up_def)
  let ?script = "\<lambda>now. reserveScript R now (redisKey prefix (Key rc)) stateReserved_redis (Token rc)
      (Fingerprint rc) (FormatInt (UnixMilli (LeaseExpiresAt rc))) (FormatInt (pxUntil (re_now e) (LeaseExpiresAt rc)))"
  obtain v r1 where S: "?script (re_ms e) r = (v, r1)" by (meson surj_pair)
  show ?thesis
  proof (cases rule: reserve_outcomes [OF assms(1) up(1) S])
    case 1
    have "run_script e ?script r = (Inr v, r1)" using run_script_up [of e ?script r, OF up S] 1 by simp
    then have "res = (None, None)" "r' = r1" using assms(4) 1(2) by (auto simp: redis_Reserve_def)
    then show ?thesis
      using redis_view_upd [of raw, OF 1(3)] by (simp add: redis_grant_def lease_reserved_fields)
  qed (use assms(3) in simp)
qed

lemma redis_reserve_taken:
  assumes "redis_inv raw prefix r" "redis_up e" "redis_view raw grace prefix (re_ms e) r (Key rc) = Some l"
    and "redis_Reserve R prefix e rc r = (res, r')"
  shows "r' = r \<and> (\<exists>x. res = (Some x, Some (Sentinel ErrAlreadyExists)) \<and> reports x (Key rc) l \<and>
    active_deadline x = redis_rebuilt grace e (l_deadline l))"
proof -
  have up: "re_fail e = None" "re_lost e = None" using assms(2) by (simp_all add: redis_up_def)
  let ?script = "\<lambda>now. reserveScript R now (redisKey prefix (Key rc)) stateReserved_redis (Token rc)
      (Fingerprint rc) (FormatInt (UnixMilli (LeaseExpiresAt rc))) (FormatInt (pxUntil (re_now e) (LeaseExpiresAt rc)))"
  let ?fs = "HGETALL R (re_ms e) (redisKey prefix (Key rc)) r"
  obtain v r1 where S: "?script (re_ms e) r = (v, r1)" by (meson surj_pair)
  show ?thesis
  proof (cases rule: reserve_outcomes [OF assms(1) up(1) S])
    case (2 f d)
    have run: "run_script e ?script r = (Inr v, r1)" using run_script_up [of e ?script r, OF up S] 2 by simp
    have fs: "map_of ?fs = f" "distinct (map fst ?fs)" using hgetall_law [OF 2(3)] by simp_all
    obtain x where x: "recordFromReply (re_after e) (Key rc) [RInt (d - re_ms e), RArr (flatten_fields ?fs)] = Inr x"
      "reports x (Key rc) (redis_lease grace f d)"
      "active_deadline x = re_after e + wrap64 (wrap64 (d - re_ms e) * Millisecond)"
      using recordFromReply_wf [OF _ fs(2) 2(4), of "re_after e" "Key rc" grace d] fs(1) 2(2) by metis
    have l: "l = redis_lease grace f d" using assms(3) 2(1) by simp
    show ?thesis using assms(4) run 2(5,6) x l by (auto simp: redis_Reserve_def redis_rebuilt_def redis_lease_def)
  qed (use assms(3) in simp)
qed

lemma redis_complete_state:
  assumes "redis_inv raw prefix r" "redis_Complete R prefix e k tok p ttl r = (err, r')"
  shows "redis_inv raw prefix r'"
proof -
  let ?script = "\<lambda>now. completeScript R now (redisKey prefix k) tok p
      (FormatInt (UnixMilli (time_Add (re_now e) (wrap64 ttl)))) (FormatInt (record_px ttl))"
  obtain x where run: "run_script e ?script r = (x, r')"
    using assms(2) by (auto simp: redis_Complete_def record_px_def Let_def split: prod.splits sum.splits)
  from run_script_state [OF run] show ?thesis
  proof
    assume up: "re_fail e = None \<and> r' = snd (?script (re_ms e) r)"
    then obtain v where S: "?script (re_ms e) r = (v, r')" by (metis prod.collapse)
    show ?thesis
    proof (cases rule: finish_outcomes [OF assms(1), of "re_ms e" k tok])
      case (1 f d)
      from complete_script_held [OF 1(2,4) record_px_bounds S]
      show ?thesis using redis_inv_upd [OF assms(1) _ wf_completed_fields [OF 1(3)]] by blast
    next
      case (2 s)
      then show ?thesis using S assms(1) by (auto simp: completeScript_def)
    qed
  qed (use assms(1) in simp)
qed

lemma redis_release_state:
  assumes "redis_inv raw prefix r" "redis_Release R prefix e k tok r = (err, r')"
  shows "redis_inv raw prefix r'"
proof -
  let ?script = "\<lambda>now. releaseScript R now (redisKey prefix k) tok"
  obtain x where run: "run_script e ?script r = (x, r')"
    using assms(2) by (auto simp: redis_Release_def Let_def split: prod.splits sum.splits)
  from run_script_state [OF run] show ?thesis
  proof
    assume up: "re_fail e = None \<and> r' = snd (?script (re_ms e) r)"
    then obtain v where S: "?script (re_ms e) r = (v, r')" by (metis prod.collapse)
    show ?thesis
    proof (cases "token_check R (re_ms e) (redisKey prefix k) tok r")
      case None
      from release_script_held [OF None S] redis_inv_del [OF assms(1)] show ?thesis by blast
    next
      case (Some s)
      then show ?thesis using S assms(1) by (auto simp: releaseScript_def)
    qed
  qed (use assms(1) in simp)
qed

lemma redis_complete_held:
  assumes "redis_inv raw prefix r" "redis_up e" "held_by (redis_view raw grace prefix (re_ms e) r) k tok l"
    and "redis_Complete R prefix e k tok p ttl r = (err, r')"
  shows "err = None \<and> redis_view raw grace prefix t r' = (redis_view raw grace prefix t r)
    (k := if t < redis_keep grace e ttl then Some (completed_lease l p (redis_keep grace e ttl)) else None)"
proof -
  have up: "re_fail e = None" "re_lost e = None" using assms(2) by (simp_all add: redis_up_def)
  let ?script = "\<lambda>now. completeScript R now (redisKey prefix k) tok p
      (FormatInt (UnixMilli (time_Add (re_now e) (wrap64 ttl)))) (FormatInt (record_px ttl))"
  obtain v r1 where S: "?script (re_ms e) r = (v, r1)" by (meson surj_pair)
  show ?thesis
  proof (cases rule: finish_outcomes [OF assms(1), of "re_ms e" k tok])
    case (1 f d)
    note c = complete_script_held [OF 1(2,4) record_px_bounds S]
    have "run_script e ?script r = (Inr (RStr ''OK''), r1)" using run_script_up [of e ?script r, OF up S] c by simp
    then have "err = None" "r' = r1" using assms(4) by (auto simp: redis_Complete_def record_px_def Let_def)
    moreover have l: "l = redis_lease grace f d" using assms(3) 1(1) by (simp add: held_by_def)
    ultimately show ?thesis
      using redis_view_upd [of raw, OF conjunct2 [OF c]] lease_completed_fields [of grace f p _ _ d]
      by (simp add: redis_keep_def)
  next
    case (2 s)
    then show ?thesis using assms(3) by blast
  qed
qed

lemma redis_complete_lost:
  assumes "redis_inv raw prefix r" "redis_up e" "\<nexists>l. held_by (redis_view raw grace prefix (re_ms e) r) k tok l"
    and "redis_Complete R prefix e k tok p ttl r = (err, r')"
  shows "lost_error err \<and> r' = r"
proof (cases rule: finish_outcomes [OF assms(1), of "re_ms e" k tok])
  case (2 s)
  then show ?thesis using assms(2,4)
    by (auto simp: redis_Complete_def run_script_def redis_up_def completeScript_def lost_error_def Let_def)
qed (use assms(3) in blast)

lemma redis_release_held:
  assumes "redis_inv raw prefix r" "redis_up e" "held_by (redis_view raw grace prefix (re_ms e) r) k tok l"
    and "redis_Release R prefix e k tok r = (err, r')"
  shows "err = None \<and> redis_view raw grace prefix t r' = (redis_view raw grace prefix t r)(k := None)"
proof (cases rule: finish_outcomes [OF assms(1), of "re_ms e" k tok])
  case (1 f d)
  obtain v r1 where S: "releaseScript R (re_ms e) (redisKey prefix k) tok r = (v, r1)" by (meson surj_pair)
  note c = release_script_held [OF 1(4) S]
  have "err = None" "r' = r1"
    using assms(2,4) S c by (auto simp: redis_Release_def run_script_def redis_up_def)
  then show ?thesis using redis_view_del [of raw, OF conjunct2 [OF c]] by simp
qed (use assms(3) in blast)

lemma redis_release_lost:
  assumes "redis_inv raw prefix r" "redis_up e" "\<nexists>l. held_by (redis_view raw grace prefix (re_ms e) r) k tok l"
    and "redis_Release R prefix e k tok r = (err, r')"
  shows "lost_error err \<and> r' = r"
proof (cases rule: finish_outcomes [OF assms(1), of "re_ms e" k tok])
  case (2 s)
  then show ?thesis using assms(2,4)
    by (auto simp: redis_Release_def run_script_def redis_up_def releaseScript_def lost_error_def Let_def)
qed (use assms(3) in blast)

end

text \<open>On a server that keeps its laws, the store keeps the contract.\<close>

sublocale redis_deployment \<subseteq> rs: lease_store "redis_Store R prefix" "redis_inv raw prefix"
  "redis_view raw grace prefix" re_ms redis_up "redis_grant grace" "redis_keep grace" "redis_rebuilt grace"
proof (unfold_locales, goal_cases)
  case (1 s t k l)
  then obtain f d where fd: "l = redis_lease grace f d" "t < d + grace" by (auto elim: redis_view_Some)
  then show ?case by (auto simp: redis_lease_def state_of_def known_state_def)
next
  case (2 s t u)
  show ?case by (rule redis_view_later) (rule 2)
next
  case (3 s r e res s')
  then show ?case using redis_reserve_state [of s e r res s'] by simp
next
  case (4 s e k tok p ttl err s')
  then show ?case using redis_complete_state [of s e k tok p ttl err s'] by simp
next
  case (5 s e k tok err s')
  then show ?case using redis_release_state [of s e k tok err s'] by simp
next
  case (6 s e r res s' t)
  from redis_reserve_free [OF 6(1,2,4) 6(5) [unfolded redis_Store_sel], of t] show ?case
    by (simp add: live_at_upd_Some redis_view_later [OF 6(6), symmetric])
next
  case (7 s e r l res s' t)
  from redis_reserve_taken [OF 7(1,2,4) 7(5) [unfolded redis_Store_sel]] show ?case by auto
next
  case (8 s e k tok l p ttl err s' t)
  from redis_complete_held [OF 8(1-3) 8(4) [unfolded redis_Store_sel], of t] show ?case
    by (simp add: live_at_upd_Some redis_view_later [OF 8(5), symmetric])
next
  case (9 s e k tok p ttl err s' t)
  from redis_complete_lost [OF 9(1-3) 9(4) [unfolded redis_Store_sel]] show ?case by simp
next
  case (10 s e k tok l err s' t)
  from redis_release_held [OF 10(1-3) 10(4) [unfolded redis_Store_sel]] show ?case by simp
next
  case (11 s e k tok err s' t)
  from redis_release_lost [OF 11(1-3) 11(4) [unfolded redis_Store_sel]] show ?case by simp
qed

text \<open>The store with its default prefix on the reference server.\<close>

interpretation rd: redis_deployment reference_redis ref_raw 1 "redis_New []"
  by unfold_locales

end
