(* ===== verification/Pg_Store.thy ===== *)
theory Pg_Store
  imports Core "HOL-Library.AList"
begin

section \<open>The PostgreSQL store\<close>

text \<open>
  \<^verbatim>\<open>pgstore/pgstore.go\<close>: the statements the store issues, each as a function of the table, and
  the Go code around them. A table is a list of rows under distinct keys, in the order of the
  heap (which is what a \<^verbatim>\<open>LIMIT\<close> without \<^verbatim>\<open>ORDER BY\<close> follows). \<^verbatim>\<open>now()\<close> is the start of the
  statement's transaction, in microseconds. Each statement has its own environment: what other
  sessions commit before it, its failure before or after taking effect, its \<^verbatim>\<open>now()\<close>, and
  the caller's clock next to it.

  When the statements of an operation succeed and nobody interferes between them, the
  store keeps the contract \<open>lease_store\<close>, on the database's clock.
\<close>

definition stateReserved_pg :: int where
  "stateReserved_pg = 1"

definition stateCompleted_pg :: int where
  "stateCompleted_pg = 2"

definition DefaultTable :: string where
  "DefaultTable = ''idemlease_records''"

subsection \<open>Table names\<close>

definition ident_start :: "char \<Rightarrow> bool" where
  "ident_start c \<longleftrightarrow> (65 \<le> (of_char c :: nat) \<and> (of_char c :: nat) \<le> 90) \<or>
     (97 \<le> (of_char c :: nat) \<and> (of_char c :: nat) \<le> 122) \<or> c = CHR ''_''"

definition ident_char :: "char \<Rightarrow> bool" where
  "ident_char c \<longleftrightarrow> ident_start c \<or> (48 \<le> (of_char c :: nat) \<and> (of_char c :: nat) \<le> 57)"

definition is_ident :: "string \<Rightarrow> bool" where
  "is_ident s = (case s of [] \<Rightarrow> False | c # cs \<Rightarrow> ident_start c \<and> list_all ident_char cs)"

text \<open>\<^verbatim>\<open>identifierRE\<close>: an identifier, or two joined by a dot.\<close>

definition identifierRE :: "string \<Rightarrow> bool" where
  "identifierRE s =
     (let a = takeWhile (\<lambda>c. c \<noteq> CHR ''.'') s; b = dropWhile (\<lambda>c. c \<noteq> CHR ''.'') s in
      is_ident a \<and> (case b of [] \<Rightarrow> True | _ # t \<Rightarrow> is_ident t))"

definition mustValidIdentifier :: "string \<Rightarrow> unit option" where
  "mustValidIdentifier table = (if identifierRE table then Some () else None)"

text \<open>\<^verbatim>\<open>New\<close> applies the options to the table name and panics (\<open>None\<close>) on an invalid one.\<close>

definition pg_Table :: "string \<Rightarrow> string \<Rightarrow> string" where
  "pg_Table name t = name"

definition pg_New :: "(string \<Rightarrow> string) list \<Rightarrow> string option" where
  "pg_New opts = (let t = foldl (\<lambda>s opt. opt s) DefaultTable opts in map_option (\<lambda>_. t) (mustValidIdentifier t))"

text \<open>The statement that creates the table, with one column per line; \<open>None\<close> is the panic.\<close>

definition schema_columns :: "string list" where
  "schema_columns = [''key               bytea       PRIMARY KEY'', ''state             smallint    NOT NULL'',
     ''token             text        NOT NULL'', ''fingerprint       bytea       NOT NULL DEFAULT '' @ [CHR 0x27, CHR 0x27] @ ''::bytea'',
     ''payload           bytea'', ''lease_expires_at  timestamptz NOT NULL'', ''record_expires_at timestamptz'',
     ''created_at        timestamptz NOT NULL DEFAULT now()'']"

definition Schema :: "string \<Rightarrow> string option" where
  "Schema table = map_option (\<lambda>_. ''CREATE TABLE IF NOT EXISTS '' @ table @ '' ('' @ [CHR 0x0A] @
     concat (map (\<lambda>c. ''    '' @ c @ [CHR '','', CHR 0x0A]) (butlast schema_columns)) @ ''    '' @ last schema_columns @ [CHR 0x0A] @ '');'')
     (mustValidIdentifier table)"

subsection \<open>Rows and statements\<close>

record pg_row =
  row_state :: int
  row_token :: string
  row_fingerprint :: bytes
  row_payload :: "bytes option"
  row_lease :: int
  row_record :: "int option"
  row_created :: int

type_synonym pg_table = "(string \<times> pg_row) list"

definition row_live :: "int \<Rightarrow> pg_row \<Rightarrow> bool" where
  "row_live now x \<longleftrightarrow> (row_state x = stateReserved_pg \<and> row_lease x > now) \<or>
     (row_state x = stateCompleted_pg \<and> (case row_record x of None \<Rightarrow> False | Some d \<Rightarrow> d > now))"

definition row_expired :: "int \<Rightarrow> pg_row \<Rightarrow> bool" where
  "row_expired now x \<longleftrightarrow> (row_state x = stateReserved_pg \<and> row_lease x \<le> now) \<or>
     (row_state x = stateCompleted_pg \<and> (case row_record x of None \<Rightarrow> False | Some d \<Rightarrow> d \<le> now))"

text \<open>\<^verbatim>\<open>(extract(epoch from d) * 1000)::bigint\<close> of an interval in microseconds: rounded to nearest.\<close>

definition interval_ms :: "int \<Rightarrow> int" where
  "interval_ms d = (if d \<ge> 0 then (d + 500) div 1000 else - ((- d + 500) div 1000))"

definition plus_ms :: "int \<Rightarrow> int \<Rightarrow> int" where
  "plus_ms now ms = now + ms * 1000"

definition qReserve :: "int \<Rightarrow> string \<Rightarrow> string \<Rightarrow> bytes \<Rightarrow> int \<Rightarrow> pg_table \<Rightarrow> int option \<times> pg_table" where
  "qReserve now key token fp ms tbl =
     (let new = \<lparr>row_state = stateReserved_pg, row_token = token, row_fingerprint = fp, row_payload = None,
                 row_lease = plus_ms now ms, row_record = None, row_created = now\<rparr>;
          claim = (Some (interval_ms (row_lease new - now)), AList.update key new tbl)
      in case map_of tbl key of
           None \<Rightarrow> claim
         | Some x \<Rightarrow> if row_expired now x then claim else (None, tbl))"

definition qReserveExists :: "int \<Rightarrow> string \<Rightarrow> pg_table \<Rightarrow> (pg_row \<times> int \<times> int option) option" where
  "qReserveExists now key tbl = (case map_of tbl key of
       None \<Rightarrow> None
     | Some x \<Rightarrow> if row_live now x
         then Some (x, interval_ms (row_lease x - now), map_option (\<lambda>d. interval_ms (d - now)) (row_record x))
         else None)"

definition qGet :: "int \<Rightarrow> string \<Rightarrow> pg_table \<Rightarrow> (pg_row \<times> int \<times> int option) option" where
  "qGet now key tbl = (case map_of tbl key of
       None \<Rightarrow> None
     | Some x \<Rightarrow> if row_live now x
         then Some (x, interval_ms (row_lease x - now), map_option (\<lambda>d. interval_ms (d - now)) (row_record x))
         else None)"

definition row_held :: "int \<Rightarrow> string \<Rightarrow> pg_row \<Rightarrow> bool" where
  "row_held now token x \<longleftrightarrow> row_token x = token \<and> row_state x = stateReserved_pg \<and> row_lease x > now"

definition qComplete :: "int \<Rightarrow> string \<Rightarrow> string \<Rightarrow> bytes \<Rightarrow> int \<Rightarrow> pg_table \<Rightarrow> int \<times> pg_table" where
  "qComplete now key token payload ms tbl = (case map_of tbl key of
       None \<Rightarrow> (0, tbl)
     | Some x \<Rightarrow> if row_held now token x
         then (1, AList.update key (x\<lparr>row_state := stateCompleted_pg, row_payload := Some payload,
                row_record := Some (plus_ms now ms)\<rparr>) tbl)
         else (0, tbl))"

definition qClassify :: "int \<Rightarrow> string \<Rightarrow> pg_table \<Rightarrow> string option" where
  "qClassify now key tbl = (case map_of tbl key of
       None \<Rightarrow> None
     | Some x \<Rightarrow> if row_state x = stateReserved_pg \<and> row_lease x > now then Some (row_token x) else None)"

definition qClassifyTx :: "int \<Rightarrow> string \<Rightarrow> pg_table \<Rightarrow> (int \<times> string) option" where
  "qClassifyTx now key tbl = (case map_of tbl key of
       None \<Rightarrow> None
     | Some x \<Rightarrow> if row_live now x then Some (row_state x, row_token x) else None)"

definition qRelease :: "int \<Rightarrow> string \<Rightarrow> string \<Rightarrow> pg_table \<Rightarrow> int \<times> pg_table" where
  "qRelease now key token tbl = (case map_of tbl key of
       None \<Rightarrow> (0, tbl)
     | Some x \<Rightarrow> if row_held now token x then (1, AList.delete key tbl) else (0, tbl))"

definition qSweep :: "int \<Rightarrow> nat \<Rightarrow> pg_table \<Rightarrow> int \<times> pg_table" where
  "qSweep now limit tbl =
     (let keys = take limit (map fst (filter (\<lambda>(k, x). row_expired now x) tbl))
      in (int (length (filter (\<lambda>(k, x). k \<in> set keys) tbl)), filter (\<lambda>(k, x). k \<notin> set keys) tbl))"

subsection \<open>Running a statement\<close>

text \<open>What other sessions run on the table: the statements of this store.\<close>

datatype pg_op =
    OpReserve int string string bytes int
  | OpComplete int string string bytes int
  | OpRelease int string string
  | OpSweep int nat

fun pg_apply :: "pg_table \<Rightarrow> pg_op \<Rightarrow> pg_table" where
  "pg_apply tbl (OpReserve now k tok fp ms) = snd (qReserve now k tok fp ms tbl)"
| "pg_apply tbl (OpComplete now k tok p ms) = snd (qComplete now k tok p ms tbl)"
| "pg_apply tbl (OpRelease now k tok) = snd (qRelease now k tok tbl)"
| "pg_apply tbl (OpSweep now limit) = snd (qSweep now limit tbl)"

definition others :: "pg_op list \<Rightarrow> pg_table \<Rightarrow> pg_table" where
  "others ops tbl = foldl pg_apply tbl ops"

record pg_stmt =
  st_between :: "pg_op list"
  st_fail :: "gerror option"
  st_lost :: "gerror option"
  st_now :: int
  st_clock :: Time

definition run_stmt :: "pg_stmt \<Rightarrow> (int \<Rightarrow> pg_table \<Rightarrow> 'x \<times> pg_table) \<Rightarrow> pg_table \<Rightarrow> (gerror + 'x) \<times> pg_table" where
  "run_stmt q f tbl = (case st_fail q of
       Some e \<Rightarrow> (Inl e, others (st_between q) tbl)
     | None \<Rightarrow> (let (x, tbl') = f (st_now q) (others (st_between q) tbl) in
         case st_lost q of Some e \<Rightarrow> (Inl e, tbl') | None \<Rightarrow> (Inr x, tbl')))"

text \<open>\<^verbatim>\<open>Row.Scan\<close>: no row is \<^verbatim>\<open>sql.ErrNoRows\<close>.\<close>

definition scan :: "gerror + 'x option \<Rightarrow> gerror + 'x" where
  "scan r = (case r of Inl e \<Rightarrow> Inl e | Inr None \<Rightarrow> Inl (Sentinel ErrNoRows) | Inr (Some x) \<Rightarrow> Inr x)"

definition leaseTTLMillis :: "Time \<Rightarrow> Record \<Rightarrow> int" where
  "leaseTTLMillis now rc = (let ms = Milliseconds (time_Sub (LeaseExpiresAt rc) now) in if ms < 1 then 1 else ms)"

definition recordTTLMillis :: "Duration \<Rightarrow> int" where
  "recordTTLMillis d = (let ms = Milliseconds (wrap64 d) in if ms < 1 then 1 else ms)"

definition scanRecord :: "Time \<Rightarrow> string \<Rightarrow> gerror + (pg_row \<times> int \<times> int option) option \<Rightarrow> gerror + Record" where
  "scanRecord now key r = (case scan r of
       Inl e \<Rightarrow> Inl e
     | Inr (x, leaseMs, recMs) \<Rightarrow>
         (let rc = \<lparr>Key = key, Fingerprint = row_fingerprint x, State = 0, Token = row_token x,
                LeaseExpiresAt = zero_Time, RecordExpiresAt = zero_Time,
                Payload = (case row_payload x of None \<Rightarrow> [] | Some p \<Rightarrow> p)\<rparr>
          in if row_state x = stateReserved_pg then
               Inr (rc\<lparr>State := StateReserved, LeaseExpiresAt := time_Add now (wrap64 (wrap64 leaseMs * Millisecond))\<rparr>)
             else if row_state x = stateCompleted_pg then
               Inr (case recMs of
                      None \<Rightarrow> rc\<lparr>State := StateCompleted\<rparr>
                    | Some ms \<Rightarrow> rc\<lparr>State := StateCompleted, RecordExpiresAt := time_Add now (wrap64 (wrap64 ms * Millisecond))\<rparr>)
             else Inl (Opaque (''pgstore: record '' @ [CHR 0x22] @ key @ [CHR 0x22] @ '' has invalid state '' @ FormatInt (row_state x)))))"

subsection \<open>The operations\<close>

record pg_env =
  pe_claim :: "nat \<Rightarrow> pg_stmt"
  pe_read :: "nat \<Rightarrow> pg_stmt"
  pe_exec :: pg_stmt
  pe_classify :: pg_stmt

fun reserve_from :: "nat \<Rightarrow> pg_env \<Rightarrow> Record \<Rightarrow> pg_table \<Rightarrow> (Record option \<times> gerror option) \<times> pg_table" where
  "reserve_from 0 e rc tbl = ((None, Some (Opaque ''pgstore: reserve: claim kept losing to a vanishing record'')), tbl)"
| "reserve_from (Suc n) e rc tbl =
     (let attempt = 2 - n; q = pe_claim e attempt;
          (claimed, tbl1) = run_stmt q (\<lambda>now. qReserve now (Key rc) (Token rc) (Fingerprint rc) (leaseTTLMillis (st_clock q) rc)) tbl
      in case scan claimed of
           Inr leaseMs \<Rightarrow> ((None, None), tbl1)
         | Inl err \<Rightarrow>
             if \<not> errors_Is err ErrNoRows then ((None, Some (wrap_after ''pgstore: reserve: '' err)), tbl1)
             else let p = pe_read e attempt;
                      (row, tbl2) = run_stmt p (\<lambda>now t. (qReserveExists now (Key rc) t, t)) tbl1
               in case scanRecord (st_clock p) (Key rc) row of
                    Inr existing \<Rightarrow> ((Some existing, Some (Sentinel ErrAlreadyExists)), tbl2)
                  | Inl err2 \<Rightarrow>
                      if errors_Is err2 ErrNoRows then reserve_from n e rc tbl2
                      else ((None, Some (wrap_after ''pgstore: reserve read existing: '' err2)), tbl2))"

definition pg_Reserve :: "(pg_table, pg_env) reserve_op" where
  "pg_Reserve e rc tbl = reserve_from 3 e rc tbl"

definition classifyFailure :: "pg_env \<Rightarrow> string \<Rightarrow> string \<Rightarrow> string \<Rightarrow> pg_table \<Rightarrow> gerror option \<times> pg_table" where
  "classifyFailure e key token op tbl =
     (let (row, tbl1) = run_stmt (pe_classify e) (\<lambda>now t. (qClassify now key t, t)) tbl
      in case scan row of
           Inl err \<Rightarrow> if errors_Is err ErrNoRows then (Some (Sentinel ErrNotFound), tbl1)
                      else (Some (wrap_after (''pgstore: '' @ op @ '' classify: '') err), tbl1)
         | Inr current \<Rightarrow> if current \<noteq> token then (Some (Sentinel ErrTokenMismatch), tbl1)
                          else (Some (Sentinel ErrNotFound), tbl1))"

definition pg_Complete :: "(pg_table, pg_env) complete_op" where
  "pg_Complete e key token payload ttl tbl =
     (let (res, tbl1) = run_stmt (pe_exec e) (\<lambda>now. qComplete now key token payload (recordTTLMillis ttl)) tbl
      in case res of
           Inl err \<Rightarrow> (Some (wrap_after ''pgstore: complete: '' err), tbl1)
         | Inr n \<Rightarrow> if n = 1 then (None, tbl1) else classifyFailure e key token ''complete'' tbl1)"

definition pg_Release :: "(pg_table, pg_env) release_op" where
  "pg_Release e key token tbl =
     (let (res, tbl1) = run_stmt (pe_exec e) (\<lambda>now. qRelease now key token) tbl
      in case res of
           Inl err \<Rightarrow> (Some (wrap_after ''pgstore: release: '' err), tbl1)
         | Inr n \<Rightarrow> if n = 1 then (None, tbl1) else classifyFailure e key token ''release'' tbl1)"

definition pg_Get :: "(pg_table, pg_env) get_op" where
  "pg_Get e key tbl =
     (let q = pe_exec e; (row, tbl1) = run_stmt q (\<lambda>now t. (qGet now key t, t)) tbl
      in case scanRecord (st_clock q) key row of
           Inl err \<Rightarrow> if errors_Is err ErrNoRows then ((None, None), tbl1)
                      else ((None, Some (wrap_after ''pgstore: get: '' err)), tbl1)
         | Inr rc \<Rightarrow> ((Some rc, None), tbl1))"

definition pg_Store :: "(pg_table, pg_env) Store" where
  "pg_Store = \<lparr>Reserve = pg_Reserve, Complete = pg_Complete, Release = pg_Release, Get = pg_Get\<rparr>"

text \<open>\<^verbatim>\<open>CompleteTx\<close>: both statements run in the caller's transaction, on the rows it sees.\<close>

definition CompleteTx :: "pg_env \<Rightarrow> string \<Rightarrow> string \<Rightarrow> bytes \<Rightarrow> Duration \<Rightarrow> pg_table \<Rightarrow>
    (bool \<times> gerror option) \<times> pg_table" where
  "CompleteTx e key token payload ttl tbl =
     (let (res, tbl1) = run_stmt (pe_exec e) (\<lambda>now. qComplete now key token payload (recordTTLMillis ttl)) tbl
      in case res of
           Inl err \<Rightarrow> ((False, Some (wrap_after ''pgstore: complete tx: '' err)), tbl1)
         | Inr n \<Rightarrow>
             if n = 1 then ((False, None), tbl1)
             else let (row, tbl2) = run_stmt (pe_classify e) (\<lambda>now t. (qClassifyTx now key t, t)) tbl1
               in case scan row of
                    Inl err \<Rightarrow> if errors_Is err ErrNoRows then ((True, None), tbl2)
                               else ((False, Some (wrap_after ''pgstore: complete tx classify: '' err)), tbl2)
                  | Inr (state, current) \<Rightarrow>
                      if state = stateCompleted_pg \<and> current = token
                      then ((False, Some (Sentinel ErrAlreadyCompleted)), tbl2)
                      else ((True, None), tbl2))"

definition Sweep :: "pg_stmt \<Rightarrow> int \<Rightarrow> pg_table \<Rightarrow> (int \<times> gerror option) \<times> pg_table" where
  "Sweep q limit tbl =
     (let (res, tbl1) = (if limit < 0 then (Inl (Opaque ''LIMIT must not be negative''), others (st_between q) tbl)
                         else run_stmt q (\<lambda>now. qSweep now (nat limit)) tbl)
      in case res of
           Inl err \<Rightarrow> ((0, Some (wrap_after ''pgstore: sweep: '' err)), tbl1)
         | Inr n \<Rightarrow> ((n, None), tbl1))"

subsection \<open>The invariant of the table\<close>

definition row_ok :: "pg_row \<Rightarrow> bool" where
  "row_ok x \<longleftrightarrow> row_state x = stateReserved_pg \<or> (row_state x = stateCompleted_pg \<and> row_record x \<noteq> None)"

text \<open>The primary key, and no completed row without a record deadline.\<close>

definition pg_inv :: "pg_table \<Rightarrow> bool" where
  "pg_inv tbl \<longleftrightarrow> distinct (map fst tbl) \<and> (\<forall>k x. map_of tbl k = Some x \<longrightarrow> row_ok x)"

lemma pg_inv_update: "pg_inv tbl \<Longrightarrow> row_ok x \<Longrightarrow> pg_inv (AList.update k x tbl)"
  by (auto simp: pg_inv_def distinct_update update_conv' split: if_splits)

lemma pg_inv_delete: "pg_inv tbl \<Longrightarrow> pg_inv (AList.delete k tbl)"
  by (auto simp: pg_inv_def distinct_delete delete_conv' split: if_splits)

lemma map_of_filter_keys:
  "map_of (filter (\<lambda>(k, x). P k) tbl) k = (if P k then map_of tbl k else None)"
  by (induction tbl) auto

lemma distinct_filter_keys: "distinct (map fst tbl) \<Longrightarrow> distinct (map fst (filter P tbl))"
  by (induction tbl) auto

lemma qReserve_inv: "pg_inv tbl \<Longrightarrow> pg_inv (snd (qReserve now k tok fp ms tbl))"
  by (auto simp: qReserve_def Let_def row_ok_def intro!: pg_inv_update split: option.splits)

lemma qComplete_inv: "pg_inv tbl \<Longrightarrow> pg_inv (snd (qComplete now k tok p ms tbl))"
  by (auto simp: qComplete_def row_ok_def intro!: pg_inv_update split: option.splits)

lemma qRelease_inv: "pg_inv tbl \<Longrightarrow> pg_inv (snd (qRelease now k tok tbl))"
  by (auto simp: qRelease_def pg_inv_delete split: option.splits)

lemma qSweep_inv: "pg_inv tbl \<Longrightarrow> pg_inv (snd (qSweep now limit tbl))"
  by (auto simp: qSweep_def Let_def pg_inv_def map_of_filter_keys distinct_filter_keys split: if_splits)

lemmas statement_inv = qReserve_inv qComplete_inv qRelease_inv qSweep_inv

lemma pg_apply_inv: "pg_inv tbl \<Longrightarrow> pg_inv (pg_apply tbl a)"
  by (cases a) (simp_all add: statement_inv)

lemma others_inv: "pg_inv tbl \<Longrightarrow> pg_inv (others ops tbl)"
  unfolding others_def by (induction ops arbitrary: tbl) (simp_all add: pg_apply_inv)

lemma run_stmt_inv:
  assumes "pg_inv tbl" "\<And>t. pg_inv t \<Longrightarrow> pg_inv (snd (f (st_now q) t))" "run_stmt q f tbl = (res, tbl')"
  shows "pg_inv tbl'"
  using assms(3) others_inv [OF assms(1), of "st_between q"] assms(2) [OF others_inv [OF assms(1), of "st_between q"]]
  by (auto simp: run_stmt_def split_beta split: option.splits)

lemma run_stmt_query_inv: "pg_inv tbl \<Longrightarrow> run_stmt q (\<lambda>now t. (g now t, t)) tbl = (res, tbl') \<Longrightarrow> pg_inv tbl'"
  by (erule run_stmt_inv) simp_all

lemma reserve_from_inv: "pg_inv tbl \<Longrightarrow> reserve_from n e rc tbl = (res, tbl') \<Longrightarrow> pg_inv tbl'"
proof (induction n arbitrary: tbl)
  case (Suc n)
  let ?q = "pe_claim e (2 - n)" and ?p = "pe_read e (2 - n)"
  obtain cl t1 where C: "run_stmt ?q (\<lambda>now. qReserve now (Key rc) (Token rc) (Fingerprint rc)
      (leaseTTLMillis (st_clock ?q) rc)) tbl = (cl, t1)" by (meson surj_pair)
  obtain row t2 where Q: "run_stmt ?p (\<lambda>now t. (qReserveExists now (Key rc) t, t)) t1 = (row, t2)" by (meson surj_pair)
  have 1: "pg_inv t1" by (rule run_stmt_inv [OF Suc.prems(1) _ C]) (simp add: qReserve_inv)
  have 2: "pg_inv t2" by (rule run_stmt_query_inv [OF 1 Q])
  show ?case
    using Suc.prems(2) C Q 1 2 Suc.IH [OF 2]
    by (auto simp: Let_def split: sum.splits if_splits)
qed simp

lemma classifyFailure_inv: "pg_inv tbl \<Longrightarrow> classifyFailure e k tok op tbl = (res, tbl') \<Longrightarrow> pg_inv tbl'"
  using run_stmt_query_inv [of tbl "pe_classify e" "\<lambda>now. qClassify now k"]
  by (auto simp: classifyFailure_def split: prod.splits sum.splits if_splits)

lemma pg_Complete_inv:
  assumes "pg_inv tbl" "pg_Complete e k tok p ttl tbl = (err, tbl')"
  shows "pg_inv tbl'"
proof -
  obtain x t1 where E: "run_stmt (pe_exec e) (\<lambda>now. qComplete now k tok p (recordTTLMillis ttl)) tbl = (x, t1)"
    by (meson surj_pair)
  have "pg_inv t1" by (rule run_stmt_inv [OF assms(1) _ E]) (simp add: qComplete_inv)
  then show ?thesis using assms(2) E classifyFailure_inv
    by (auto simp: pg_Complete_def split: sum.splits if_splits)
qed

lemma pg_Release_inv:
  assumes "pg_inv tbl" "pg_Release e k tok tbl = (err, tbl')"
  shows "pg_inv tbl'"
proof -
  obtain x t1 where E: "run_stmt (pe_exec e) (\<lambda>now. qRelease now k tok) tbl = (x, t1)" by (meson surj_pair)
  have "pg_inv t1" by (rule run_stmt_inv [OF assms(1) _ E]) (simp add: qRelease_inv)
  then show ?thesis using assms(2) E classifyFailure_inv
    by (auto simp: pg_Release_def split: sum.splits if_splits)
qed

subsection \<open>The logical content\<close>

definition row_deadline :: "pg_row \<Rightarrow> int" where
  "row_deadline x = (if row_state x = stateReserved_pg then row_lease x else the (row_record x))"

definition row_lease_of :: "pg_row \<Rightarrow> lease" where
  "row_lease_of x = \<lparr>l_state = (if row_state x = stateReserved_pg then StateReserved else StateCompleted),
     l_token = row_token x, l_fp = row_fingerprint x,
     l_payload = (case row_payload x of None \<Rightarrow> [] | Some p \<Rightarrow> p), l_deadline = row_deadline x\<rparr>"

definition pg_view :: "Time \<Rightarrow> pg_table \<Rightarrow> view" where
  "pg_view t tbl = (\<lambda>k. case map_of tbl k of None \<Rightarrow> None | Some x \<Rightarrow> if row_live t x then Some (row_lease_of x) else None)"

lemma pg_states [simp]: "stateReserved_pg \<noteq> stateCompleted_pg" "stateCompleted_pg \<noteq> stateReserved_pg"
  by (simp_all add: stateReserved_pg_def stateCompleted_pg_def)

lemma row_live_ok: "row_ok x \<Longrightarrow> row_live t x \<longleftrightarrow> t < row_deadline x"
  by (auto simp: row_ok_def row_live_def row_deadline_def)

lemma row_expired_ok: "row_ok x \<Longrightarrow> row_expired t x \<longleftrightarrow> \<not> row_live t x"
  by (auto simp: row_ok_def row_live_def row_expired_def)

lemma pg_view_update:
  "pg_view t (AList.update k x tbl) = (pg_view t tbl)(k := if row_live t x then Some (row_lease_of x) else None)"
  by (auto simp: pg_view_def update_conv' fun_eq_iff)

lemma pg_view_delete: "pg_view t (AList.delete k tbl) = (pg_view t tbl)(k := None)"
  by (auto simp: pg_view_def delete_conv' fun_eq_iff)

lemma pg_view_Some:
  assumes "pg_inv tbl" "pg_view t tbl k = Some l"
  obtains x where "map_of tbl k = Some x" "row_ok x" "row_live t x" "l = row_lease_of x" "t < row_deadline x"
  using assms row_live_ok by (auto simp: pg_view_def pg_inv_def split: option.splits if_splits)

lemma pg_view_None:
  "pg_inv tbl \<Longrightarrow> pg_view t tbl k = None \<Longrightarrow> map_of tbl k = Some x \<Longrightarrow> row_ok x \<and> \<not> row_live t x"
  by (auto simp: pg_view_def pg_inv_def split: if_splits)

lemma pg_view_later:
  assumes "pg_inv tbl" "t \<le> u"
  shows "pg_view u tbl = live_at u (pg_view t tbl)"
proof (rule ext)
  fix k
  show "pg_view u tbl k = live_at u (pg_view t tbl) k"
  proof (cases "map_of tbl k")
    case (Some x)
    then have "row_ok x" using assms(1) by (simp add: pg_inv_def)
    then show ?thesis using Some assms(2) by (simp add: pg_view_def live_at_def row_live_ok row_lease_of_def)
  qed (simp add: pg_view_def live_at_def)
qed

lemma pg_held_by:
  assumes "pg_inv tbl"
  shows "held_by (pg_view t tbl) k tok l \<longleftrightarrow> (\<exists>x. map_of tbl k = Some x \<and> row_held t tok x \<and> l = row_lease_of x)"
  by (auto simp: held_by_def pg_view_def row_held_def row_live_def row_lease_of_def split: option.splits if_splits)

subsection \<open>The contract\<close>

definition quiet :: "int \<Rightarrow> pg_stmt \<Rightarrow> bool" where
  "quiet now q \<longleftrightarrow> st_between q = [] \<and> st_fail q = None \<and> st_lost q = None \<and> st_now q = now"

definition pg_clock :: "pg_env \<Rightarrow> Time" where
  "pg_clock e = st_now (pe_exec e)"

definition pg_up :: "pg_env \<Rightarrow> bool" where
  "pg_up e \<longleftrightarrow> quiet (pg_clock e) (pe_claim e 0) \<and> quiet (pg_clock e) (pe_read e 0) \<and>
     quiet (pg_clock e) (pe_exec e) \<and> quiet (pg_clock e) (pe_classify e)"

definition pg_grant :: "pg_env \<Rightarrow> Record \<Rightarrow> Time" where
  "pg_grant e rc = plus_ms (pg_clock e) (leaseTTLMillis (st_clock (pe_claim e 0)) rc)"

definition pg_keep :: "pg_env \<Rightarrow> Duration \<Rightarrow> Time" where
  "pg_keep e ttl = plus_ms (pg_clock e) (recordTTLMillis ttl)"

definition pg_rebuilt :: "pg_env \<Rightarrow> Time \<Rightarrow> Time" where
  "pg_rebuilt e d = st_clock (pe_read e 0) + wrap64 (wrap64 (interval_ms (d - pg_clock e)) * Millisecond)"

lemma run_quiet: "quiet now q \<Longrightarrow> run_stmt q f tbl = (let (x, t) = f now tbl in (Inr x, t))"
  by (simp add: quiet_def run_stmt_def others_def)

lemma leaseTTLMillis_pos: "0 < leaseTTLMillis now rc" and recordTTLMillis_pos: "0 < recordTTLMillis d"
  by (simp_all add: leaseTTLMillis_def recordTTLMillis_def Let_def)

lemma qReserve_free:
  assumes "pg_inv tbl" "pg_view now tbl k = None"
  shows "qReserve now k tok fp ms tbl = (Some (interval_ms (ms * 1000)), AList.update k
    \<lparr>row_state = stateReserved_pg, row_token = tok, row_fingerprint = fp, row_payload = None,
     row_lease = plus_ms now ms, row_record = None, row_created = now\<rparr> tbl)"
proof (cases "map_of tbl k")
  case (Some x)
  then have "row_expired now x" using pg_view_None [OF assms Some] row_expired_ok by blast
  then show ?thesis using Some by (simp add: qReserve_def plus_ms_def Let_def)
qed (simp add: qReserve_def plus_ms_def Let_def)

lemma pg_reserve_free:
  assumes "pg_inv tbl" "pg_up e" "pg_view (pg_clock e) tbl (Key rc) = None" "pg_Reserve e rc tbl = (res, tbl')"
  shows "res = (None, None) \<and> pg_view t tbl' =
    (pg_view t tbl)(Key rc := if t < pg_grant e rc then Some (new_lease rc (pg_grant e rc)) else None)"
proof -
  have q: "quiet (pg_clock e) (pe_claim e 0)" using assms(2) by (simp add: pg_up_def)
  show ?thesis
    using assms(4) qReserve_free [OF assms(1,3)]
    by (auto simp: pg_Reserve_def numeral_3_eq_3 run_quiet [OF q] scan_def pg_view_update row_live_def
        row_lease_of_def row_deadline_def new_lease_def pg_grant_def Let_def)
qed

lemma scanRecord_live:
  assumes "row_ok x" "row_live now x"
  obtains r where "scanRecord clk k (Inr (Some (x, interval_ms (row_lease x - now),
      map_option (\<lambda>d. interval_ms (d - now)) (row_record x)))) = Inr r"
    "reports r k (row_lease_of x)"
    "active_deadline r = clk + wrap64 (wrap64 (interval_ms (row_deadline x - now)) * Millisecond)"
  using assms
  by (auto simp: scanRecord_def scan_def row_ok_def reports_def row_lease_of_def active_deadline_def row_deadline_def
      time_Add_def Let_def)

lemma pg_reserve_taken:
  assumes "pg_inv tbl" "pg_up e" "pg_view (pg_clock e) tbl (Key rc) = Some l" "pg_Reserve e rc tbl = (res, tbl')"
  shows "tbl' = tbl \<and> (\<exists>x. res = (Some x, Some (Sentinel ErrAlreadyExists)) \<and> reports x (Key rc) l \<and>
    active_deadline x = pg_rebuilt e (l_deadline l))"
proof -
  have q: "quiet (pg_clock e) (pe_claim e 0)" "quiet (pg_clock e) (pe_read e 0)" using assms(2) by (simp_all add: pg_up_def)
  obtain x where x: "map_of tbl (Key rc) = Some x" "row_ok x" "row_live (pg_clock e) x" "l = row_lease_of x"
    using assms(1,3) by (rule pg_view_Some)
  obtain r where r: "scanRecord (st_clock (pe_read e 0)) (Key rc) (Inr (Some (x, interval_ms (row_lease x - pg_clock e),
      map_option (\<lambda>d. interval_ms (d - pg_clock e)) (row_record x)))) = Inr r" "reports r (Key rc) (row_lease_of x)"
    "active_deadline r = st_clock (pe_read e 0) + wrap64 (wrap64 (interval_ms (row_deadline x - pg_clock e)) * Millisecond)"
    using x(2,3) by (rule scanRecord_live)
  have "qReserve (pg_clock e) (Key rc) tok fp ms tbl = (None, tbl)" for tok fp ms
    using x row_expired_ok [OF x(2)] by (simp add: qReserve_def Let_def)
  moreover have "qReserveExists (pg_clock e) (Key rc) tbl = Some (x, interval_ms (row_lease x - pg_clock e),
      map_option (\<lambda>d. interval_ms (d - pg_clock e)) (row_record x))"
    using x by (simp add: qReserveExists_def)
  ultimately have "pg_Reserve e rc tbl = ((Some r, Some (Sentinel ErrAlreadyExists)), tbl)"
    using r(1) by (simp add: pg_Reserve_def numeral_3_eq_3 run_quiet [OF q(1)] run_quiet [OF q(2)] scan_def [of "Inr None"])
  then show ?thesis using assms(4) r(2,3) x(4) by (simp add: pg_rebuilt_def row_lease_of_def)
qed

lemma pg_classify_lost:
  assumes "quiet now (pe_classify e)" "classifyFailure e k tok op tbl = (err, tbl')"
  shows "lost_error err \<and> tbl' = tbl"
  using assms(2) by (auto simp: classifyFailure_def run_quiet [OF assms(1)] scan_def lost_error_def split: option.splits if_splits)

interpretation pg: lease_store pg_Store pg_inv pg_view pg_clock pg_up pg_grant pg_keep pg_rebuilt
proof (unfold_locales, goal_cases)
  case (1 s t k l)
  then show ?case by (auto elim!: pg_view_Some simp: known_state_def row_lease_of_def split: if_splits)
next
  case (2 s t u)
  then show ?case by (rule pg_view_later)
next
  case (3 s r e res s')
  then show ?case by (auto simp: pg_Store_def pg_Reserve_def intro: reserve_from_inv)
next
  case (4 s e k tok p ttl err s')
  then show ?case by (auto simp: pg_Store_def intro: pg_Complete_inv)
next
  case (5 s e k tok err s')
  then show ?case by (auto simp: pg_Store_def intro: pg_Release_inv)
next
  case (6 s e r res s' t)
  then show ?case using pg_reserve_free [OF 6(1,2,4), of res s' t]
    by (simp add: pg_Store_def live_at_upd_Some pg_view_later [OF 6(1,6), symmetric])
next
  case (7 s e r l res s' t)
  then show ?case using pg_reserve_taken [OF 7(1,2,4), of res s'] by (auto simp: pg_Store_def)
next
  case (8 s e k tok l p ttl err s' t)
  have q: "quiet (pg_clock e) (pe_exec e)" using 8(2) by (simp add: pg_up_def)
  obtain x where x: "map_of s k = Some x" "row_held (pg_clock e) tok x" "l = row_lease_of x"
    using 8(3) unfolding pg_held_by [OF 8(1)] by blast
  show ?case
    using 8(4) x
    by (auto simp: pg_Store_def pg_Complete_def run_quiet [OF q] qComplete_def live_at_upd_Some
        pg_view_later [OF 8(1,5), symmetric] pg_view_update row_live_def row_lease_of_def completed_lease_def
        row_deadline_def pg_keep_def)
next
  case (9 s e k tok p ttl err s' t)
  have q: "quiet (pg_clock e) (pe_exec e)" "quiet (pg_clock e) (pe_classify e)" using 9(2) by (simp_all add: pg_up_def)
  have "qComplete (pg_clock e) k tok p ms s = (0, s)" for ms
    using 9(3) unfolding pg_held_by [OF 9(1)] by (auto simp: qComplete_def split: option.splits)
  then show ?case using 9(4) pg_classify_lost [OF q(2), of k tok _ s err s']
    by (auto simp: pg_Store_def pg_Complete_def run_quiet [OF q(1)])
next
  case (10 s e k tok l err s' t)
  have q: "quiet (pg_clock e) (pe_exec e)" using 10(2) by (simp add: pg_up_def)
  show ?case using 10(3,4) unfolding pg_held_by [OF 10(1)]
    by (auto simp: pg_Store_def pg_Release_def run_quiet [OF q] qRelease_def pg_view_delete)
next
  case (11 s e k tok err s' t)
  have q: "quiet (pg_clock e) (pe_exec e)" "quiet (pg_clock e) (pe_classify e)" using 11(2) by (simp_all add: pg_up_def)
  have "qRelease (pg_clock e) k tok s = (0, s)"
    using 11(3) unfolding pg_held_by [OF 11(1)] by (auto simp: qRelease_def split: option.splits)
  then show ?case using 11(4) pg_classify_lost [OF q(2), of k tok _ s err s']
    by (auto simp: pg_Store_def pg_Release_def run_quiet [OF q(1)])
qed

subsection \<open>Under interference\<close>

text \<open>
  The table at the start of each iteration of \<^verbatim>\<open>Reserve\<close>'s loop, and the one its claim statement
  sees: what the earlier statements left, and what other sessions committed before it.
\<close>

definition claim_stmt :: "pg_env \<Rightarrow> Record \<Rightarrow> nat \<Rightarrow> pg_table \<Rightarrow> (gerror + int option) \<times> pg_table" where
  "claim_stmt e rc i = run_stmt (pe_claim e i)
     (\<lambda>now. qReserve now (Key rc) (Token rc) (Fingerprint rc) (leaseTTLMillis (st_clock (pe_claim e i)) rc))"

primrec iteration_starts :: "pg_env \<Rightarrow> Record \<Rightarrow> pg_table \<Rightarrow> nat \<Rightarrow> pg_table" where
  "iteration_starts e rc tbl 0 = tbl"
| "iteration_starts e rc tbl (Suc i) = others (st_between (pe_read e i)) (snd (claim_stmt e rc i (iteration_starts e rc tbl i)))"

definition claim_sees :: "pg_env \<Rightarrow> Record \<Rightarrow> pg_table \<Rightarrow> nat \<Rightarrow> pg_table" where
  "claim_sees e rc tbl i = others (st_between (pe_claim e i)) (iteration_starts e rc tbl i)"

text \<open>The row a claim leaves: a reservation for the caller, on the clock of the statement.\<close>

definition claimed_row :: "pg_env \<Rightarrow> Record \<Rightarrow> nat \<Rightarrow> pg_row" where
  "claimed_row e rc i = \<lparr>row_state = stateReserved_pg, row_token = Token rc, row_fingerprint = Fingerprint rc, row_payload = None,
     row_lease = plus_ms (st_now (pe_claim e i)) (leaseTTLMillis (st_clock (pe_claim e i)) rc), row_record = None,
     row_created = st_now (pe_claim e i)\<rparr>"

lemma query_leaves: "snd (run_stmt q (\<lambda>now t. (g now t, t)) tbl) = others (st_between q) tbl"
  by (simp add: run_stmt_def split: option.split)

lemma claim_stmt_inv: "pg_inv tbl \<Longrightarrow> pg_inv (snd (claim_stmt e rc i tbl))"
  unfolding claim_stmt_def by (rule run_stmt_inv [OF _ _ prod.collapse [symmetric]]) (simp_all add: qReserve_inv)

lemma iteration_starts_inv: "pg_inv tbl \<Longrightarrow> pg_inv (iteration_starts e rc tbl i)"
  by (induction i) (simp_all add: claim_stmt_inv others_inv)

lemma qReserve_granted:
  assumes "pg_inv tbl" "qReserve now k tok fp ms tbl = (Some i, tbl')"
  shows "pg_view now tbl k = None \<and> tbl' = AList.update k \<lparr>row_state = stateReserved_pg, row_token = tok, row_fingerprint = fp,
    row_payload = None, row_lease = plus_ms now ms, row_record = None, row_created = now\<rparr> tbl"
proof -
  have "pg_view now tbl k = None"
  proof (cases "map_of tbl k")
    case (Some x)
    then have "row_expired now x" "row_ok x" using assms by (auto simp: qReserve_def Let_def pg_inv_def split: if_splits)
    then show ?thesis using Some row_expired_ok by (simp add: pg_view_def)
  qed (simp add: pg_view_def)
  then show ?thesis using qReserve_free [OF assms(1)] assms(2) by simp
qed

lemma reserve_from_claims:
  assumes "i + n = 3" "reserve_from n e rc (iteration_starts e rc tbl i) = ((None, None), tbl')"
  shows "\<exists>j<3. \<exists>ms. claim_stmt e rc j (iteration_starts e rc tbl j) = (Inr (Some ms), tbl')"
  using assms
proof (induction n arbitrary: i)
  case (Suc n)
  let ?t = "iteration_starts e rc tbl i"
  have i: "2 - n = i" "i < 3" using Suc.prems(1) by simp_all
  obtain cl t1 where C: "claim_stmt e rc i ?t = (cl, t1)" by (meson surj_pair)
  obtain row t2 where Q: "run_stmt (pe_read e i) (\<lambda>now t. (qReserveExists now (Key rc) t, t)) t1 = (row, t2)" by (meson surj_pair)
  have next': "iteration_starts e rc tbl (Suc i) = t2"
    using C Q query_leaves [of "pe_read e i" "\<lambda>now. qReserveExists now (Key rc)" t1] by simp
  show ?case
  proof (cases "scan cl")
    case (Inr ms)
    then have "cl = Inr (Some ms)" by (auto simp: scan_def split: sum.splits option.splits)
    moreover have "tbl' = t1" using Suc.prems(2) C Inr by (simp add: Let_def i claim_stmt_def)
    ultimately show ?thesis using C i by blast
  next
    case (Inl err)
    then have "reserve_from n e rc t2 = ((None, None), tbl')"
      using Suc.prems(2) C Q by (auto simp: Let_def i claim_stmt_def split: if_splits sum.splits)
    then show ?thesis using Suc.IH [of "Suc i"] Suc.prems(1) next' by simp
  qed
qed simp

lemma claim_granted:
  assumes "pg_inv tbl" "claim_stmt e rc i (iteration_starts e rc tbl i) = (Inr (Some ms), tbl')"
  shows "st_fail (pe_claim e i) = None \<and> st_lost (pe_claim e i) = None \<and>
    pg_view (st_now (pe_claim e i)) (claim_sees e rc tbl i) (Key rc) = None \<and>
    tbl' = AList.update (Key rc) (claimed_row e rc i) (claim_sees e rc tbl i)"
proof -
  have inv: "pg_inv (claim_sees e rc tbl i)" unfolding claim_sees_def by (intro others_inv iteration_starts_inv assms(1))
  have ok: "st_fail (pe_claim e i) = None" "st_lost (pe_claim e i) = None"
    and q: "qReserve (st_now (pe_claim e i)) (Key rc) (Token rc) (Fingerprint rc) (leaseTTLMillis (st_clock (pe_claim e i)) rc)
      (claim_sees e rc tbl i) = (Some ms, tbl')"
    using assms(2) by (auto simp: claim_stmt_def claim_sees_def run_stmt_def split: option.splits prod.splits)
  then show ?thesis using qReserve_granted [OF inv q] by (simp add: claimed_row_def)
qed

fun op_now :: "pg_op \<Rightarrow> int" where
  "op_now (OpReserve now k tok fp ms) = now"
| "op_now (OpComplete now k tok p ms) = now"
| "op_now (OpRelease now k tok) = now"
| "op_now (OpSweep now limit) = now"

text \<open>No statement of another session touches a completed row before it expires.\<close>

lemma pg_apply_keeps_completed:
  assumes "map_of tbl k = Some x" "row_state x = stateCompleted_pg" "row_record x = Some d" "op_now a < d"
    and "distinct (map fst tbl)"
  shows "map_of (pg_apply tbl a) k = Some x"
proof (cases a)
  case (OpSweep now limit)
  have "k \<notin> set (take limit (map fst (filter (\<lambda>(k, x). row_expired now x) tbl)))"
  proof
    assume "k \<in> set (take limit (map fst (filter (\<lambda>(k, x). row_expired now x) tbl)))"
    then obtain y where "(k, y) \<in> set tbl" "row_expired now y" by (auto dest!: in_set_takeD)
    moreover from this have "y = x" using assms(1,5) by simp
    ultimately show False using assms(2-4) OpSweep by (simp add: row_expired_def)
  qed
  then show ?thesis using OpSweep assms(1) by (simp add: qSweep_def Let_def map_of_filter_keys)
next
  case (OpReserve now k' tok fp ms)
  then have "\<not> row_expired now x" using assms(2-4) by (simp add: row_expired_def)
  then show ?thesis using OpReserve assms(1)
    by (cases "k' = k") (auto simp: qReserve_def Let_def update_conv' split: option.split)
next
  case (OpComplete now k' tok p ms)
  have "\<not> row_held now tok x" using assms(2) by (simp add: row_held_def)
  then show ?thesis using OpComplete assms(1)
    by (cases "k' = k") (auto simp: qComplete_def update_conv' split: option.split)
next
  case (OpRelease now k' tok)
  have "\<not> row_held now tok x" using assms(2) by (simp add: row_held_def)
  then show ?thesis using OpRelease assms(1)
    by (cases "k' = k") (auto simp: qRelease_def delete_conv' split: option.split)
qed

lemma others_keep_completed:
  assumes "map_of tbl k = Some x" "row_state x = stateCompleted_pg" "row_record x = Some d" "\<forall>a\<in>set ops. op_now a < d"
    and "pg_inv tbl"
  shows "map_of (others ops tbl) k = Some x"
  using assms
proof (induction ops arbitrary: tbl)
  case (Cons a ops)
  have "map_of (pg_apply tbl a) k = Some x"
    using pg_apply_keeps_completed [OF Cons.prems(1-3), of a] Cons.prems(4,5) by (simp add: pg_inv_def)
  then show ?case
    using Cons.IH [OF _ Cons.prems(2,3) _ pg_apply_inv [OF Cons.prems(5)]] Cons.prems(4) by (simp add: others_def)
qed (simp add: others_def)

lemma CompleteTx_success:
  assumes "quiet now (pe_exec e)" "CompleteTx e k tok p ttl tbl = ((False, None), tbl1)"
  shows "\<exists>x. map_of tbl k = Some x \<and> row_held now tok x \<and> tbl1 = AList.update k (x\<lparr>row_state := stateCompleted_pg,
    row_payload := Some p, row_record := Some (plus_ms now (recordTTLMillis ttl))\<rparr>) tbl"
  using assms(2)
  by (auto simp: CompleteTx_def run_quiet [OF assms(1)] qComplete_def split: option.splits if_splits prod.splits sum.splits)

lemma CompleteTx_completed:
  assumes "quiet now (pe_exec e)" "quiet now (pe_classify e)"
    and "map_of tbl k = Some x" "row_state x = stateCompleted_pg" "row_record x = Some d" "now < d"
  shows "CompleteTx e k tok p ttl tbl =
    ((if row_token x = tok then (False, Some (Sentinel ErrAlreadyCompleted)) else (True, None)), tbl)"
  using assms(3-6)
  by (simp add: CompleteTx_def run_quiet [OF assms(1)] run_quiet [OF assms(2)] qComplete_def qClassifyTx_def row_held_def
      row_live_def scan_def)

lemma length_filter_keys:
  assumes "distinct (map fst tbl)"
  shows "length (filter (\<lambda>(k, x). k \<in> set ks) tbl) \<le> length ks"
proof -
  have "map fst (filter (\<lambda>(k, x). k \<in> set ks) tbl) = filter (\<lambda>k. k \<in> set ks) (map fst tbl)"
    by (induction tbl) auto
  then have "length (filter (\<lambda>(k, x). k \<in> set ks) tbl) = card (set (filter (\<lambda>k. k \<in> set ks) (map fst tbl)))"
    using assms by (metis distinct_card distinct_filter length_map)
  also have "\<dots> \<le> card (set ks)" by (intro card_mono) auto
  also have "\<dots> \<le> length ks" by (rule card_length)
  finally show ?thesis .
qed

lemma sweep_keys_expired:
  assumes "pg_inv tbl" "k \<in> set (take limit (map fst (filter (\<lambda>(k, x). row_expired now x) tbl)))"
  shows "\<exists>x. map_of tbl k = Some x \<and> row_expired now x"
proof -
  obtain x where "(k, x) \<in> set tbl" "row_expired now x" using assms(2) by (auto dest!: in_set_takeD)
  then show ?thesis using assms(1) by (auto simp: pg_inv_def)
qed

lemma pg_view_filter:
  assumes "pg_inv tbl" "\<And>k. k \<in> K \<Longrightarrow> \<exists>x. map_of tbl k = Some x \<and> (\<exists>now\<le>t. row_expired now x)"
  shows "pg_view t (filter (\<lambda>(k, x). k \<notin> K) tbl) = pg_view t tbl"
proof (rule ext)
  fix k
  show "pg_view t (filter (\<lambda>(k, x). k \<notin> K) tbl) k = pg_view t tbl k"
  proof (cases "k \<in> K")
    case True
    then obtain x now where "map_of tbl k = Some x" "now \<le> t" "row_expired now x" using assms(2) by blast
    then have "map_of tbl k = Some x" "\<not> row_live t x" by (auto simp: row_expired_def row_live_def split: option.splits)
    then show ?thesis using True by (simp add: pg_view_def map_of_filter_keys [where P = "\<lambda>k. k \<notin> K"])
  qed (simp add: pg_view_def map_of_filter_keys [where P = "\<lambda>k. k \<notin> K"])
qed

lemma is_ident_chars: "is_ident s \<Longrightarrow> s \<noteq> [] \<and> (\<forall>c\<in>set s. ident_char c)"
  by (auto simp: is_ident_def ident_char_def list_all_iff split: list.splits)

lemma ident_char_dot: "\<not> ident_char (CHR ''.'')"
  by (simp add: ident_char_def ident_start_def)

lemma identifierRE_chars:
  assumes "identifierRE t"
  shows "t \<noteq> [] \<and> (\<forall>c\<in>set t. ident_char c \<or> c = CHR ''.'') \<and> length (filter (\<lambda>c. c = CHR ''.'') t) \<le> 1"
proof -
  let ?a = "takeWhile (\<lambda>c. c \<noteq> CHR ''.'') t" and ?b = "dropWhile (\<lambda>c. c \<noteq> CHR ''.'') t"
  have t: "t = ?a @ ?b" by simp
  have a: "?a \<noteq> []" "\<forall>c\<in>set ?a. ident_char c" using assms is_ident_chars [of ?a] by (simp_all add: identifierRE_def Let_def)
  have fa: "filter (\<lambda>c. c = CHR ''.'') ?a = []" by (auto simp: filter_empty_conv dest: set_takeWhileD)
  show ?thesis
  proof (cases ?b)
    case Nil
    then have "t = ?a" using t by (metis append_Nil2)
    then show ?thesis using a fa by (metis bot_nat_0.extremum list.size(3))
  next
    case (Cons d u)
    then have d: "d = CHR ''.''" using hd_dropWhile [of "\<lambda>c. c \<noteq> CHR ''.''" t] by auto
    have u: "\<forall>c\<in>set u. ident_char c" using assms Cons is_ident_chars [of u] by (simp add: identifierRE_def Let_def)
    have "filter (\<lambda>c. c = CHR ''.'') u = []" using u ident_char_dot by (auto simp: filter_empty_conv)
    then have "length (filter (\<lambda>c. c = CHR ''.'') (?a @ d # u)) \<le> 1" using fa by simp
    moreover have "\<forall>c\<in>set (?a @ d # u). ident_char c \<or> c = CHR ''.''" using a u d by auto
    moreover have "t = ?a @ d # u" using t Cons by simp
    ultimately show ?thesis using a(1) by (metis Nil_is_append_conv)
  qed
qed

subsection \<open>Properties\<close>

text \<open>
  (C10) A claim is never granted over a live record, whatever other sessions do between the
  statements and whichever statements fail. When \<^verbatim>\<open>Reserve\<close> reports the key as claimed, one of its
  claim statements succeeded; the table that statement saw had no live row under the key at the
  statement's own \<^verbatim>\<open>now()\<close>; and the table \<^verbatim>\<open>Reserve\<close> leaves is that one with the caller's
  reservation under the key and every other row as it was.
\<close>

theorem pg_reserve_exclusive:
  assumes "pg_inv tbl" "pg_Reserve e rc tbl = ((None, None), tbl')"
  shows "\<exists>i<3. st_fail (pe_claim e i) = None \<and> st_lost (pe_claim e i) = None \<and>
    pg_view (st_now (pe_claim e i)) (claim_sees e rc tbl i) (Key rc) = None \<and>
    tbl' = AList.update (Key rc) (claimed_row e rc i) (claim_sees e rc tbl i)"
  using reserve_from_claims [of 0 3 e rc tbl tbl'] claim_granted [OF assms(1)] assms(2) by (auto simp: pg_Reserve_def)

definition sample_stmt :: "int \<Rightarrow> pg_stmt" where
  "sample_stmt now = \<lparr>st_between = [], st_fail = None, st_lost = None, st_now = now, st_clock = 0\<rparr>"

definition sample_pg_env :: "int \<Rightarrow> pg_env" where
  "sample_pg_env now = \<lparr>pe_claim = (\<lambda>_. sample_stmt now), pe_read = (\<lambda>_. sample_stmt now),
     pe_exec = sample_stmt now, pe_classify = sample_stmt now\<rparr>"

lemma sample_pg_up: "pg_up (sample_pg_env now)" "pg_clock (sample_pg_env now) = now"
  by (simp_all add: pg_up_def quiet_def pg_clock_def sample_pg_env_def sample_stmt_def)

definition sample_reservation :: Record where
  "sample_reservation = reservation_of ''k'' ''fp'' ''tok'' \<lparr>LeaseTTL = 5000000000, RecordTTL = 0\<rparr> 0"

definition sample_pg_row :: pg_row where
  "sample_pg_row = \<lparr>row_state = stateReserved_pg, row_token = ''t1'', row_fingerprint = ''fp'', row_payload = None,
     row_lease = 1000, row_record = None, row_created = 0\<rparr>"

text \<open>The lease in the way is released between the claim and the read; the second claim gets the key.\<close>

definition vanishing_env :: pg_env where
  "vanishing_env = (sample_pg_env 7)\<lparr>pe_read := (\<lambda>_. (sample_stmt 7)\<lparr>st_between := [OpRelease 7 ''k'' ''t1'']\<rparr>)\<rparr>"

theorem pg_reserve_exclusive_witness:
  "\<exists>i<3. i \<noteq> 0 \<and> pg_view 7 (claim_sees vanishing_env sample_reservation [(''k'', sample_pg_row)] i) ''k'' = None \<and>
     snd (pg_Reserve vanishing_env sample_reservation [(''k'', sample_pg_row)]) =
       AList.update ''k'' (claimed_row vanishing_env sample_reservation i)
         (claim_sees vanishing_env sample_reservation [(''k'', sample_pg_row)] i)"
proof -
  let ?t = "[(''k'', sample_pg_row)]" and ?e = vanishing_env and ?rc = sample_reservation
  have "fst (pg_Reserve ?e ?rc ?t) = (None, None)" by code_simp
  then have r: "pg_Reserve ?e ?rc ?t = ((None, None), snd (pg_Reserve ?e ?rc ?t))" by (metis prod.collapse)
  have inv: "pg_inv ?t" by (simp add: pg_inv_def row_ok_def sample_pg_row_def)
  have live: "pg_view 7 (claim_sees ?e ?rc ?t 0) ''k'' \<noteq> None" by code_simp
  have c: "Key ?rc = ''k''" "st_now (pe_claim ?e i) = 7" for i
    by (simp_all add: sample_reservation_def vanishing_env_def sample_pg_env_def sample_stmt_def)
  obtain i where i: "i < 3" "pg_view 7 (claim_sees ?e ?rc ?t i) ''k'' = None"
    "snd (pg_Reserve ?e ?rc ?t) = AList.update ''k'' (claimed_row ?e ?rc i) (claim_sees ?e ?rc ?t i)"
    using pg_reserve_exclusive [OF inv r] unfolding c by blast
  have "i \<noteq> 0" using i(2) live by metis
  with i show ?thesis by blast
qed

text \<open>
  (C9) At most one business commit per completed record: once \<^verbatim>\<open>CompleteTx\<close> has succeeded for a key and its
  transaction is committed, then until the record expires, and whatever other sessions do in
  between, no other \<^verbatim>\<open>CompleteTx\<close> succeeds for that key. Another token is told that its lease
  is lost (so its transaction rolls back); the same token that it already completed.
\<close>

theorem one_business_commit:
  assumes "pg_inv tbl" "quiet now (pe_exec e)" "CompleteTx e k tok p ttl tbl = ((False, None), tbl1)"
    and "\<forall>a\<in>set ops. op_now a < plus_ms now (recordTTLMillis ttl)"
    and "quiet now' (pe_exec e')" "quiet now' (pe_classify e')" "now' < plus_ms now (recordTTLMillis ttl)"
    and "CompleteTx e' k tok' p' ttl' (others ops tbl1) = (res, tbl2)"
  shows "res = (if tok' = tok then (False, Some (Sentinel ErrAlreadyCompleted)) else (True, None)) \<and> tbl2 = others ops tbl1"
proof -
  obtain x where x: "map_of tbl k = Some x" "row_held now tok x"
    "tbl1 = AList.update k (x\<lparr>row_state := stateCompleted_pg, row_payload := Some p,
       row_record := Some (plus_ms now (recordTTLMillis ttl))\<rparr>) tbl"
    using CompleteTx_success [OF assms(2,3)] by blast
  let ?y = "x\<lparr>row_state := stateCompleted_pg, row_payload := Some p, row_record := Some (plus_ms now (recordTTLMillis ttl))\<rparr>"
  have "map_of tbl1 k = Some ?y" by (simp add: x(3) update_conv')
  moreover have "pg_inv tbl1" unfolding x(3) by (rule pg_inv_update [OF assms(1)]) (simp add: row_ok_def)
  ultimately have y: "map_of (others ops tbl1) k = Some ?y"
    using others_keep_completed [of tbl1 k ?y] assms(4) by simp
  have "row_token x = tok" using x(2) by (simp add: row_held_def)
  then show ?thesis
    using assms(8) CompleteTx_completed [OF assms(5,6) y _ _ assms(7)] by (auto simp: split: if_splits)
qed

theorem one_business_commit_witness:
  "fst (CompleteTx (sample_pg_env 20) ''k'' ''t2'' ''q'' 1000000
     (others [OpSweep 10 5, OpReserve 15 ''k'' ''t2'' ''fp'' 5] (snd (CompleteTx (sample_pg_env 5) ''k'' ''t1'' ''p'' 1000000 [(''k'', sample_pg_row)]))))
   = (True, None)"
proof -
  let ?t1 = "snd (CompleteTx (sample_pg_env 5) ''k'' ''t1'' ''p'' 1000000 [(''k'', sample_pg_row)])"
  have 1: "CompleteTx (sample_pg_env 5) ''k'' ''t1'' ''p'' 1000000 [(''k'', sample_pg_row)] = ((False, None), ?t1)"
    by (simp add: CompleteTx_def run_stmt_def sample_pg_env_def sample_stmt_def others_def qComplete_def row_held_def sample_pg_row_def)
  have ms: "recordTTLMillis 1000000 = 1" by code_simp
  have q: "quiet now (pe_exec (sample_pg_env now))" "quiet now (pe_classify (sample_pg_env now))" for now
    by (simp_all add: quiet_def sample_pg_env_def sample_stmt_def)
  have inv: "pg_inv [(''k'', sample_pg_row)]" by (simp add: pg_inv_def row_ok_def sample_pg_row_def)
  obtain res tbl2 where 2: "CompleteTx (sample_pg_env 20) ''k'' ''t2'' ''q'' 1000000
      (others [OpSweep 10 5, OpReserve 15 ''k'' ''t2'' ''fp'' 5] ?t1) = (res, tbl2)" by (meson surj_pair)
  from one_business_commit [OF inv q(1) 1 _ q(1,2) _ 2] show ?thesis by (simp add: 2 ms plus_ms_def)
qed

text \<open>
  (C40) A sweep deletes only rows that have expired, at most \<^verbatim>\<open>limit\<close> of them, reports how many it
  deleted, and changes no answer of the store from then on.
\<close>

theorem sweep_is_invisible:
  assumes "pg_inv tbl" "qSweep now limit tbl = (n, tbl')" "now \<le> t"
  shows "n = int (length tbl) - int (length tbl') \<and> 0 \<le> n \<and> n \<le> int limit \<and> pg_view t tbl' = pg_view t tbl"
proof -
  let ?keys = "take limit (map fst (filter (\<lambda>(k, x). row_expired now x) tbl))"
  have n: "n = int (length (filter (\<lambda>(k, x). k \<in> set ?keys) tbl))" and t': "tbl' = filter (\<lambda>(k, x). k \<notin> set ?keys) tbl"
    using assms(2) by (auto simp: qSweep_def Let_def)
  have "length (filter (\<lambda>(k, x). k \<in> set ?keys) tbl) + length tbl' = length tbl"
    unfolding t' using sum_length_filter_compl [of "\<lambda>(k, x). k \<in> set ?keys" tbl] by (simp add: case_prod_unfold)
  moreover have "length (filter (\<lambda>(k, x). k \<in> set ?keys) tbl) \<le> limit"
    using length_filter_keys [of tbl ?keys] assms(1) by (simp add: pg_inv_def)
  moreover have "pg_view t tbl' = pg_view t tbl"
    unfolding t' by (rule pg_view_filter [OF assms(1)]) (use sweep_keys_expired [OF assms(1)] assms(3) in blast)
  ultimately show ?thesis using n by simp
qed

theorem sweep_is_invisible_witness:
  "fst (qSweep 2000 10 [(''k'', sample_pg_row)]) = 1 \<and>
   pg_view 2000 (snd (qSweep 2000 10 [(''k'', sample_pg_row)])) = pg_view 2000 [(''k'', sample_pg_row)]"
proof -
  have inv: "pg_inv [(''k'', sample_pg_row)]" by (simp add: pg_inv_def row_ok_def sample_pg_row_def)
  have s: "qSweep 2000 10 [(''k'', sample_pg_row)] = (1, [])" by code_simp
  from sweep_is_invisible [OF inv s order_refl] s show ?thesis by simp
qed

text \<open>\<^verbatim>\<open>Schema\<close> and \<^verbatim>\<open>New\<close> panic on the same table names.\<close>

lemma Schema_New: "(\<exists>sql. Schema t = Some sql) \<longleftrightarrow> pg_New [pg_Table t] = Some t"
  by (auto simp: Schema_def pg_New_def pg_Table_def mustValidIdentifier_def)

text \<open>
  A table name the store accepts consists of letters, digits, underscores and at most one dot:
  splicing it into the statements cannot add a quote, a blank, a semicolon or a comment.
\<close>

theorem table_names_are_safe:
  assumes "pg_New opts = Some t"
  shows "t \<noteq> [] \<and> (\<forall>c\<in>set t. ident_char c \<or> c = CHR ''.'') \<and> length (filter (\<lambda>c. c = CHR ''.'') t) \<le> 1"
  using assms identifierRE_chars [of t] by (auto simp: pg_New_def mustValidIdentifier_def Let_def split: if_splits)

theorem table_names_are_safe_witness:
  "pg_New [pg_Table ''app.idem''] = Some ''app.idem'' \<and> length (filter (\<lambda>c. c = CHR ''.'') ''app.idem'') \<le> 1"
proof -
  have t: "pg_New [pg_Table ''app.idem''] = Some ''app.idem''" by code_simp
  from table_names_are_safe [OF t] t show ?thesis by simp
qed

text \<open>
  (C12) The PostgreSQL store keeps the store contract, on the clock of the database, whenever the
  statements of an operation succeed and no other session commits between them.
\<close>

theorem pg_refines_contract: "lease_store pg_Store pg_inv pg_view pg_clock pg_up pg_grant pg_keep pg_rebuilt"
  by (rule pg.lease_store_axioms)

end
