(* ===== verification/Store_Faults.thy ===== *)
theory Store_Faults
  imports Memstore Redis_Store Pg_Store Lease_System
begin

section \<open>The stores when calls fail\<close>

text \<open>
  What a call that fails does to each store: a request that never reached the server changes
  nothing, and a request whose reply was lost did what it does on a working connection. The
  interpretations of \<open>shaky_store\<close> discharge this for the three stores. The in-memory store
  never fails; for the other two, the errors of the driver are not the sentinels of the library
  (nor \<^verbatim>\<open>sql.ErrNoRows\<close>), which is what their Go code tells them apart by.
\<close>

subsection \<open>A failing call next to a working one\<close>

context lease_store
begin

text \<open>\<open>e'\<close> is the same call on a working connection, which leaves the same state.\<close>

lemma like_working_reserve:
  assumes "sinv s" "is_reservation r" "up e'" "sclock e' = sclock e" "grant e' r = grant e r" "Reserve S e' r s = (res, s')"
    and "res = (x, err) \<or> (\<exists>er. err = Some er \<and> \<not> errors_Is er ErrAlreadyExists)"
  shows "(sview (sclock e) s (Key r) = None \<and> (\<forall>er. err = Some er \<longrightarrow> \<not> errors_Is er ErrAlreadyExists) \<and>
       sview (sclock e) s' = live_at (sclock e) ((sview (sclock e) s)(Key r := Some (new_lease r (grant e r))))) \<or>
      (err \<noteq> None \<and> sview (sclock e) s' = sview (sclock e) s)"
proof (cases "sview (sclock e) s (Key r)")
  case None
  then show ?thesis using reserve_claims [OF assms(1,3,2) _ assms(6) order_refl] assms(4,5,7) by auto
next
  case (Some l)
  then show ?thesis using reserve_refuses [OF assms(1,3,2) _ assms(6) order_refl] assms(4,7) by auto
qed

lemma like_working_complete:
  assumes "sinv s" "up e'" "sclock e' = sclock e" "keep e' ttl = keep e ttl" "Complete S e' k tok p ttl s = (err', s')"
    and "err' = err \<or> err \<noteq> None"
  shows "(\<exists>l. held_by (sview (sclock e) s) k tok l \<and>
       sview (sclock e) s' = live_at (sclock e) ((sview (sclock e) s)(k := Some (completed_lease l p (keep e ttl))))) \<or>
      (err \<noteq> None \<and> sview (sclock e) s' = sview (sclock e) s)"
proof (cases "\<exists>l. held_by (sview (sclock e) s) k tok l")
  case True
  then show ?thesis using complete_stores [OF assms(1,2) _ assms(5) order_refl] assms(3,4) by auto
next
  case False
  then show ?thesis using complete_lost [OF assms(1,2) _ assms(5) order_refl] assms(3,6) by (auto simp: lost_error_def)
qed

lemma like_working_release:
  assumes "sinv s" "up e'" "sclock e' = sclock e" "Release S e' k tok s = (err', s')" "err' = err \<or> err \<noteq> None"
  shows "(\<exists>l. held_by (sview (sclock e) s) k tok l \<and> sview (sclock e) s' = (sview (sclock e) s)(k := None)) \<or>
      (err \<noteq> None \<and> sview (sclock e) s' = sview (sclock e) s)"
proof (cases "\<exists>l. held_by (sview (sclock e) s) k tok l")
  case True
  then show ?thesis using release_frees [OF assms(1,2) _ assms(4) order_refl] assms(3) by auto
next
  case False
  then show ?thesis using release_lost [OF assms(1,2) _ assms(4) order_refl] assms(3,5) by (auto simp: lost_error_def)
qed

end

subsection \<open>The in-memory store\<close>

interpretation mem_shaky: shaky_store mem_Store mem_inv mem_view "\<lambda>now. now" "\<lambda>_. True"
  "\<lambda>_ r. LeaseExpiresAt r" "\<lambda>now ttl. now + ttl" "\<lambda>_ d. d" "\<lambda>_. True"
proof (unfold_locales, goal_cases)
  case (2 s e r x err s')
  then show ?case by (intro ms.like_working_reserve [where e = e and e' = e]) auto
next
  case (3 s e k tok p ttl err s')
  then show ?case by (intro ms.like_working_complete [where e = e and e' = e]) auto
next
  case (4 s e k tok err s')
  then show ?case by (intro ms.like_working_release [where e = e and e' = e]) auto
qed simp

subsection \<open>The Redis store\<close>

definition redis_shaky :: "redis_env \<Rightarrow> bool" where
  "redis_shaky e \<longleftrightarrow> (\<forall>er. re_fail e = Some er \<or> re_lost e = Some er \<longrightarrow> \<not> errors_Is er ErrAlreadyExists)"

definition redis_calm :: "redis_env \<Rightarrow> redis_env" where
  "redis_calm e = e\<lparr>re_fail := None, re_lost := None\<rparr>"

lemma redis_calm_sel [simp]:
  "redis_up (redis_calm e)" "re_now (redis_calm e) = re_now e" "re_ms (redis_calm e) = re_ms e"
  "re_after (redis_calm e) = re_after e" "redis_grant g (redis_calm e) r = redis_grant g e r"
  "redis_keep g (redis_calm e) ttl = redis_keep g e ttl"
  by (simp_all add: redis_calm_def redis_up_def redis_grant_def redis_keep_def)

text \<open>A script call that fails did nothing, or did what it does when its reply arrives.\<close>

lemma run_script_shaky:
  obtains (refused) er where "re_fail e = Some er" "run_script e f r = (Inl er, r)"
    | (lost) er where "re_lost e = Some er" "run_script e f r = (Inl er, snd (run_script (redis_calm e) f r))"
    | (works) "redis_calm e = e"
  by (cases "re_fail e"; cases "re_lost e")
    (auto simp: run_script_def redis_calm_def split: prod.splits)

lemma redis_Reserve_shaky:
  assumes "redis_shaky e" "redis_Reserve R prefix e rc r = ((x, err), r')"
  shows "(err \<noteq> None \<and> r' = r) \<or> (\<exists>res. redis_Reserve R prefix (redis_calm e) rc r = (res, r') \<and>
    (res = (x, err) \<or> (\<exists>er. err = Some er \<and> \<not> errors_Is er ErrAlreadyExists)))"
proof -
  let ?script = "\<lambda>now. reserveScript R now (redisKey prefix (Key rc)) stateReserved_redis (Token rc)
      (Fingerprint rc) (FormatInt (UnixMilli (LeaseExpiresAt rc))) (FormatInt (pxUntil (re_now e) (LeaseExpiresAt rc)))"
  obtain res1 r1 where calm: "run_script (redis_calm e) ?script r = (res1, r1)" by (meson surj_pair)
  have "snd (redis_Reserve R prefix (redis_calm e) rc r) = r1"
    using calm by (simp add: redis_Reserve_def split: sum.split redis_value.split)
  then obtain res2 where after: "redis_Reserve R prefix (redis_calm e) rc r = (res2, r1)" by (metis prod.collapse)
  show ?thesis
  proof (cases rule: run_script_shaky [of e ?script r])
    case (refused er)
    then show ?thesis using assms(2) by (intro disjI1) (auto simp: redis_Reserve_def)
  next
    case (lost er)
    then have "r' = r1 \<and> err = Some (wrap_after ''redistore: reserve: '' er)" using assms(2) calm by (simp add: redis_Reserve_def)
    moreover have "\<not> errors_Is er ErrAlreadyExists" using assms(1) lost(1) by (simp add: redis_shaky_def)
    ultimately show ?thesis using after by auto
  next
    case works
    then show ?thesis using assms(2) by simp
  qed
qed

lemma redis_Complete_shaky:
  assumes "redis_Complete R prefix e k tok p ttl r = (err, r')"
  shows "(err \<noteq> None \<and> r' = r) \<or> (\<exists>err'. redis_Complete R prefix (redis_calm e) k tok p ttl r = (err', r') \<and> (err' = err \<or> err \<noteq> None))"
proof -
  let ?script = "\<lambda>now. completeScript R now (redisKey prefix k) tok p (FormatInt (UnixMilli (time_Add (re_now e) (wrap64 ttl))))
      (FormatInt (if Milliseconds (wrap64 ttl) < 1 then 1 else Milliseconds (wrap64 ttl)))"
  obtain res1 r1 where calm: "run_script (redis_calm e) ?script r = (res1, r1)" by (meson surj_pair)
  show ?thesis
    by (cases rule: run_script_shaky [of e ?script r])
      (use assms calm in \<open>auto simp: redis_Complete_def Let_def split: sum.splits\<close>)
qed

lemma redis_Release_shaky:
  assumes "redis_Release R prefix e k tok r = (err, r')"
  shows "(err \<noteq> None \<and> r' = r) \<or> (\<exists>err'. redis_Release R prefix (redis_calm e) k tok r = (err', r') \<and> (err' = err \<or> err \<noteq> None))"
proof -
  let ?script = "\<lambda>now. releaseScript R now (redisKey prefix k) tok"
  obtain res1 r1 where calm: "run_script (redis_calm e) ?script r = (res1, r1)" by (meson surj_pair)
  show ?thesis
    by (cases rule: run_script_shaky [of e ?script r])
      (use assms calm in \<open>auto simp: redis_Release_def Let_def split: sum.splits\<close>)
qed

sublocale redis_deployment \<subseteq> rf: shaky_store "redis_Store R prefix" "redis_inv raw prefix"
  "redis_view raw grace prefix" re_ms redis_up "redis_grant grace" "redis_keep grace" "redis_rebuilt grace" redis_shaky
proof (unfold_locales, goal_cases)
  case (1 e)
  then show ?case by (simp add: redis_up_def redis_shaky_def)
next
  case (2 s e r x err s')
  from redis_Reserve_shaky [OF 2(2) 2(4) [unfolded redis_Store_sel]] show ?case
    using rs.like_working_reserve [of s r "redis_calm e" e _ s' x err] 2(1,3) by auto
next
  case (3 s e k tok p ttl err s')
  from redis_Complete_shaky [OF 3(3) [unfolded redis_Store_sel]] show ?case
    using rs.like_working_complete [of s "redis_calm e" e ttl k tok p _ s' err] 3(1) by auto
next
  case (4 s e k tok err s')
  from redis_Release_shaky [OF 4(3) [unfolded redis_Store_sel]] show ?case
    using rs.like_working_release [of s "redis_calm e" e k tok _ s' err] 4(1) by auto
qed

subsection \<open>The PostgreSQL store\<close>

text \<open>
  Nobody commits between the statements of one operation, which read the same \<^verbatim>\<open>now()\<close>; each of
  them may fail, with an error that is none of the sentinels the Go code looks for.
\<close>

definition shaky_stmt :: "int \<Rightarrow> pg_stmt \<Rightarrow> bool" where
  "shaky_stmt now q \<longleftrightarrow> st_between q = [] \<and> st_now q = now \<and>
     (\<forall>er. st_fail q = Some er \<or> st_lost q = Some er \<longrightarrow> \<not> errors_Is er ErrNoRows \<and> \<not> errors_Is er ErrAlreadyExists)"

definition pg_shaky :: "pg_env \<Rightarrow> bool" where
  "pg_shaky e \<longleftrightarrow> shaky_stmt (pg_clock e) (pe_claim e 0) \<and> shaky_stmt (pg_clock e) (pe_read e 0) \<and>
     shaky_stmt (pg_clock e) (pe_exec e) \<and> shaky_stmt (pg_clock e) (pe_classify e)"

definition calm_stmt :: "pg_stmt \<Rightarrow> pg_stmt" where
  "calm_stmt q = q\<lparr>st_fail := None, st_lost := None\<rparr>"

definition pg_calm :: "pg_env \<Rightarrow> pg_env" where
  "pg_calm e = \<lparr>pe_claim = calm_stmt \<circ> pe_claim e, pe_read = calm_stmt \<circ> pe_read e, pe_exec = calm_stmt (pe_exec e),
     pe_classify = calm_stmt (pe_classify e)\<rparr>"

lemma calm_stmt_sel [simp]: "st_clock (calm_stmt q) = st_clock q" "st_now (calm_stmt q) = st_now q"
  by (simp_all add: calm_stmt_def)

lemma calm_quiet: "shaky_stmt now q \<Longrightarrow> quiet now (calm_stmt q)"
  by (simp add: shaky_stmt_def quiet_def calm_stmt_def)

lemma pg_calm_sel [simp]:
  "pe_claim (pg_calm e) n = calm_stmt (pe_claim e n)" "pe_read (pg_calm e) n = calm_stmt (pe_read e n)"
  "pe_exec (pg_calm e) = calm_stmt (pe_exec e)" "pe_classify (pg_calm e) = calm_stmt (pe_classify e)"
  "pg_clock (pg_calm e) = pg_clock e" "pg_grant (pg_calm e) r = pg_grant e r" "pg_keep (pg_calm e) ttl = pg_keep e ttl"
  by (simp_all add: pg_calm_def pg_clock_def pg_grant_def pg_keep_def)

lemma pg_calm_up: "pg_shaky e \<Longrightarrow> pg_up (pg_calm e)"
  by (simp add: pg_shaky_def pg_up_def calm_quiet)

lemma run_stmt_shaky:
  assumes "shaky_stmt now q"
  obtains (refused) er where "\<not> errors_Is er ErrNoRows" "\<not> errors_Is er ErrAlreadyExists" "run_stmt q f tbl = (Inl er, tbl)"
    | (lost) er where "\<not> errors_Is er ErrNoRows" "\<not> errors_Is er ErrAlreadyExists" "run_stmt q f tbl = (Inl er, snd (f now tbl))"
    | (works) "run_stmt q f tbl = (Inr (fst (f now tbl)), snd (f now tbl))"
  using assms
  by (cases "st_fail q"; cases "st_lost q") (auto simp: run_stmt_def shaky_stmt_def others_def split: prod.splits)

lemma pg_Reserve_shaky:
  assumes inv: "pg_inv tbl" and shaky: "pg_shaky e" and R: "pg_Reserve e rc tbl = ((x, err), tbl')"
  shows "(err \<noteq> None \<and> tbl' = tbl) \<or> (\<exists>res. pg_Reserve (pg_calm e) rc tbl = (res, tbl') \<and>
    (res = (x, err) \<or> (\<exists>er. err = Some er \<and> \<not> errors_Is er ErrAlreadyExists)))"
proof -
  let ?q = "pe_claim e 0" and ?p = "pe_read e 0"
  let ?f = "\<lambda>now. qReserve now (Key rc) (Token rc) (Fingerprint rc) (leaseTTLMillis (st_clock ?q) rc)"
  let ?g = "\<lambda>now t. (qReserveExists now (Key rc) t, t)"
  have s: "shaky_stmt (pg_clock e) ?q" "shaky_stmt (pg_clock e) ?p" using shaky by (simp_all add: pg_shaky_def)
  have up: "pg_up (pg_calm e)" by (rule pg_calm_up [OF shaky])
  obtain res0 t0 where calm: "pg_Reserve (pg_calm e) rc tbl = (res0, t0)" by (meson surj_pair)
  show ?thesis
  proof (cases "pg_view (pg_clock e) tbl (Key rc)")
    case None
    obtain i t1 where f: "?f (pg_clock e) tbl = (Some i, t1)" using qReserve_free [OF inv None] by blast
    have t0: "t0 = t1"
      using calm f by (simp add: pg_Reserve_def numeral_3_eq_3 run_quiet [OF calm_quiet [OF s(1)]] scan_def)
    have res0: "res0 = (None, None)" using pg_reserve_free [OF inv up _ calm] None by simp
    show ?thesis
      by (cases rule: run_stmt_shaky [OF s(1), of ?f tbl])
        (use R calm f t0 res0 in \<open>auto simp: pg_Reserve_def numeral_3_eq_3 scan_def\<close>)
  next
    case (Some l)
    have t0: "t0 = tbl" using pg_reserve_taken [OF inv up _ calm] Some by simp
    obtain y where y: "map_of tbl (Key rc) = Some y" "row_ok y" "row_live (pg_clock e) y" using inv Some by (rule pg_view_Some)
    have f: "?f (pg_clock e) tbl = (None, tbl)" using y row_expired_ok [OF y(2)] by (simp add: qReserve_def Let_def)
    have "tbl' = tbl \<and> err \<noteq> None"
      using s(1)
    proof (cases rule: run_stmt_shaky [where f = ?f and tbl = tbl])
      case works
      show ?thesis
        by (cases rule: run_stmt_shaky [OF s(2), of ?g tbl])
          (use R works f y in \<open>auto simp: pg_Reserve_def numeral_3_eq_3 scan_def
             scanRecord_def qReserveExists_def row_ok_def Let_def split: sum.splits if_splits\<close>)
    qed (use R f in \<open>auto simp: pg_Reserve_def numeral_3_eq_3 scan_def\<close>)
    then show ?thesis by blast
  qed
qed

lemma classifyFailure_shaky:
  assumes "shaky_stmt now (pe_classify e)" "classifyFailure e k tok op tbl = (err, tbl')"
  shows "err \<noteq> None \<and> tbl' = tbl"
  by (cases rule: run_stmt_shaky [OF assms(1), of "\<lambda>now t. (qClassify now k t, t)" tbl])
    (use assms(2) in \<open>auto simp: classifyFailure_def split: sum.splits if_splits\<close>)

lemma pg_Complete_shaky:
  assumes shaky: "pg_shaky e" and C: "pg_Complete e k tok p ttl tbl = (err, tbl')"
  shows "(err \<noteq> None \<and> tbl' = tbl) \<or> (\<exists>err'. pg_Complete (pg_calm e) k tok p ttl tbl = (err', tbl') \<and> (err' = err \<or> err \<noteq> None))"
proof -
  let ?f = "\<lambda>now. qComplete now k tok p (recordTTLMillis ttl)"
  have s: "shaky_stmt (pg_clock e) (pe_exec e)" "shaky_stmt (pg_clock e) (pe_classify e)" using shaky by (simp_all add: pg_shaky_def)
  obtain n t1 where f: "?f (pg_clock e) tbl = (n, t1)" by (meson surj_pair)
  then have t1: "n = 1 \<or> t1 = tbl" by (auto simp: qComplete_def split: option.splits if_splits)
  show ?thesis
    by (cases rule: run_stmt_shaky [OF s(1), of ?f tbl])
      (use C f t1 classifyFailure_shaky [OF s(2)] in
        \<open>auto simp: pg_Complete_def run_quiet [OF calm_quiet [OF s(1)]] split: if_splits\<close>)
qed

lemma pg_Release_shaky:
  assumes shaky: "pg_shaky e" and C: "pg_Release e k tok tbl = (err, tbl')"
  shows "(err \<noteq> None \<and> tbl' = tbl) \<or> (\<exists>err'. pg_Release (pg_calm e) k tok tbl = (err', tbl') \<and> (err' = err \<or> err \<noteq> None))"
proof -
  let ?f = "\<lambda>now. qRelease now k tok"
  have s: "shaky_stmt (pg_clock e) (pe_exec e)" "shaky_stmt (pg_clock e) (pe_classify e)" using shaky by (simp_all add: pg_shaky_def)
  obtain n t1 where f: "?f (pg_clock e) tbl = (n, t1)" by (meson surj_pair)
  then have t1: "n = 1 \<or> t1 = tbl" by (auto simp: qRelease_def split: option.splits if_splits)
  show ?thesis
    by (cases rule: run_stmt_shaky [OF s(1), of ?f tbl])
      (use C f t1 classifyFailure_shaky [OF s(2)] in
        \<open>auto simp: pg_Release_def run_quiet [OF calm_quiet [OF s(1)]] split: if_splits\<close>)
qed

lemma pg_Store_sel [simp]:
  "Reserve pg_Store = pg_Reserve" "Complete pg_Store = pg_Complete" "Release pg_Store = pg_Release" "Get pg_Store = pg_Get"
  by (simp_all add: pg_Store_def)

interpretation pg_faults: shaky_store pg_Store pg_inv pg_view pg_clock pg_up pg_grant pg_keep pg_rebuilt pg_shaky
proof (unfold_locales, goal_cases)
  case (1 e)
  then show ?case by (simp add: pg_up_def pg_shaky_def quiet_def shaky_stmt_def)
next
  case (2 s e r x err s')
  from pg_Reserve_shaky [OF 2(1,2) 2(4) [unfolded pg_Store_sel]] show ?case
    using pg.like_working_reserve [of s r "pg_calm e" e _ s' x err] 2(1,3) pg_calm_up [OF 2(2)] by auto
next
  case (3 s e k tok p ttl err s')
  from pg_Complete_shaky [OF 3(2) 3(3) [unfolded pg_Store_sel]] show ?case
    using pg.like_working_complete [of s "pg_calm e" e ttl k tok p _ s' err] 3(1) pg_calm_up [OF 3(2)] by auto
next
  case (4 s e k tok err s')
  from pg_Release_shaky [OF 4(2) 4(3) [unfolded pg_Store_sel]] show ?case
    using pg.like_working_release [of s "pg_calm e" e k tok _ s' err] 4(1) pg_calm_up [OF 4(2)] by auto
qed

end
