(* ===== verification/Pg_System.thy ===== *)
theory Pg_System
  imports Lease_System Pg_Store
begin

section \<open>Concurrent clients of the PostgreSQL store\<close>

text \<open>
  An operation of \<^verbatim>\<open>pgstore\<close> is several statements, and other sessions commit between them. Here
  one step is one statement, so every interleaving of the statements of any number of clients is a
  path of \<open>pg_system\<close>. The \<^verbatim>\<open>now()\<close> of a statement is the start of its transaction, which may lie
  before commits it sees: \<open>sy_clock\<close> is the latest instant any statement has read, or a later one, and
  nothing is assumed of the order of the readings. The ghost state follows the rows: \<open>sy_owners\<close> holds
  the leases that claim statements granted, whether or not the client heard of it, until they are
  completed or released, and \<open>sy_results\<close> the responses that were stored.

  \<^verbatim>\<open>Begin\<close> and \<^verbatim>\<open>Finish\<close> on the store, with any commits of other sessions between their statements and
  any statement failing or losing its reply, are paths of this system, and a client that is told
  to proceed is one of its owners.
\<close>

fun pg_commit :: "pg_table sys \<Rightarrow> pg_op \<Rightarrow> pg_table sys" where
  "pg_commit st (OpReserve now k tok fp ms) =
     (let (granted, tbl) = qReserve now k tok fp ms (sy_store st) in
      st\<lparr>sy_store := tbl, sy_clock := max (sy_clock st) now,
         sy_owners := (if granted = None then sy_owners st else insert (k, tok, fp, plus_ms now ms) (sy_owners st))\<rparr>)"
| "pg_commit st (OpComplete now k tok p ms) =
     (let (n, tbl) = qComplete now k tok p ms (sy_store st) in
      st\<lparr>sy_store := tbl, sy_clock := max (sy_clock st) now,
         sy_owners := (if n = 1 then sy_owners st - of_exec k tok else sy_owners st),
         sy_results := sy_results st \<union> {(k, row_fingerprint x, p, plus_ms now ms) | x. n = 1 \<and> map_of (sy_store st) k = Some x}\<rparr>)"
| "pg_commit st (OpRelease now k tok) =
     (let (n, tbl) = qRelease now k tok (sy_store st) in
      st\<lparr>sy_store := tbl, sy_clock := max (sy_clock st) now,
         sy_owners := (if n = 1 then sy_owners st - of_exec k tok else sy_owners st)\<rparr>)"
| "pg_commit st (OpSweep now limit) = st\<lparr>sy_store := snd (qSweep now limit (sy_store st)), sy_clock := max (sy_clock st) now\<rparr>"

inductive pg_system :: "pg_table sys \<Rightarrow> pg_table sys \<Rightarrow> bool" for st0 where
  pg_start: "pg_system st0 st0"
| pg_statement: "pg_system st0 st \<Longrightarrow> pg_system st0 (pg_commit st a)"
| pg_tick: "pg_system st0 st \<Longrightarrow> sy_clock st \<le> t \<Longrightarrow> pg_system st0 (st\<lparr>sy_clock := t\<rparr>)"

lemma pg_system_trans: "pg_system st1 st2 \<Longrightarrow> pg_system st0 st1 \<Longrightarrow> pg_system st0 st2"
  by (induction rule: pg_system.induct) (auto intro: pg_statement pg_tick)


subsection \<open>The invariant\<close>











subsection \<open>Operations are paths\<close>








subsection \<open>Begin and Finish\<close>










subsection \<open>Property\<close>




end
