(* ===== verification/Deployments.thy ===== *)
theory Deployments
  imports Store_Faults Pg_System
begin

section \<open>The stores behind concurrent clients\<close>

text \<open>
  The three stores of the repository under the clients of \<open>Lease_System\<close>: the contract, and the
  two guarantees of the library in every interleaving of client steps, calls that fail before or
  after they took effect included. An operation is one step here; the PostgreSQL store, whose
  operations are several statements, has its guarantees statement by statement in \<open>Pg_System\<close>.
\<close>

interpretation mem_clients: lease_clients mem_Store mem_inv mem_view "\<lambda>now. now" "\<lambda>_. True"
  "\<lambda>_ r. LeaseExpiresAt r" "\<lambda>now ttl. now + ttl" "\<lambda>_ d. d" "\<lambda>_. True"
  by unfold_locales

interpretation pg_clients: lease_clients pg_Store pg_inv pg_view pg_clock pg_up pg_grant pg_keep pg_rebuilt pg_shaky
  by unfold_locales

sublocale redis_deployment \<subseteq> rc: lease_clients "redis_Store R prefix" "redis_inv raw prefix"
  "redis_view raw grace prefix" re_ms redis_up "redis_grant grace" "redis_keep grace" "redis_rebuilt grace" redis_shaky
  by unfold_locales

context redis_deployment
begin

lemmas redis_contract = rs.lease_store_axioms
lemmas redis_guarantees = rc.guarantees

end

abbreviation mem_reachable :: "memstore sys \<Rightarrow> memstore sys \<Rightarrow> bool" where
  "mem_reachable \<equiv> lease_reachable mem_Store mem_view (\<lambda>now. now) (\<lambda>_. True) (\<lambda>_ r. LeaseExpiresAt r) (\<lambda>now ttl. now + ttl)"

abbreviation pg_reachable :: "pg_table sys \<Rightarrow> pg_table sys \<Rightarrow> bool" where
  "pg_reachable \<equiv> lease_reachable pg_Store pg_view pg_clock pg_shaky pg_grant pg_keep"

abbreviation redis_reachable :: "'r redis \<Rightarrow> ('r \<Rightarrow> content) \<Rightarrow> int \<Rightarrow> string \<Rightarrow> 'r sys \<Rightarrow> 'r sys \<Rightarrow> bool" where
  "redis_reachable R raw grace prefix \<equiv> lease_reachable (redis_Store R prefix) (redis_view raw grace prefix) re_ms redis_shaky
     (redis_grant grace) (redis_keep grace)"

lemma empty_redis: "redis_inv ref_raw prefix Map.empty" "redis_view ref_raw grace prefix t Map.empty k = None"
  by (simp_all add: redis_inv_def redis_view_def live_fields_def ref_raw_def)

definition sample_redis_env :: "int \<Rightarrow> redis_env" where
  "sample_redis_env ms = \<lparr>re_fail = None, re_lost = None, re_now = ms * Millisecond, re_ms = ms, re_after = ms * Millisecond\<rparr>"

lemma sample_redis_up: "redis_up (sample_redis_env ms)" "re_ms (sample_redis_env ms) = ms"
  by (simp_all add: redis_up_def sample_redis_env_def)

definition sample_options :: Options where
  "sample_options = \<lparr>LeaseTTL = 5000000000, RecordTTL = 0\<rparr>"

subsection \<open>Properties\<close>

text \<open>
  (C4) The in-memory store, under any interleaving of any number of clients, whatever decisions,
  keys and tokens they finish with: within their
  leases at most one execution of a key is running, and a response persisted within its
  lease stays the only answer for its key, with no execution beside it, until it expires.
\<close>

theorem mem_one_execution:
  assumes "mem_inv s" "mem_reachable (sys_init s t) st"
  shows "one_execution st \<and> answers_final (mem_view (sy_clock st) (sy_store st)) st"
  by (rule mem_clients.guarantees [OF assms(2,1)])

theorem mem_one_execution_witness:
  "\<exists>st. mem_reachable (sys_init mem_New 0) st \<and> sy_results st \<noteq> {} \<and>
     answers_final (mem_view (sy_clock st) (sy_store st)) st"
proof -
  have "mem_view 0 mem_New ''k'' = None" by (simp add: mem_view_New)
  moreover have "0 < LeaseExpiresAt (reservation_of ''k'' ''fp'' ''tok'' sample_options 0)" by (simp add: leaseTTL_pos)
  ultimately obtain s' where r: "mem_reachable (sys_init mem_New 0) \<lparr>sy_store = s', sy_clock = 0, sy_owners = {}, sy_orphans = {},
      sy_results = {(''k'', ''fp'', ''resp'', 0 + recordTTL sample_options)}\<rparr>"
    using mem_clients.can_persist [OF mem_inv_New TrueI refl, of 0 "''k''" "''fp''" "''tok''" sample_options 0 "''resp''"] by auto
  from mem_one_execution [OF mem_inv_New r] r show ?thesis by (intro exI conjI) auto
qed

text \<open>
  (C2) The same for the Redis store, under any prefix, on every server that keeps its documented
  laws, on the clock of the server, although each call may fail before the script ran or after,
  with its reply lost.
\<close>

theorem redis_one_execution:
  assumes "redis_server R raw grace" "redis_inv raw prefix r" "redis_reachable R raw grace prefix (sys_init r t) st"
  shows "one_execution st \<and> answers_final (redis_view raw grace prefix (sy_clock st) (sy_store st)) st"
  using redis_deployment.redis_guarantees [OF redis_deployment.intro [OF assms(1)] assms(3,2)] .

theorem redis_one_execution_witness:
  "\<exists>st. redis_reachable reference_redis ref_raw 1 ''idemlease:'' (sys_init Map.empty 7) st \<and> sy_results st \<noteq> {} \<and>
     answers_final (redis_view ref_raw 1 ''idemlease:'' (sy_clock st) (sy_store st)) st"
proof -
  have "7 < redis_grant 1 (sample_redis_env 7) (reservation_of ''k'' ''fp'' ''tok'' sample_options 0)"
    using pxUntil_bounds(1) [of "re_now (sample_redis_env 7)" "leaseTTL sample_options"] by (simp add: redis_grant_def sample_redis_up)
  then obtain s' where r: "redis_reachable reference_redis ref_raw 1 ''idemlease:'' (sys_init Map.empty 7)
      \<lparr>sy_store = s', sy_clock = 7, sy_owners = {}, sy_orphans = {}, sy_results = {(''k'', ''fp'', ''resp'',
        redis_keep 1 (sample_redis_env 7) (recordTTL sample_options))}\<rparr>"
    using rd.rc.can_persist [unfolded redis_New_def, simplified, OF empty_redis(1) sample_redis_up empty_redis(2)] by metis
  from redis_one_execution [OF rr.redis_server_axioms empty_redis(1) r] r show ?thesis by (intro exI conjI) auto
qed

text \<open>
  (C5) No key is stuck for ever. Over every store that keeps the contract and was empty at first,
  however the clients interleaved, wherever they stopped without finishing and whichever calls
  failed, there is an instant, now or the deadline of an unfinished execution, a failed call or a
  persisted response of the key, from which on a \<open>Begin\<close> that reaches the store is told to
  proceed.
\<close>

theorem keys_come_back:
  assumes "shaky_store S sinv sview sclock up grant keep rebuilt shaky"
    and "sinv s" "\<And>k. sview t s k = None" "lease_reachable S sview sclock shaky grant keep (sys_init s t) st"
  shows "\<exists>T. (T = sy_clock st \<or> T \<in> deadlines st k) \<and>
    (\<forall>b env fp opts. at_between (env 1) = id \<and> up (at_store (env 1)) \<and> T \<le> sclock (at_store (env 1)) \<longrightarrow>
      fst (Begin S (Inr b) env k fp opts (sy_store st)) = Inr (proceed_outcome (EncodeToString b)))"
  by (rule lease_clients.comes_back [OF lease_clients.intro [OF assms(1)] assms(4,2,3)])

text \<open>An execution in the Redis store that was abandoned after it had claimed its key.\<close>

theorem keys_come_back_witness:
  "\<exists>st. redis_reachable reference_redis ref_raw 1 ''idemlease:'' (sys_init Map.empty 7) st \<and> sy_owners st \<noteq> {} \<and>
     (\<exists>T. \<forall>b env fp opts. at_between (env 1) = id \<and> redis_up (at_store (env 1)) \<and> T \<le> re_ms (at_store (env 1)) \<longrightarrow>
        fst (Begin (redis_Store reference_redis ''idemlease:'') (Inr b) env ''k'' fp opts (sy_store st)) =
          Inr (proceed_outcome (EncodeToString b)))"
proof -
  let ?D = "redis_grant 1 (sample_redis_env 7) (reservation_of ''k'' ''fp'' ''tok'' sample_options 0)"
  obtain s' where r: "redis_reachable reference_redis ref_raw 1 ''idemlease:'' (sys_init Map.empty 7)
      \<lparr>sy_store = s', sy_clock = 7, sy_owners = {(''k'', ''tok'', ''fp'', ?D)}, sy_orphans = {}, sy_results = {}\<rparr>"
    using rd.rc.can_start [unfolded redis_New_def, simplified, OF empty_redis(1) sample_redis_up empty_redis(2)] by metis
  from keys_come_back [OF rd.rf.shaky_store_axioms [unfolded redis_New_def, simplified] empty_redis(1) empty_redis(2) r, of "''k''"]
  show ?thesis by (intro exI [of _ "\<lparr>sy_store = s', sy_clock = 7, sy_owners = {(''k'', ''tok'', ''fp'', ?D)}, sy_orphans = {}, sy_results = {}\<rparr>"]
      conjI r) (simp, metis sys.select_convs(1))
qed

text \<open>
  (C11) On every server that keeps its documented laws, the Redis store keeps the store contract, on
  the clock of the server, whenever the request reaches the server and the reply comes back.
\<close>

theorem redis_refines_contract:
  assumes "redis_server R raw grace"
  shows "lease_store (redis_Store R prefix) (redis_inv raw prefix) (redis_view raw grace prefix) re_ms redis_up
    (redis_grant grace) (redis_keep grace) (redis_rebuilt grace)"
  by (rule redis_deployment.redis_contract [OF redis_deployment.intro [OF assms]])

theorem redis_refines_contract_witness:
  "lease_store (redis_Store reference_redis ''idemlease:'') (redis_inv ref_raw ''idemlease:'')
     (redis_view ref_raw 1 ''idemlease:'') re_ms redis_up (redis_grant 1) (redis_keep 1) (redis_rebuilt 1)"
  by (rule redis_refines_contract [OF rr.redis_server_axioms])

text \<open>
  The in-memory store keeps the store contract at every instant.
\<close>

theorem mem_refines_contract: "lease_store mem_Store mem_inv mem_view (\<lambda>now. now) (\<lambda>_. True)
    (\<lambda>_ r. LeaseExpiresAt r) (\<lambda>now ttl. now + ttl) (\<lambda>_ d. d)"
  by (rule ms.lease_store_axioms)

text \<open>
  An execution that has lost its lease cannot disturb the key: on every Redis server that keeps
  its laws, \<^verbatim>\<open>Finish\<close> with a token that does not hold the key reports the loss, with no
  error, and leaves the whole database as it was.
\<close>

theorem late_finish_harmless:
  assumes "redis_server R raw grace" "redis_inv raw prefix r" "redis_up e"
    and "\<nexists>l. held_by (redis_view raw grace prefix (re_ms e) r) k tok l" "d = Persist \<or> d = Discard"
    and "Finish (redis_Store R prefix) e k tok d p opts r = (res, r')"
  shows "res = (True, None) \<and> r' = r"
proof -
  have dep: "redis_deployment R raw grace" by (rule redis_deployment.intro [OF assms(1)])
  obtain err r1 where C: "(if d = Persist then Complete (redis_Store R prefix) e k tok p (recordTTL opts) r
      else Release (redis_Store R prefix) e k tok r) = (err, r1)" by (meson surj_pair)
  have "lost_error err \<and> r1 = r"
    using C redis_deployment.redis_complete_lost [OF dep assms(2-4)] redis_deployment.redis_release_lost [OF dep assms(2-4)]
    by (auto split: if_splits)
  then show ?thesis using Finish_cases [OF assms(5) C] assms(6) by simp
qed

theorem late_finish_harmless_witness:
  "Finish (redis_Store reference_redis ''idemlease:'') (sample_redis_env 7) ''k'' ''stale'' Discard [] sample_options Map.empty
     = ((True, None), Map.empty)"
proof -
  obtain res r' where F: "Finish (redis_Store reference_redis ''idemlease:'') (sample_redis_env 7) ''k'' ''stale'' Discard []
      sample_options Map.empty = (res, r')" by (meson surj_pair)
  have "\<nexists>l. held_by (redis_view ref_raw 1 ''idemlease:'' (re_ms (sample_redis_env 7)) Map.empty) ''k'' ''stale'' l"
    by (simp add: held_by_def empty_redis)
  from late_finish_harmless [OF rr.redis_server_axioms empty_redis(1) sample_redis_up(1) this _ F] F show ?thesis by simp
qed

text \<open>
  The stores tell a late execution apart differently: when the key was completed under another
  token, the in-memory store answers \<^verbatim>\<open>ErrTokenMismatch\<close>, the PostgreSQL store \<^verbatim>\<open>ErrNotFound\<close>,
  although the interface promises \<^verbatim>\<open>ErrTokenMismatch\<close> for a record under a different token.
\<close>

theorem completed_elsewhere_differs:
  assumes "pg_inv tbl" "pg_up e" "pg_view (pg_clock e) tbl k = Some l"
    and "mem_view now s k = Some l" "l_state l = StateCompleted" "l_token l \<noteq> tok"
  shows "pg_Complete e k tok p ttl tbl = (Some (Sentinel ErrNotFound), tbl) \<and>
    mem_Complete now k tok p ttl s = (Some (Sentinel ErrTokenMismatch), s)"
proof -
  have q: "quiet (pg_clock e) (pe_exec e)" "quiet (pg_clock e) (pe_classify e)" using assms(2) by (simp_all add: pg_up_def)
  obtain x where x: "map_of tbl k = Some x" "l = row_lease_of x" using assms(1,3) by (rule pg_view_Some)
  then have "row_state x \<noteq> stateReserved_pg" using assms(5) by (auto simp: row_lease_of_def)
  then have "pg_Complete e k tok p ttl tbl = (Some (Sentinel ErrNotFound), tbl)"
    using x(1) by (simp add: pg_Complete_def classifyFailure_def run_quiet [OF q(1)] run_quiet [OF q(2)] qComplete_def
        row_held_def qClassify_def scan_def)
  moreover obtain rc where "recs s k = Some rc" "\<not> Expired rc now" "l = lease_of rc" using mem_view_Some [OF assms(4)] by blast
  then have "mem_Complete now k tok p ttl s = (Some (Sentinel ErrTokenMismatch), s)"
    using assms(6) by (simp add: mem_Complete_def mem_lookup_def)
  ultimately show ?thesis by blast
qed

definition sample_completed_row :: pg_row where
  "sample_completed_row = sample_pg_row\<lparr>row_state := stateCompleted_pg, row_payload := Some ''p'', row_record := Some 1000\<rparr>"

definition sample_completed_record :: Record where
  "sample_completed_record = \<lparr>Key = ''k'', Fingerprint = ''fp'', State = StateCompleted, Token = ''t1'', LeaseExpiresAt = 0,
     RecordExpiresAt = 1000, Payload = ''p''\<rparr>"

theorem completed_elsewhere_differs_witness:
  "fst (pg_Complete (sample_pg_env 7) ''k'' ''t2'' ''q'' 5 [(''k'', sample_completed_row)]) = Some (Sentinel ErrNotFound) \<and>
   fst (mem_Complete 7 ''k'' ''t2'' ''q'' 5 \<lparr>recs = [''k'' \<mapsto> sample_completed_record]\<rparr>) = Some (Sentinel ErrTokenMismatch)"
proof -
  let ?l = "row_lease_of sample_completed_row"
  have inv: "pg_inv [(''k'', sample_completed_row)]"
    by (simp add: pg_inv_def row_ok_def sample_completed_row_def)
  have pv: "pg_view (pg_clock (sample_pg_env 7)) [(''k'', sample_completed_row)] ''k'' = Some ?l"
    by (simp add: pg_view_def row_live_def sample_completed_row_def sample_pg_up)
  have mv: "mem_view 7 \<lparr>recs = [''k'' \<mapsto> sample_completed_record]\<rparr> ''k'' = Some ?l"
    by (simp add: mem_view_def Expired_def lease_of_def active_deadline_def sample_completed_record_def sample_completed_row_def
        sample_pg_row_def row_lease_of_def row_deadline_def)
  have "l_state ?l = StateCompleted" "l_token ?l \<noteq> ''t2''"
    by (simp_all add: row_lease_of_def sample_completed_row_def sample_pg_row_def)
  from completed_elsewhere_differs [OF inv sample_pg_up(1) pv mv this] show ?thesis by simp
qed

end
