(* ===== verification/Http_System.thy ===== *)
theory Http_System
  imports Exchange_Example Lease_Calls Deployments
begin

section \<open>Requests in the concurrent system\<close>

text \<open>
  A request to the middleware, together with everything the other clients of the store do
  meanwhile, is a path of the concurrent system of \<open>Lease_System\<close>: so the guarantees of that
  system are guarantees about requests. What others do between the store calls of the request
  and while its handler runs is any activity of the system; so is what the handler itself does
  on the store (the rows a transactional completion of \<^verbatim>\<open>pgstore\<close> changes are those \<open>Finish\<close> changes).
\<close>

primrec acts_within :: "'s paths \<Rightarrow> Time \<Rightarrow> 's prog \<Rightarrow> bool" where
  "acts_within R t Done = True"
| "acts_within R t Panic = True"
| "acts_within R t (Do a k) =
     ((case a of StoreOp f \<Rightarrow> activity R t (\<lambda>s. snd (f s)) | _ \<Rightarrow> True) \<and> (\<forall>r. acts_within R t (k r)))"

definition request_timeline :: "'s paths \<Rightarrow> ('e \<Rightarrow> Time) \<Rightarrow> ('e \<Rightarrow> bool) \<Rightarrow> ('s, 'e) call_env \<Rightarrow> bool" where
  "request_timeline R clk ok env \<longleftrightarrow> begin_timeline R clk ok (clk (ce_finish env)) (ce_begin env) \<and>
     ok (ce_finish env) \<and> activity R (clk (ce_finish env)) (ce_before_finish env) \<and>
     ok (ce_release env) \<and> activity R (clk (ce_release env)) (ce_before_release env) \<and> clk (ce_finish env) \<le> clk (ce_release env)"

lemma acts_within_keep: "acts_within R t p \<Longrightarrow> transp R \<Longrightarrow> store_ops_keep (reached R st t) p"
proof (induction p)
  case (Do a k)
  then show ?case by (auto dest: activity_reached split: action.splits)
qed simp_all

subsection \<open>The parts of a call\<close>

lemma store_do_snd: "wd_store (snd (store_do f wd)) = snd (f (wd_store wd))"
  by (simp add: store_do_def split_beta)

lemma final_decision_same: "final_decision cfg attrs rec herr wd = (d, wd1) \<Longrightarrow> wd_store wd1 = wd_store wd \<and> wd_calls wd1 = wd_calls wd"
  by (auto simp: final_decision_def warn_def Let_def split: if_splits)

text \<open>The two \<open>Finish\<close> calls a request may make.\<close>

lemma finish_then_release:
  fixes S :: "('s, 'e) Store" and vw clk ok grant keep
  defines "R \<equiv> lease_reachable S vw clk ok grant keep"
  assumes env: "request_timeline R clk ok env" and "reached R st (clk (ce_finish env)) s"
  shows "reached R st (clk (ce_release env)) (snd (Finish S (ce_finish env) k tok d p opts (ce_before_finish env s)))"
    and "reached R st (clk (ce_release env)) (snd (Finish S (ce_release env) k tok d' p' opts (ce_before_release env
      (snd (Finish S (ce_finish env) k tok d p opts (ce_before_finish env s))))))"
proof -
  have e: "ok (ce_finish env)" "ok (ce_release env)" "activity R (clk (ce_finish env)) (ce_before_finish env)"
    "activity R (clk (ce_release env)) (ce_before_release env)" "clk (ce_finish env) \<le> clk (ce_release env)"
    using env by (simp_all add: request_timeline_def)
  show 1: "reached R st (clk (ce_release env)) (snd (Finish S (ce_finish env) k tok d p opts (ce_before_finish env s)))"
    using reached_mono [OF Finish_path [OF assms(3) [unfolded R_def] e(1) e(3) [unfolded R_def]] e(5)] unfolding R_def .
  show "reached R st (clk (ce_release env)) (snd (Finish S (ce_release env) k tok d' p' opts (ce_before_release env
      (snd (Finish S (ce_finish env) k tok d p opts (ce_before_finish env s))))))"
    using Finish_path [OF 1 [unfolded R_def] e(2) e(4) [unfolded R_def]] unfolding R_def .
qed

lemma settle_path:
  fixes S :: "('s, 'e) Store" and vw clk ok grant keep
  defines "R \<equiv> lease_reachable S vw clk ok grant keep"
  assumes env: "request_timeline R clk ok env" and "reached R st (clk (ce_finish env)) (wd_store wd)"
  shows "reached R st (clk (ce_release env)) (wd_store (settle S cfg env attrs k tok opts rec herr wd))"
proof -
  obtain d wd1 where d: "final_decision cfg attrs rec herr wd = (d, wd1)" by (meson surj_pair)
  let ?p = "if d = Persist then MarshalBinary (fst (StoredResponse_of rec)) else []"
  let ?s1 = "snd (Finish S (ce_finish env) k tok d ?p opts (ce_before_finish env (wd_store wd)))"
  let ?s2 = "snd (Finish S (ce_release env) k tok Discard [] opts (ce_before_release env ?s1))"
  have "wd_store (settle S cfg env attrs k tok opts rec herr wd) \<in> {?s1, ?s2}"
    using d final_decision_same [OF d]
    by (auto simp: settle_def store_do_def warn_def Let_def split: prod.splits option.splits if_splits)
  with finish_then_release [OF env [unfolded R_def] assms(3) [unfolded R_def]] show ?thesis unfolding R_def by auto
qed

lemma on_panic_path:
  fixes S :: "('s, 'e) Store" and vw clk ok grant keep
  defines "R \<equiv> lease_reachable S vw clk ok grant keep"
  assumes env: "request_timeline R clk ok env" and "reached R st (clk (ce_finish env)) (wd_store wd)"
  shows "reached R st (clk (ce_release env)) (wd_store (on_panic S env attrs k tok opts c wd))"
proof -
  let ?s1 = "snd (Finish S (ce_finish env) k tok Discard [] opts (ce_before_finish env (wd_store wd)))"
  have "clk (ce_finish env) \<le> clk (ce_release env)" using env by (simp add: request_timeline_def)
  moreover have "wd_store (on_panic S env attrs k tok opts c wd) \<in> {wd_store wd, ?s1}"
    by (auto simp: on_panic_def store_do_def warn_def Let_def split: prod.splits option.splits if_splits)
  ultimately show ?thesis
    using finish_then_release(1) [OF env [unfolded R_def] assms(3) [unfolded R_def]] reached_mono [OF assms(3)] unfolding R_def by auto
qed

text \<open>
  The execution under a lease: one call of the handler, in its reservation's context and on the
  capture writer over the client's; what follows it leaves the client's writer as it was.
\<close>

definition http_run :: "config \<Rightarrow> 's handler \<Rightarrow> Request \<Rightarrow> ctx \<Rightarrow> rw \<Rightarrow> bool \<Rightarrow> rw \<Rightarrow> 's \<Rightarrow> 's \<Rightarrow> bool" where
  "http_run cfg h r c w p w' s s' \<longleftrightarrow>
     (\<exists>cp. run_under_lease cfg h r c w s = (p, cp) \<and> cp_store cp = s' \<and> cw_w (cp_cw cp) = w')"

lemma proceed_path:
  fixes S :: "('s, 'e) Store" and vw clk ok grant keep
  defines "R \<equiv> lease_reachable S vw clk ok grant keep"
  assumes env: "request_timeline R clk ok env" and at: "reached R st (clk (ce_finish env)) (wd_store wd)"
    and h: "\<And>r c. acts_within R (clk (ce_finish env)) (h r c)"
    and serve: "serve_proceed S cfg h env attrs k tok opts r c wd = (p, wd')"
  obtains st2 where "R st st2" "http_run cfg h r (lease_ctx k tok opts c) (wd_w wd) p (wd_w wd') (wd_store wd) (sy_store st2)"
    "reached R st2 (clk (ce_release env)) (wd_store wd')" "wd_calls wd' = wd_calls wd @ [(r, lease_ctx k tok opts c)]"
proof -
  obtain b cp where run: "run_under_lease cfg h r (lease_ctx k tok opts c) (wd_w wd) (wd_store wd) = (b, cp)" by (meson surj_pair)
  let ?wd = "wd\<lparr>wd_w := cw_w (cp_cw cp), wd_store := cp_store cp, wd_calls := wd_calls wd @ [(r, lease_ctx k tok opts c)]\<rparr>"
  have ops: "store_ops_keep (reached R st (clk (ce_finish env))) (h r (lease_ctx k tok opts c))"
    using acts_within_keep [OF h] transp_lease_reachable unfolding R_def by blast
  have "reached R st (clk (ce_finish env)) (cp_store cp)"
    using run_cap_store [OF run [unfolded run_under_lease_def] ops] at by simp
  then obtain st2 where st2: "R st st2" "sy_store st2 = cp_store cp" "sy_clock st2 \<le> clk (ce_finish env)"
    unfolding reached_def by blast
  then have s: "reached R st2 (clk (ce_finish env)) (wd_store ?wd)" unfolding reached_def R_def by (auto intro: reach_init)
  have "clk (ce_finish env) \<le> clk (ce_release env)" using env by (simp add: request_timeline_def)
  note parts = reached_mono [OF s this] settle_path [OF env [unfolded R_def] s [unfolded R_def]]
    on_panic_path [OF env [unfolded R_def] s [unfolded R_def]]
  have "p = b \<and> wd_w wd' = cw_w (cp_cw cp) \<and> wd_calls wd' = wd_calls wd @ [(r, lease_ctx k tok opts c)] \<and>
      reached R st2 (clk (ce_release env)) (wd_store wd')"
    using serve run parts unfolding R_def
    by (auto simp: serve_proceed_def Let_def settle_invocations on_panic_invocations settle_writer on_panic_writer split: if_splits)
  with st2 run show thesis by (intro that [of st2]) (auto simp: http_run_def)
qed

subsection \<open>A whole call\<close>

text \<open>
  What a request did, between the states \<open>st\<close> and \<open>st'\<close>: no call of the handler, one outside any
  lease (the request is not subject to idempotency, or the middleware is configured to fail open
  and the store failed), or one under a lease. The handler of the latter ran on a store that its
  execution owned, until what the client's writer holds at the end was written and the request returned or
  panicked as it does.
\<close>

definition executed :: "(bytes \<Rightarrow> bytes) \<Rightarrow> config \<Rightarrow> 's paths \<Rightarrow> ('s sys \<Rightarrow> string \<Rightarrow> string \<Rightarrow> bytes \<Rightarrow> bool) \<Rightarrow> 's handler \<Rightarrow>
    Request \<Rightarrow> ctx \<Rightarrow> rw \<Rightarrow> bool \<Rightarrow> rw \<Rightarrow> 's sys \<Rightarrow> 's sys \<Rightarrow> (Request \<times> ctx) list \<Rightarrow> bool" where
  "executed sha256 cfg R owns h r c w p w' st st' calls \<longleftrightarrow> calls = [] \<or>
     ((failOpen cfg \<or> (\<nexists>key body. accepted cfg r key body)) \<and> (\<exists>r1. calls = [(r1, c)])) \<or>
     (\<exists>key body tok. accepted cfg r key body \<and>
        (let r1 = rebuffer r body; k = scoped_key (scope_of cfg r1) key; c1 = lease_ctx k tok (lease_options cfg) c
         in calls = [(r1, c1)] \<and> leased_run R owns st st' k tok (Fingerprint_of sha256 (Method r) (ReqURL r) body)
              (http_run cfg h r1 c1 w p w')))"

lemma next_ServeHTTP_path:
  assumes "transp R" "\<And>r c. acts_within R t (h r c)" "reached R st t (wd_store wd)" "next_ServeHTTP h r c wd = (p, wd')"
  shows "reached R st t (wd_store wd') \<and> wd_calls wd' = wd_calls wd @ [(r, c)]"
  using assms(4) next_ServeHTTP_store [of "reached R st t" h wd r c] acts_within_keep [OF assms(2,1)] assms(3)
  by (auto simp: next_ServeHTTP_def split: prod.splits)

lemma WriteError_calls: "wd_calls (snd (WriteError cfg r code e wd)) = wd_calls wd"
  by (simp add: WriteError_def split: prod.splits)

lemma warn_calls [simp]: "wd_calls (warn m a wd) = wd_calls wd"
  by (simp add: warn_def)

text \<open>From the lease on.\<close>

lemma keyed_path:
  fixes S :: "('s, 'e) Store" and vw clk ok grant keep
  defines "R \<equiv> lease_reachable S vw clk ok grant keep"
  assumes env: "request_timeline R clk ok env" and st: "sy_store st = wd_store wd" "sy_clock st \<le> clk (at_store (ce_begin env 1))"
    and h: "\<And>r c. acts_within R (clk (ce_finish env)) (h r c)"
    and serve: "serve_keyed sha256 S cfg h env key body r c wd = (p, wd')"
  shows "\<exists>st'. R st st' \<and> sy_store st' = wd_store wd' \<and> (\<exists>calls. wd_calls wd' = wd_calls wd @ calls \<and>
    (calls = [] \<or> (failOpen cfg \<and> calls = [(r, c)]) \<or> (\<exists>tok. calls = [(r, lease_ctx (scoped_key (scope_of cfg r) key) tok (lease_options cfg) c)] \<and>
      leased_run R (just_granted clk grant (ce_begin env) (lease_options cfg)) st st' (scoped_key (scope_of cfg r) key) tok
        (Fingerprint_of sha256 (Method r) (ReqURL r) body)
        (http_run cfg h r (lease_ctx (scoped_key (scope_of cfg r) key) tok (lease_options cfg) c) (wd_w wd) p (wd_w wd')))))"
proof -
  let ?k = "scoped_key (scope_of cfg r) key" and ?fp = "Fingerprint_of sha256 (Method r) (ReqURL r) body"
  have tr: "transp R" unfolding R_def by (rule transp_lease_reachable)
  have bt: "begin_timeline R clk ok (clk (ce_finish env)) (ce_begin env)" using env by (simp add: request_timeline_def)
  obtain res s1 where B: "Begin S (ce_rnd env) (ce_begin env) ?k ?fp (lease_options cfg) (wd_store wd) = (res, s1)" by (meson surj_pair)
  have "reached R st (clk (at_store (ce_begin env 1))) (wd_store wd)"
    using st unfolding reached_def R_def by (blast intro: reach_init)
  then obtain st1 where st1: "R st st1" "sy_store st1 = s1" "sy_clock st1 \<le> clk (ce_finish env)"
    and own: "\<And>out. res = Inr out \<Longrightarrow> Action out = Proceed \<Longrightarrow>
      just_granted clk grant (ce_begin env) (lease_options cfg) st1 ?k (OutToken out) ?fp"
    using Begin_path [OF bt [unfolded R_def] _ B] unfolding R_def by metis
  let ?wd = "wd\<lparr>wd_store := s1\<rparr>"
  have at: "reached R st1 (clk (ce_finish env)) (wd_store ?wd)"
    using st1 unfolding reached_def R_def by (auto intro: reach_init)
  show ?thesis
  proof (cases res)
    case (Inl err)
    show ?thesis
    proof (cases "failOpen cfg")
      case True
      then have "next_ServeHTTP h r c (warn ''httpidem: store unavailable; proceeding without idempotency (FailOpen)''
          (keyAttrs sha256 cfg (scope_of cfg r) key @ error_attr err) ?wd) = (p, wd')"
        using serve B Inl by (simp add: serve_keyed_def store_do_def Let_def)
      from next_ServeHTTP_path [OF tr h _ this, of st1] at have
        "reached R st1 (clk (ce_finish env)) (wd_store wd')" "wd_calls wd' = wd_calls wd @ [(r, c)]" by simp_all
      then obtain st' where "R st1 st'" "sy_store st' = wd_store wd'" "wd_calls wd' = wd_calls wd @ [(r, c)]"
        unfolding reached_def by blast
      with transpD [OF tr st1(1)] show ?thesis using True by (intro exI [of _ st'] conjI exI [of _ "[(r, c)]"]) auto
    next
      case False
      then have "wd_store wd' = s1" "wd_calls wd' = wd_calls wd"
        using serve B Inl by (auto simp: serve_keyed_def store_do_def WriteError_def Let_def split: prod.splits)
      then show ?thesis using st1 by auto
    qed
  next
    case (Inr out)
    show ?thesis
    proof (cases "Action out = Proceed")
      case True
      let ?c = "lease_ctx ?k (OutToken out) (lease_options cfg) c"
      from serve_keyed_proceeds [OF B [unfolded Inr] True, of h c] serve
      have P: "serve_proceed S cfg h env (keyAttrs sha256 cfg (scope_of cfg r) key) ?k (OutToken out) (lease_options cfg) r c ?wd = (p, wd')"
        by simp
      obtain st2 where st2: "R st1 st2" "http_run cfg h r ?c (wd_w ?wd) p (wd_w wd') (wd_store ?wd) (sy_store st2)"
        "reached R st2 (clk (ce_release env)) (wd_store wd')" "wd_calls wd' = wd_calls ?wd @ [(r, ?c)]"
        by (rule proceed_path [OF env [unfolded R_def] at [unfolded R_def] h [unfolded R_def] P, folded R_def])
      have "http_run cfg h r ?c (wd_w wd) p (wd_w wd') (sy_store st1) (sy_store st2)" using st2(2) st1(2) by simp
      from leased_runI [where owns = "just_granted clk grant (ce_begin env) (lease_options cfg)" and runs = "http_run cfg h r ?c (wd_w wd) p (wd_w wd')", OF tr st1(1) own [OF Inr True] st2(1) this st2(3)]
      obtain st' where "R st st'" "sy_store st' = wd_store wd'" "leased_run R (just_granted clk grant (ce_begin env) (lease_options cfg))
          st st' ?k (OutToken out) ?fp (http_run cfg h r ?c (wd_w wd) p (wd_w wd'))" by blast
      with st2(4) show ?thesis by (intro exI [of _ st'] conjI exI [of _ "[(r, ?c)]"]) auto
    next
      case False
      from serve_keyed_answers [OF B [unfolded Inr] False, of h c] serve
      have "answer sha256 cfg r (scope_of cfg r) key out ?wd = (p, wd')" by simp
      from answer_keeps [OF this] show ?thesis using st1 by auto
    qed
  qed
qed

lemma ServeHTTP_path:
  fixes S :: "('s, 'e) Store" and vw clk ok grant keep
  defines "R \<equiv> lease_reachable S vw clk ok grant keep"
  assumes env: "request_timeline R clk ok env" and st: "sy_store st = wd_store wd" "sy_clock st \<le> clk (at_store (ce_begin env 1))"
    and h: "\<And>r c. acts_within R (clk (ce_finish env)) (h r c)"
    and serve: "ServeHTTP sha256 S cfg h env r c wd = (p, wd')"
  shows "\<exists>st' calls. R st st' \<and> sy_store st' = wd_store wd' \<and> wd_calls wd' = wd_calls wd @ calls \<and>
    executed sha256 cfg R (just_granted clk grant (ce_begin env) (lease_options cfg)) h r c (wd_w wd) p (wd_w wd') st st' calls"
proof (cases "\<exists>key body. accepted cfg r key body")
  case True
  then obtain key body where acc: "accepted cfg r key body" by blast
  from keyed_path [OF env [unfolded R_def] st h [unfolded R_def] serve [unfolded ServeHTTP_accepted [OF acc]]] show ?thesis
    using acc unfolding R_def executed_def Let_def by (simp, metis)
next
  case False
  have tr: "transp R" unfolding R_def by (rule transp_lease_reachable)
  have "begin_timeline R clk ok (clk (ce_finish env)) (ce_begin env)" using env by (simp add: request_timeline_def)
  then have "clk (at_store (ce_begin env 1)) \<le> clk (ce_finish env)" by (simp add: begin_timeline_def)
  then have at: "reached R st (clk (ce_finish env)) (wd_store wd)"
    using st unfolding reached_def R_def by (meson order_trans reach_init)
  have "(wd_store wd' = wd_store wd \<and> wd_calls wd' = wd_calls wd) \<or>
      (\<exists>r1 wd1. wd_store wd1 = wd_store wd \<and> wd_calls wd1 = wd_calls wd \<and> next_ServeHTTP h r1 c wd1 = (p, wd'))"
    using serve False
    by (auto simp: ServeHTTP_def accepted_def WriteError_def split: if_splits sum.splits prod.splits option.splits)
  then show ?thesis
  proof
    assume "wd_store wd' = wd_store wd \<and> wd_calls wd' = wd_calls wd"
    then show ?thesis using st unfolding executed_def R_def by (intro exI [of _ st] exI [of _ "[]"]) (auto intro: reach_init)
  next
    assume "\<exists>r1 wd1. wd_store wd1 = wd_store wd \<and> wd_calls wd1 = wd_calls wd \<and> next_ServeHTTP h r1 c wd1 = (p, wd')"
    then obtain r1 wd1 where n: "wd_store wd1 = wd_store wd" "wd_calls wd1 = wd_calls wd" "next_ServeHTTP h r1 c wd1 = (p, wd')" by blast
    from next_ServeHTTP_path [OF tr h _ n(3), of st] at n(1,2)
    have "reached R st (clk (ce_finish env)) (wd_store wd')" "wd_calls wd' = wd_calls wd @ [(r1, c)]" by simp_all
    then show ?thesis using False unfolding reached_def executed_def by blast
  qed
qed

subsection \<open>Transactional completion\<close>

text \<open>A handler that completes its key in its own transaction does to the table what \<open>Finish\<close> does.\<close>

lemma CompleteTx_rows: "snd (CompleteTx e k tok p ttl tbl) = snd (pg_Complete e k tok p ttl tbl)"
proof -
  have q: "snd (run_stmt q (\<lambda>now t. (g now t, t)) tbl) = others (st_between q) tbl" for q and g :: "int \<Rightarrow> pg_table \<Rightarrow> 'x" and tbl
    by (simp add: run_stmt_def split: option.split)
  show ?thesis
    using q [of "pe_classify e" "\<lambda>now. qClassifyTx now k"] q [of "pe_classify e" "\<lambda>now. qClassify now k"]
    by (simp add: CompleteTx_def pg_Complete_def classifyFailure_def split_beta split: sum.split)
qed

lemma CompleteTx_activity:
  assumes "pg_shaky e"
  shows "activity pg_reachable (pg_clock e) (\<lambda>tbl. snd (CompleteTx e k tok p (recordTTL opts) tbl))"
proof -
  have "snd (CompleteTx e k tok p (recordTTL opts) tbl) = snd (Finish pg_Store e k tok Persist p opts tbl)" for tbl
    unfolding CompleteTx_rows by (simp add: Finish_def split_beta split: option.split)
  then show ?thesis using activity_Finish [of pg_shaky e pg_clock, OF assms refl] by simp
qed

subsection \<open>The property\<close>

text \<open>
  (C6) Over every store that keeps the contract and whose calls may fail, a request to the
  middleware, with everything the other clients do before, between and after its store calls and while its
  handler runs, is a path of the concurrent system. On that path the handler was called at most
  once. Unless the middleware fails open, or the request is not subject to idempotency, it was
  called under the reservation of the request's key: it ran from the state in which the execution had just
  been granted the key, on the store of that state, which holds the lease until the granted
  deadline. In that state, when the handler ended and when the request ended, the store holds the lease of
  every owner within its deadline, two executions of one key within their leases are the same
  execution, and a persisted response is the only answer for its key.
\<close>

theorem requests_exclude_each_other:
  assumes "shaky_store S sinv sview sclock up grant keep rebuilt shaky" "sinv s"
    and "lease_reachable S sview sclock shaky grant keep (sys_init s t) st"
    and "sy_store st = wd_store wd" "sy_clock st \<le> sclock (at_store (ce_begin env 1))"
    and "request_timeline (lease_reachable S sview sclock shaky grant keep) sclock shaky env"
    and "\<And>r c. acts_within (lease_reachable S sview sclock shaky grant keep) (sclock (ce_finish env)) (h r c)"
    and "ServeHTTP sha256 S cfg h env r c wd = (p, wd')"
  shows "\<exists>st' calls. lease_reachable S sview sclock shaky grant keep st st' \<and>
    sy_store st' = wd_store wd' \<and> wd_calls wd' = wd_calls wd @ calls \<and>
    executed sha256 cfg (sound sview (lease_reachable S sview sclock shaky grant keep))
      (just_granted sclock grant (ce_begin env) (lease_options cfg)) h r c (wd_w wd) p (wd_w wd') st st' calls"
proof -
  note sound = lease_clients.leased_run_sound [OF lease_clients.intro [OF assms(1)] assms(2,3)]
  show ?thesis using ServeHTTP_path [OF assms(6,4,5,7,8)] sound unfolding executed_def Let_def by blast
qed

text \<open>A request to the in-memory store, while another client tries to finish its key with a stale token.\<close>

definition busy_env :: "(memstore, Time) call_env" where
  "busy_env = (demo_env 0)\<lparr>ce_before_finish := (\<lambda>s. snd (Finish mem_Store 1 (scoped_key [] ''k1'') ''stale'' Discard [] sample_options s))\<rparr>"

lemma busy_timeline: "request_timeline mem_reachable (\<lambda>now. now) (\<lambda>_. True) busy_env"
  unfolding request_timeline_def begin_timeline_def
  by (simp add: busy_env_def demo_env_def activity_id activity_Finish)

theorem requests_exclude_each_other_witness:
  "\<exists>wd' st'. ServeHTTP id mem_Store default_config demo_handler busy_env demo_request background (demo_world mem_New) = (False, wd') \<and>
     mem_reachable (sys_init mem_New 0) st' \<and> sy_store st' = wd_store wd' \<and> wd_calls wd' \<noteq> [] \<and>
     executed id default_config (sound mem_view mem_reachable)
       (just_granted (\<lambda>now. now) (\<lambda>_ r. LeaseExpiresAt r) (ce_begin busy_env) (lease_options default_config))
       demo_handler demo_request background (new_rw None None) False (wd_w wd') (sys_init mem_New 0) st' (wd_calls wd')"
proof -
  let ?w = "demo_world mem_New"
  let ?fp = "Fingerprint_of id (Method (rebuffer demo_request ''x'')) (ReqURL (rebuffer demo_request ''x'')) ''x''"
  have ce: "ce_begin busy_env = ce_begin (demo_env 0)" "ce_rnd busy_env = Inr ''ab''" by (simp_all add: busy_env_def)
  obtain res s1 where B: "Begin mem_Store (ce_rnd busy_env) (ce_begin busy_env) (scoped_key (scope_of default_config (rebuffer demo_request ''x'')) ''k1'')
      ?fp (lease_options default_config) (wd_store ?w) = (res, s1)" by (meson surj_pair)
  have res: "res = Inr (proceed_outcome (EncodeToString ''ab''))"
    using B ce by (simp add: Begin_def newToken_def begin_loop.simps begin_attempt_def mem_Reserve_def mem_lookup_def mem_New_def)
  have S: "ServeHTTP id mem_Store default_config demo_handler busy_env demo_request background ?w =
      serve_proceed mem_Store default_config demo_handler busy_env (keyAttrs id default_config (scope_of default_config (rebuffer demo_request ''x'')) ''k1'')
        (scoped_key (scope_of default_config (rebuffer demo_request ''x'')) ''k1'') (EncodeToString ''ab'') (lease_options default_config)
        (rebuffer demo_request ''x'') background (?w\<lparr>wd_store := s1\<rparr>)"
    unfolding ServeHTTP_accepted [OF demo_accepted] using serve_keyed_proceeds [OF B [unfolded res]] by simp
  obtain wd' where wd': "ServeHTTP id mem_Store default_config demo_handler busy_env demo_request background ?w = (False, wd')"
    unfolding S by (simp add: serve_proceed_def demo_run demo_finished Let_def)
  have h: "acts_within mem_reachable (ce_finish busy_env) (demo_handler r c)" for r c by (simp add: demo_handler_def)
  have st: "sy_store (sys_init mem_New 0) = wd_store ?w" "sy_clock (sys_init mem_New 0) \<le> at_store (ce_begin busy_env 1)"
    by (simp_all add: sys_init_def ce)
  from requests_exclude_each_other [OF mem_shaky.shaky_store_axioms mem_inv_New reach_init st busy_timeline h wd']
  obtain st' calls where "mem_reachable (sys_init mem_New 0) st'" "sy_store st' = wd_store wd'" "wd_calls wd' = calls"
    "executed id default_config (sound mem_view mem_reachable)
       (just_granted (\<lambda>now. now) (\<lambda>_ r. LeaseExpiresAt r) (ce_begin busy_env) (lease_options default_config))
       demo_handler demo_request background (new_rw None None) False (wd_w wd') (sys_init mem_New 0) st' calls"
    by auto
  moreover have "wd_calls wd' \<noteq> []"
    using wd' unfolding S by (auto simp: serve_proceed_def demo_run demo_finished settle_invocations Let_def)
  ultimately show ?thesis using wd' by blast
qed

end
