(* ===== verification/Gin_Writer.thy ===== *)
theory Gin_Writer
  imports Handler_Run
begin

section \<open>Capture on Gin's response writer\<close>

text \<open>
  The \<open>captureWriter\<close> of \<^verbatim>\<open>ginadapter/ginadapter.go\<close> and the handlers that run on it. Gin is not
  part of the repository: its response writer is a record of functions over a writer state
  \<open>'g\<close>, and what the adapter relies on is the locale \<open>gin_library\<close>, in terms of what the
  writer has sent and holds back (\<open>gin_obs\<close>). \<open>reference_gin\<close> is a small writer over the writer
  of \<^verbatim>\<open>net/http\<close> that satisfies the laws.

  Capture is transparent for every writer. What is captured is what is sent, for a writer
  whose status was not set before the adapter ran.
\<close>

datatype gin_reply = GErr "gerror option" | GInt int | GPanicked

record 'g gin_writer =
  gn_Header :: "'g \<Rightarrow> Header"
  gn_SetHeader :: "Header \<Rightarrow> 'g \<Rightarrow> 'g"
  gn_WriteHeader :: "int \<Rightarrow> 'g \<Rightarrow> bool \<times> 'g"
  gn_Write :: "bytes \<Rightarrow> 'g \<Rightarrow> gin_reply \<times> 'g"
  gn_WriteString :: "string \<Rightarrow> 'g \<Rightarrow> gin_reply \<times> 'g"
  gn_WriteHeaderNow :: "'g \<Rightarrow> bool \<times> 'g"
  gn_Flush :: "'g \<Rightarrow> bool \<times> 'g"
  gn_Hijack :: "'g \<Rightarrow> gin_reply \<times> 'g"
  gn_Status :: "'g \<Rightarrow> int"
  gn_Size :: "'g \<Rightarrow> int"

subsection \<open>The capturing writer\<close>

record 'g gin_capture =
  gc_w :: 'g
  gc_rec :: Recorder
  gc_pending :: int
  gc_snapshotted :: bool

definition new_gin_capture :: "'g \<Rightarrow> Recorder \<Rightarrow> 'g gin_capture" where
  "new_gin_capture orig rec = \<lparr>gc_w = orig, gc_rec = rec, gc_pending = 0, gc_snapshotted = False\<rparr>"

definition gcw_WriteHeader :: "'g gin_writer \<Rightarrow> int \<Rightarrow> 'g gin_capture \<Rightarrow> bool \<times> 'g gin_capture" where
  "gcw_WriteHeader G code cw =
     (let cw1 = (if \<not> gc_snapshotted cw \<and> code \<ge> 200 then cw\<lparr>gc_pending := code\<rparr> else cw);
          (p, g') = gn_WriteHeader G code (gc_w cw1)
      in (p, cw1\<lparr>gc_w := g'\<rparr>))"

definition gcw_snapshot :: "'g gin_writer \<Rightarrow> 'g gin_capture \<Rightarrow> 'g gin_capture" where
  "gcw_snapshot G cw =
     (if gc_snapshotted cw then cw
      else let code = (if gc_pending cw = 0 then StatusOK else gc_pending cw)
        in cw\<lparr>gc_rec := RecordStatus code (gn_Header G (gc_w cw)) (gc_rec cw), gc_snapshotted := True\<rparr>)"

definition gcw_Write :: "'g gin_writer \<Rightarrow> bytes \<Rightarrow> 'g gin_capture \<Rightarrow> gin_reply \<times> 'g gin_capture" where
  "gcw_Write G p cw =
     (let cw1 = gcw_snapshot G cw; cw2 = cw1\<lparr>gc_rec := RecordBody p (gc_rec cw1)\<rparr>;
          (r, g') = gn_Write G p (gc_w cw2)
      in (r, cw2\<lparr>gc_w := g'\<rparr>))"

definition gcw_WriteString :: "'g gin_writer \<Rightarrow> string \<Rightarrow> 'g gin_capture \<Rightarrow> gin_reply \<times> 'g gin_capture" where
  "gcw_WriteString G s cw =
     (let cw1 = gcw_snapshot G cw; cw2 = cw1\<lparr>gc_rec := RecordBody s (gc_rec cw1)\<rparr>;
          (r, g') = gn_WriteString G s (gc_w cw2)
      in (r, cw2\<lparr>gc_w := g'\<rparr>))"

definition gcw_WriteHeaderNow :: "'g gin_writer \<Rightarrow> 'g gin_capture \<Rightarrow> bool \<times> 'g gin_capture" where
  "gcw_WriteHeaderNow G cw =
     (let cw1 = gcw_snapshot G cw; (p, g') = gn_WriteHeaderNow G (gc_w cw1) in (p, cw1\<lparr>gc_w := g'\<rparr>))"

definition gcw_Flush :: "'g gin_writer \<Rightarrow> 'g gin_capture \<Rightarrow> bool \<times> 'g gin_capture" where
  "gcw_Flush G cw =
     (let cw1 = cw\<lparr>gc_rec := Abandon (gc_rec cw)\<rparr>; (p, g') = gn_Flush G (gc_w cw1) in (p, cw1\<lparr>gc_w := g'\<rparr>))"

definition gcw_Hijack :: "'g gin_writer \<Rightarrow> 'g gin_capture \<Rightarrow> gin_reply \<times> 'g gin_capture" where
  "gcw_Hijack G cw =
     (let (r, g') = gn_Hijack G (gc_w cw); cw1 = cw\<lparr>gc_w := g'\<rparr> in
      (r, if r = GErr None then cw1\<lparr>gc_rec := Abandon (gc_rec cw1)\<rparr> else cw1))"

definition gcw_finalize :: "'g gin_writer \<Rightarrow> 'g gin_capture \<Rightarrow> 'g gin_capture" where
  "gcw_finalize G cw = gcw_snapshot G cw"

subsection \<open>Handlers\<close>

text \<open>
  The rest of the handler chain, as an arbitrary terminating program on the writer, the
  context channels and the store. \<open>GStatus\<close> and \<open>GSize\<close> read the writer.
\<close>

datatype 's gin_action =
    GSetHeader string "string list" | GDelHeader string
  | GWriteHeader int | GWrite bytes | GWriteString string | GWriteHeaderNow | GFlush | GHijack | GStatus | GSize
  | GSetError "gerror option" | GMarkFinished
  | GStoreOp "'s \<Rightarrow> gerror option \<times> 's"

datatype 's gin_prog = GDone | GPanic | GDo "'s gin_action" "gin_reply \<Rightarrow> 's gin_prog"

record ('g, 's) gin_plain =
  gp_w :: 'g
  gp_ctx :: ctx
  gp_store :: 's

definition of_panic :: "bool \<Rightarrow> gin_reply" where
  "of_panic p = (if p then GPanicked else GErr None)"

definition gin_raw_step :: "'g gin_writer \<Rightarrow> 's gin_action \<Rightarrow> ('g, 's) gin_plain \<Rightarrow> gin_reply \<times> ('g, 's) gin_plain" where
  "gin_raw_step G a st = (let g = gp_w st in case a of
       GSetHeader n vs \<Rightarrow> (GErr None, st\<lparr>gp_w := gn_SetHeader G (hdr_put (gn_Header G g) n vs) g\<rparr>)
     | GDelHeader n \<Rightarrow> (GErr None, st\<lparr>gp_w := gn_SetHeader G (hdr_del (gn_Header G g) n) g\<rparr>)
     | GWriteHeader code \<Rightarrow> (let (p, g') = gn_WriteHeader G code g in (of_panic p, st\<lparr>gp_w := g'\<rparr>))
     | GWrite bs \<Rightarrow> (let (r, g') = gn_Write G bs g in (r, st\<lparr>gp_w := g'\<rparr>))
     | GWriteString s \<Rightarrow> (let (r, g') = gn_WriteString G s g in (r, st\<lparr>gp_w := g'\<rparr>))
     | GWriteHeaderNow \<Rightarrow> (let (p, g') = gn_WriteHeaderNow G g in (of_panic p, st\<lparr>gp_w := g'\<rparr>))
     | GFlush \<Rightarrow> (let (p, g') = gn_Flush G g in (of_panic p, st\<lparr>gp_w := g'\<rparr>))
     | GHijack \<Rightarrow> (let (r, g') = gn_Hijack G g in (r, st\<lparr>gp_w := g'\<rparr>))
     | GStatus \<Rightarrow> (GInt (gn_Status G g), st)
     | GSize \<Rightarrow> (GInt (gn_Size G g), st)
     | GSetError e \<Rightarrow> (GErr None, st\<lparr>gp_ctx := SetError_ctx e (gp_ctx st)\<rparr>)
     | GMarkFinished \<Rightarrow> (GErr None, st\<lparr>gp_ctx := MarkFinished_ctx (gp_ctx st)\<rparr>)
     | GStoreOp f \<Rightarrow> (let (e, s') = f (gp_store st) in (GErr e, st\<lparr>gp_store := s'\<rparr>)))"

primrec run_gin :: "'g gin_writer \<Rightarrow> 's gin_prog \<Rightarrow> ('g, 's) gin_plain \<Rightarrow> bool \<times> ('g, 's) gin_plain" where
  "run_gin G GDone = (\<lambda>st. (False, st))"
| "run_gin G GPanic = (\<lambda>st. (True, st))"
| "run_gin G (GDo a k) = (\<lambda>st. let (r, st') = gin_raw_step G a st in run_gin G (k r) st')"

record ('g, 's) gin_captured =
  gk_cw :: "'g gin_capture"
  gk_ctx :: ctx
  gk_store :: 's

definition gin_cap_step :: "'g gin_writer \<Rightarrow> 's gin_action \<Rightarrow> ('g, 's) gin_captured \<Rightarrow> gin_reply \<times> ('g, 's) gin_captured" where
  "gin_cap_step G a st = (let cw = gk_cw st; g = gc_w cw in case a of
       GSetHeader n vs \<Rightarrow> (GErr None, st\<lparr>gk_cw := cw\<lparr>gc_w := gn_SetHeader G (hdr_put (gn_Header G g) n vs) g\<rparr>\<rparr>)
     | GDelHeader n \<Rightarrow> (GErr None, st\<lparr>gk_cw := cw\<lparr>gc_w := gn_SetHeader G (hdr_del (gn_Header G g) n) g\<rparr>\<rparr>)
     | GWriteHeader code \<Rightarrow> (let (p, cw') = gcw_WriteHeader G code cw in (of_panic p, st\<lparr>gk_cw := cw'\<rparr>))
     | GWrite bs \<Rightarrow> (let (r, cw') = gcw_Write G bs cw in (r, st\<lparr>gk_cw := cw'\<rparr>))
     | GWriteString s \<Rightarrow> (let (r, cw') = gcw_WriteString G s cw in (r, st\<lparr>gk_cw := cw'\<rparr>))
     | GWriteHeaderNow \<Rightarrow> (let (p, cw') = gcw_WriteHeaderNow G cw in (of_panic p, st\<lparr>gk_cw := cw'\<rparr>))
     | GFlush \<Rightarrow> (let (p, cw') = gcw_Flush G cw in (of_panic p, st\<lparr>gk_cw := cw'\<rparr>))
     | GHijack \<Rightarrow> (let (r, cw') = gcw_Hijack G cw in (r, st\<lparr>gk_cw := cw'\<rparr>))
     | GStatus \<Rightarrow> (GInt (gn_Status G g), st)
     | GSize \<Rightarrow> (GInt (gn_Size G g), st)
     | GSetError e \<Rightarrow> (GErr None, st\<lparr>gk_ctx := SetError_ctx e (gk_ctx st)\<rparr>)
     | GMarkFinished \<Rightarrow> (GErr None, st\<lparr>gk_ctx := MarkFinished_ctx (gk_ctx st)\<rparr>)
     | GStoreOp f \<Rightarrow> (let (e, s') = f (gk_store st) in (GErr e, st\<lparr>gk_store := s'\<rparr>)))"

primrec run_gin_cap :: "'g gin_writer \<Rightarrow> 's gin_prog \<Rightarrow> ('g, 's) gin_captured \<Rightarrow> bool \<times> ('g, 's) gin_captured" where
  "run_gin_cap G GDone = (\<lambda>st. (False, st))"
| "run_gin_cap G GPanic = (\<lambda>st. (True, st))"
| "run_gin_cap G (GDo a k) = (\<lambda>st. let (r, st') = gin_cap_step G a st in run_gin_cap G (k r) st')"

subsection \<open>Capture is transparent\<close>

definition gin_uncapture :: "('g, 's) gin_captured \<Rightarrow> ('g, 's) gin_plain" where
  "gin_uncapture st = \<lparr>gp_w = gc_w (gk_cw st), gp_ctx = gk_ctx st, gp_store = gk_store st\<rparr>"

lemma snapshot_w [simp]: "gc_w (gcw_snapshot G cw) = gc_w cw"
  by (simp add: gcw_snapshot_def Let_def)

lemmas gcw_ops = gcw_WriteHeader_def gcw_Write_def gcw_WriteString_def gcw_WriteHeaderNow_def gcw_Flush_def gcw_Hijack_def

lemma gin_step_transparent:
  "gin_cap_step G a st = (r, st') \<Longrightarrow> gin_raw_step G a (gin_uncapture st) = (r, gin_uncapture st')"
  by (cases a) (auto simp: gin_cap_step_def gin_raw_step_def gin_uncapture_def gcw_ops Let_def split: prod.splits if_splits)

lemma run_gin_transparent:
  "run_gin_cap G p st = (b, st') \<Longrightarrow> run_gin G p (gin_uncapture st) = (b, gin_uncapture st')"
proof (induction p arbitrary: st)
  case (GDo a k)
  obtain r st1 where S: "gin_cap_step G a st = (r, st1)" by force
  with GDo.prems have "run_gin_cap G (k r) st1 = (b, st')" by simp
  from GDo.IH [OF rangeI this] gin_step_transparent [OF S] show ?case by simp
qed simp_all

subsection \<open>What the adapter relies on\<close>

record gin_obs =
  ob_header :: Header
  ob_status :: int
  ob_sent :: "(int \<times> Header) option"
  ob_body :: bytes
  ob_open :: bool

text \<open>Sending the deferred status line and header, and a piece of the body.\<close>

definition send_header :: "gin_obs \<Rightarrow> gin_obs" where
  "send_header ob = (case ob_sent ob of None \<Rightarrow> ob\<lparr>ob_sent := Some (ob_status ob, ob_header ob)\<rparr> | Some _ \<Rightarrow> ob)"

definition send_body :: "bytes \<Rightarrow> gin_obs \<Rightarrow> gin_obs" where
  "send_body p ob = (let ob1 = send_header ob in
     ob1\<lparr>ob_body := ob_body ob1 @ sent_body (fst (the (ob_sent ob1))) p\<rparr>)"

definition final_status :: "int \<Rightarrow> bool" where
  "final_status code \<longleftrightarrow> 200 \<le> code \<and> code \<le> 999"

definition ready :: "gin_obs \<Rightarrow> bool" where
  "ready ob \<longleftrightarrow> ob_open ob \<and> (ob_sent ob = None \<longrightarrow> final_status (ob_status ob))"

text \<open>
  Gin holds the status back until the first write: \<^verbatim>\<open>WriteHeader\<close> sets it while nothing is
  sent, ignores codes that are not positive, and changes nothing that was sent.
\<close>

locale gin_library =
  fixes G :: "'g gin_writer"
    and obs :: "'g \<Rightarrow> gin_obs"
  assumes header_law: "gn_Header G g = ob_header (obs g)"
    and set_header_law: "obs (gn_SetHeader G h g) = (obs g)\<lparr>ob_header := h\<rparr>"
    and write_header_law: "ob_open (obs g) \<Longrightarrow> ob_sent (obs g) = None \<Longrightarrow>
        obs (snd (gn_WriteHeader G code g)) = (if code > 0 then (obs g)\<lparr>ob_status := code\<rparr> else obs g)"
    and write_header_sent_law: "ob_sent (obs g) = Some x \<Longrightarrow> gn_WriteHeader G code g = (panics, g') \<Longrightarrow>
        ob_sent (obs g') = Some x \<and> ob_body (obs g') = ob_body (obs g) \<and> ob_open (obs g') = ob_open (obs g)"
    and write_law: "ready (obs g) \<Longrightarrow> obs (snd (gn_Write G p g)) = send_body p (obs g)"
    and write_string_law: "ready (obs g) \<Longrightarrow> obs (snd (gn_WriteString G p g)) = send_body p (obs g)"
    and no_panic_laws: "ready (obs g) \<Longrightarrow> fst (gn_Write G p g) \<noteq> GPanicked" "ob_open (obs g) \<Longrightarrow> \<not> fst (gn_WriteHeader G code g)"
    and write_header_now_law: "ready (obs g) \<Longrightarrow> obs (snd (gn_WriteHeaderNow G g)) = send_header (obs g)"

subsection \<open>What is captured is what is sent\<close>

definition gin_in_step :: "gin_obs \<Rightarrow> 'g gin_capture \<Rightarrow> bool" where
  "gin_in_step ob cw \<longleftrightarrow> ready ob \<and>
     (if gc_snapshotted cw
      then final_status (rec_status (gc_rec cw)) \<and> (\<exists>h. ob_sent ob = Some (rec_status (gc_rec cw), h) \<and>
          rec_header (gc_rec cw) = Some (snapshot h [] (allow (gc_rec cw))))
      else rec_status (gc_rec cw) = 0 \<and> ob_sent ob = None \<and> rec_body (gc_rec cw) = [] \<and> ob_body ob = [] \<and>
        \<not> overflowed (gc_rec cw) \<and> ob_status ob = (if gc_pending cw = 0 then StatusOK else gc_pending cw)) \<and>
     (\<not> overflowed (gc_rec cw) \<longrightarrow> ob_body ob = sent_body (rec_status (gc_rec cw)) (rec_body (gc_rec cw)))"

text \<open>A chain that sets only final status codes and does not hijack the connection.\<close>

primrec calm :: "'s gin_prog \<Rightarrow> bool" where
  "calm GDone = True"
| "calm GPanic = True"
| "calm (GDo a k) = ((case a of GWriteHeader code \<Rightarrow> code \<le> 0 \<or> final_status code | GHijack \<Rightarrow> False | _ \<Rightarrow> True) \<and>
     (\<forall>r. calm (k r)))"

lemma send_sel [simp]:
  "ob_open (send_header ob) = ob_open ob" "ob_open (send_body p ob) = ob_open ob"
  "ob_sent (send_body p ob) = ob_sent (send_header ob)" "ob_body (send_header ob) = ob_body ob"
  "ob_sent (send_header ob) = Some (case ob_sent ob of None \<Rightarrow> (ob_status ob, ob_header ob) | Some x \<Rightarrow> x)"
  by (simp_all add: send_header_def send_body_def Let_def split: option.split)

lemma gin_in_step_w [simp]: "gin_in_step ob (cw\<lparr>gc_w := g'\<rparr>) = gin_in_step ob cw"
  by (simp add: gin_in_step_def)

lemma gin_in_step_header [simp]: "gin_in_step (ob\<lparr>ob_header := h\<rparr>) cw = gin_in_step ob cw"
  by (simp add: gin_in_step_def ready_def)

lemma gin_snapshot_step:
  assumes "gin_in_step ob cw" "gn_Header G (gc_w cw) = ob_header ob" "\<not> abandoned (gc_rec cw)"
  shows "gin_in_step (send_header ob) (gcw_snapshot G cw)" "gc_snapshotted (gcw_snapshot G cw)"
    "\<not> abandoned (gc_rec (gcw_snapshot G cw))"
  using assms
  by (auto simp: gin_in_step_def gcw_snapshot_def Let_def RecordStatus_def ready_def final_status_def sent_body_def
      StatusOK_def split: if_splits)

lemma gin_body_step:
  assumes "gin_in_step ob cw" "gc_snapshotted cw" "\<not> abandoned (gc_rec cw)"
  shows "gin_in_step (send_body p ob) (cw\<lparr>gc_rec := RecordBody p (gc_rec cw), gc_w := g'\<rparr>)"
proof -
  have "ob_body (send_body p ob) = ob_body ob @ sent_body (rec_status (gc_rec cw)) p"
    using assms(1,2) by (auto simp: gin_in_step_def send_body_def send_header_def Let_def)
  then show ?thesis
    using assms by (auto simp: gin_in_step_def RecordBody_def ready_def sent_body_def split: if_splits)
qed

context gin_library
begin

lemma gin_write_step:
  assumes "gin_in_step (obs (gc_w cw)) cw" "\<not> abandoned (gc_rec cw)"
    and "obs g' = send_body p (obs (gc_w cw))"
  shows "gin_in_step (obs g') ((gcw_snapshot G cw)\<lparr>gc_rec := RecordBody p (gc_rec (gcw_snapshot G cw)), gc_w := g'\<rparr>)"
proof -
  note s = gin_snapshot_step [OF assms(1) header_law assms(2)]
  have "send_body p (send_header (obs (gc_w cw))) = send_body p (obs (gc_w cw))"
    by (simp add: send_body_def send_header_def Let_def split: option.split)
  with gin_body_step [OF s, of p g'] show ?thesis using assms(3) by simp
qed

lemma gin_step_kept:
  assumes "gin_in_step (obs (gc_w (gk_cw st))) (gk_cw st)" "\<not> abandoned (gc_rec (gk_cw st))"
    and "gin_cap_step G a st = (r, st')"
    and "case a of GWriteHeader code \<Rightarrow> code \<le> 0 \<or> final_status code | GHijack \<Rightarrow> False | _ \<Rightarrow> True"
  shows "abandoned (gc_rec (gk_cw st')) \<or> gin_in_step (obs (gc_w (gk_cw st'))) (gk_cw st')"
proof -
  let ?cw = "gk_cw st"
  have ready: "ready (obs (gc_w ?cw))" using assms(1) by (simp add: gin_in_step_def)
  show ?thesis
  proof (cases a)
    case (GWriteHeader code)
    obtain p g' where W: "gn_WriteHeader G code (gc_w ?cw) = (p, g')" by (meson surj_pair)
    have st': "gk_cw st' = (if \<not> gc_snapshotted ?cw \<and> code \<ge> 200 then ?cw\<lparr>gc_pending := code\<rparr> else ?cw)\<lparr>gc_w := g'\<rparr>"
      using assms(3) GWriteHeader W by (auto simp: gin_cap_step_def gcw_WriteHeader_def Let_def)
    show ?thesis
    proof (cases "gc_snapshotted ?cw")
      case True
      then obtain x where x: "ob_sent (obs (gc_w ?cw)) = Some x" using assms(1) by (auto simp: gin_in_step_def)
      from write_header_sent_law [OF x W] show ?thesis
        using assms(1) True x unfolding st' by (auto simp: gin_in_step_def ready_def)
    next
      case False
      then have "ob_sent (obs (gc_w ?cw)) = None" "ob_open (obs (gc_w ?cw))" using assms(1) ready by (simp_all add: gin_in_step_def ready_def)
      from write_header_law [OF this(2,1), of code] show ?thesis
        using assms(1,4) False W GWriteHeader unfolding st' by (auto simp: gin_in_step_def ready_def final_status_def)
    qed
  next
    case (GWrite bs)
    obtain q g' where W: "gn_Write G bs (gc_w ?cw) = (q, g')" by (meson surj_pair)
    then show ?thesis using gin_write_step [OF assms(1,2), of g' bs] write_law [OF ready, of bs] assms(3) GWrite
      by (auto simp: gin_cap_step_def gcw_Write_def Let_def)
  next
    case (GWriteString bs)
    obtain q g' where W: "gn_WriteString G bs (gc_w ?cw) = (q, g')" by (meson surj_pair)
    then show ?thesis using gin_write_step [OF assms(1,2), of g' bs] write_string_law [OF ready, of bs] assms(3) GWriteString
      by (auto simp: gin_cap_step_def gcw_WriteString_def Let_def)
  next
    case GWriteHeaderNow
    obtain q g' where W: "gn_WriteHeaderNow G (gc_w ?cw) = (q, g')" by (meson surj_pair)
    have "gin_in_step (send_header (obs (gc_w ?cw))) ((gcw_snapshot G ?cw)\<lparr>gc_w := g'\<rparr>)"
      using gin_snapshot_step(1) [OF assms(1) header_law assms(2)] by simp
    then show ?thesis using write_header_now_law [OF ready] W assms(3) GWriteHeaderNow
      by (auto simp: gin_cap_step_def gcw_WriteHeaderNow_def Let_def)
  next
    case GFlush
    then show ?thesis using assms(3) by (auto simp: gin_cap_step_def gcw_Flush_def Let_def split: prod.splits)
  next
    case (GStoreOp f)
    then show ?thesis using assms(1,3) by (auto simp: gin_cap_step_def Let_def split: prod.splits)
  qed (use assms in \<open>auto simp: gin_cap_step_def Let_def set_header_law\<close>)
qed

lemma gin_abandoned_stays:
  "gin_cap_step G a st = (r, st') \<Longrightarrow> abandoned (gc_rec (gk_cw st)) \<Longrightarrow> abandoned (gc_rec (gk_cw st'))"
  by (cases a) (auto simp: gin_cap_step_def gcw_ops gcw_snapshot_def Let_def split: prod.splits if_splits)

lemma run_gin_faithful:
  "run_gin_cap G p st = (b, st') \<Longrightarrow> calm p \<Longrightarrow>
     abandoned (gc_rec (gk_cw st)) \<or> gin_in_step (obs (gc_w (gk_cw st))) (gk_cw st) \<Longrightarrow>
     abandoned (gc_rec (gk_cw st')) \<or> gin_in_step (obs (gc_w (gk_cw st'))) (gk_cw st')"
proof (induction p arbitrary: st)
  case (GDo a k)
  obtain r st1 where S: "gin_cap_step G a st = (r, st1)" by force
  with GDo.prems(1) have R: "run_gin_cap G (k r) st1 = (b, st')" by simp
  have "abandoned (gc_rec (gk_cw st1)) \<or> gin_in_step (obs (gc_w (gk_cw st1))) (gk_cw st1)"
    using GDo.prems(2,3) gin_abandoned_stays [OF S] gin_step_kept [OF _ _ S] by auto
  then show ?case using GDo.IH [OF rangeI R] GDo.prems(2) by simp
qed simp_all

text \<open>What Gin sends for a chain that ran under capture, when it returns to the engine.\<close>

lemma gin_capture_faithful:
  assumes fresh: "ready (obs g)" "ob_sent (obs g) = None" "ob_body (obs g) = []" "ob_status (obs g) = StatusOK"
    and "calm p" "run_gin_cap G p \<lparr>gk_cw = new_gin_capture g (NewRecorder m names), gk_ctx = c, gk_store = s\<rparr> = (b, st')"
    and "StoredResponse_of (gc_rec (gcw_finalize G (gk_cw st'))) = (sr, True)"
  shows "\<exists>h. ob_sent (send_header (obs (gc_w (gk_cw st')))) = Some (StatusCode sr, h) \<and>
    rec_header (gc_rec (gcw_finalize G (gk_cw st'))) = Some (SRHeader sr) \<and>
    SRHeader sr = snapshot h [] (allow (gc_rec (gk_cw st'))) \<and>
    ob_body (obs (gc_w (gk_cw st'))) = sent_body (StatusCode sr) (SRBody sr) \<and> final_status (StatusCode sr)"
proof -
  have "gin_in_step (obs g) (new_gin_capture g (NewRecorder m names))"
    using fresh by (simp add: gin_in_step_def new_gin_capture_def NewRecorder_def StatusOK_def sent_body_def)
  then have run: "abandoned (gc_rec (gk_cw st')) \<or> gin_in_step (obs (gc_w (gk_cw st'))) (gk_cw st')"
    using run_gin_faithful [OF assms(6,5)] by (simp add: new_gin_capture_def)
  have ok: "\<not> overflowed (gc_rec (gcw_finalize G (gk_cw st')))" "\<not> abandoned (gc_rec (gcw_finalize G (gk_cw st')))"
    using assms(7) by (auto simp: StoredResponse_of_def split: if_splits)
  then have na: "\<not> abandoned (gc_rec (gk_cw st'))"
    by (auto simp: gcw_finalize_def gcw_snapshot_def Let_def split: if_splits)
  with run have "gin_in_step (obs (gc_w (gk_cw st'))) (gk_cw st')" by blast
  from gin_snapshot_step(1,2) [OF this header_law na] obtain h where
    "final_status (rec_status (gc_rec (gcw_finalize G (gk_cw st'))))"
    "ob_sent (send_header (obs (gc_w (gk_cw st')))) = Some (rec_status (gc_rec (gcw_finalize G (gk_cw st'))), h)"
    "rec_header (gc_rec (gcw_finalize G (gk_cw st'))) = Some (snapshot h [] (allow (gc_rec (gcw_finalize G (gk_cw st')))))"
    "ob_body (obs (gc_w (gk_cw st'))) = sent_body (rec_status (gc_rec (gcw_finalize G (gk_cw st')))) (rec_body (gc_rec (gcw_finalize G (gk_cw st'))))"
    using ok by (auto simp: gin_in_step_def gcw_finalize_def [symmetric])
  moreover have "allow (gc_rec (gcw_finalize G (gk_cw st'))) = allow (gc_rec (gk_cw st'))"
    by (simp add: gcw_finalize_def gcw_snapshot_def Let_def)
  moreover have "StatusCode sr = rec_status (gc_rec (gcw_finalize G (gk_cw st')))" "SRBody sr = rec_body (gc_rec (gcw_finalize G (gk_cw st')))"
    "SRHeader sr = the (rec_header (gc_rec (gcw_finalize G (gk_cw st'))))"
    using assms(7) calculation ok by (auto simp: StoredResponse_of_def Status_def final_status_def split: if_splits)
  ultimately show ?thesis by simp
qed

end

lemma gin_step_allow: "gin_cap_step G a st = (r, st') \<Longrightarrow> allow (gc_rec (gk_cw st')) = allow (gc_rec (gk_cw st))"
  by (cases a) (auto simp: gin_cap_step_def gcw_ops gcw_snapshot_def Let_def split: prod.splits if_splits)

lemma run_gin_allow: "run_gin_cap G p st = (b, st') \<Longrightarrow> allow (gc_rec (gk_cw st')) = allow (gc_rec (gk_cw st))"
proof (induction p arbitrary: st)
  case (GDo a k)
  obtain r st1 where S: "gin_cap_step G a st = (r, st1)" by force
  with GDo.prems have "run_gin_cap G (k r) st1 = (b, st')" by simp
  from GDo.IH [OF rangeI this] gin_step_allow [OF S] show ?case by simp
qed simp_all

subsection \<open>A reference writer\<close>

text \<open>The response writer of Gin over that of \<^verbatim>\<open>net/http\<close>; a size of -1 means that nothing is written.\<close>

record gin_rw =
  gr_rw :: rw
  gr_status :: int
  gr_size :: int

definition ref_now :: "gin_rw \<Rightarrow> bool \<times> gin_rw" where
  "ref_now g = (if gr_size g \<noteq> -1 then (False, g)
     else let (p, w') = rw_WriteHeader (gr_status g) (gr_rw g) in (p, g\<lparr>gr_size := 0, gr_rw := w'\<rparr>))"

definition ref_write :: "bytes \<Rightarrow> gin_rw \<Rightarrow> gin_reply \<times> gin_rw" where
  "ref_write p g = (let (panics, g1) = ref_now g in
     if panics then (GPanicked, g1)
     else let (e, w') = rw_Write p (gr_rw g1) in
       (GErr e, g1\<lparr>gr_rw := w', gr_size := gr_size g1 + (if e = None then int (length p) else 0)\<rparr>))"

definition reference_gin :: "gin_rw gin_writer" where
  "reference_gin = \<lparr>
     gn_Header = (\<lambda>g. rw_header (gr_rw g)),
     gn_SetHeader = (\<lambda>h g. g\<lparr>gr_rw := (gr_rw g)\<lparr>rw_header := h\<rparr>\<rparr>),
     gn_WriteHeader = (\<lambda>code g. (False, if code > 0 \<and> gr_size g = -1 then g\<lparr>gr_status := code\<rparr> else g)),
     gn_Write = ref_write, gn_WriteString = ref_write, gn_WriteHeaderNow = ref_now,
     gn_Flush = (\<lambda>g. let (p, g1) = ref_now g in if p then (True, g1) else (False, g1\<lparr>gr_rw := snd (rw_Flush (gr_rw g1))\<rparr>)),
     gn_Hijack = (\<lambda>g. let g1 = (if gr_size g < 0 then g\<lparr>gr_size := 0\<rparr> else g); (e, w') = rw_Hijack (gr_rw g1)
        in (GErr e, g1\<lparr>gr_rw := w'\<rparr>)),
     gn_Status = gr_status, gn_Size = gr_size\<rparr>"

definition ref_obs :: "gin_rw \<Rightarrow> gin_obs" where
  "ref_obs g = \<lparr>ob_header = rw_header (gr_rw g), ob_status = gr_status g, ob_sent = rw_sent (gr_rw g), ob_body = rw_body (gr_rw g),
     ob_open = (\<not> rw_hijacked (gr_rw g) \<and> (gr_size g = -1 \<longleftrightarrow> rw_sent (gr_rw g) = None) \<and> gr_size g \<ge> -1)\<rparr>"

definition new_gin_rw :: "int \<Rightarrow> gin_rw" where
  "new_gin_rw status = \<lparr>gr_rw = new_rw None None, gr_status = status, gr_size = -1\<rparr>"

lemma ref_now_obs: "ready (ref_obs g) \<Longrightarrow> ref_now g = (p, g') \<Longrightarrow> \<not> p \<and> ref_obs g' = send_header (ref_obs g) \<and> gr_size g' \<ge> 0"
  by (auto simp: ready_def final_status_def ref_now_def ref_obs_def send_header_def rw_WriteHeader_def split: option.splits if_splits)

lemma ref_write_obs: "ready (ref_obs g) \<Longrightarrow> ref_obs (snd (ref_write p g)) = send_body p (ref_obs g)"
proof -
  assume r: "ready (ref_obs g)"
  obtain q g1 where N: "ref_now g = (q, g1)" by (meson surj_pair)
  note n = ref_now_obs [OF r N]
  then obtain x where x: "rw_sent (gr_rw g1) = Some x" "\<not> rw_hijacked (gr_rw g1)"
    using r by (auto simp: ref_obs_def send_header_def ready_def split: option.splits)
  have "ref_obs (snd (ref_write p g)) = (ref_obs g1)\<lparr>ob_body := ob_body (ref_obs g1) @ sent_body (fst x) p\<rparr>"
    using n x N by (auto simp: ref_write_def rw_Write_def rw_implicit_eq Let_def ref_obs_def sent_body_def)
  moreover have "send_body p (ref_obs g) = (ref_obs g1)\<lparr>ob_body := ob_body (ref_obs g1) @ sent_body (fst (the (ob_sent (ref_obs g1)))) p\<rparr>"
    using n by (simp only: send_body_def Let_def)
  moreover have "ob_sent (ref_obs g1) = Some x" by (simp add: ref_obs_def x(1))
  ultimately show ?thesis by simp
qed

lemma ref_write_reply: "ready (ref_obs g) \<Longrightarrow> fst (ref_write p g) \<noteq> GPanicked"
  using ref_now_obs [of g] by (cases "ref_now g") (auto simp: ref_write_def split: prod.splits)

interpretation rg: gin_library reference_gin ref_obs
proof (unfold_locales, goal_cases)
  case (7 g p)
  then show ?case using ref_write_reply [of g p] by (simp add: reference_gin_def)
next
  case (9 g)
  then show ?case using ref_now_obs [of g] by (cases "ref_now g") (simp add: reference_gin_def)
qed (auto simp: reference_gin_def ref_obs_def ready_def ref_write_obs [unfolded ref_obs_def ready_def])

end
