(* ===== verification/Gin_Adapter.thy ===== *)
theory Gin_Adapter
  imports Gin_Writer Middleware
begin

section \<open>The Gin adapter\<close>

text \<open>
  \<^verbatim>\<open>ginadapter/ginadapter.go\<close>: configuration, options, the handler with every branch, and the
  helpers the package repeats from \<^verbatim>\<open>httpidem\<close>. A call maps a \<open>gin_world\<close> to a world and
  whether it panicked. \<open>gi_next\<close> says that \<^verbatim>\<open>c.Next()\<close> was called, \<open>gi_aborted\<close> that \<^verbatim>\<open>c.Abort()\<close>
  was; Gin runs the rest of the chain itself when neither happened. What \<^verbatim>\<open>KeyScope\<close> reads of the
  Gin context besides the request does not change during a call, so the function takes the request.
\<close>

record 'g gin_config =
  gi_require :: bool
  gi_leaseTTL :: Duration
  gi_recordTTL :: Duration
  gi_maxRequestBody :: int
  gi_maxResponseBody :: int
  gi_bypassLargeBody :: bool
  gi_policy :: "int \<Rightarrow> gerror option \<Rightarrow> Decision"
  gi_errorWriter :: "Request \<Rightarrow> int \<Rightarrow> gerror \<Rightarrow> 'g \<Rightarrow> bool \<times> 'g"
  gi_failOpen :: bool
  gi_methods :: "string \<Rightarrow> bool"
  gi_storeHeaders :: "string list"
  gi_keyScope :: "(Request \<Rightarrow> string) option"
  gi_keyValidator :: "(string \<Rightarrow> bool) option"
  gi_hashKeysInLogs :: bool
  gi_replayedHeader :: bool

definition gin_maxStoredResponseOverhead :: int where
  "gin_maxStoredResponseOverhead = 65536"

subsection \<open>Options\<close>

definition gin_Require :: "bool \<Rightarrow> 'g gin_config \<Rightarrow> 'g gin_config" where
  "gin_Require v c = c\<lparr>gi_require := v\<rparr>"

definition gin_LeaseTTL :: "Duration \<Rightarrow> 'g gin_config \<Rightarrow> 'g gin_config" where
  "gin_LeaseTTL d c = c\<lparr>gi_leaseTTL := d\<rparr>"

definition gin_RecordTTL :: "Duration \<Rightarrow> 'g gin_config \<Rightarrow> 'g gin_config" where
  "gin_RecordTTL d c = c\<lparr>gi_recordTTL := d\<rparr>"

definition gin_MaxRequestBody :: "int \<Rightarrow> 'g gin_config \<Rightarrow> 'g gin_config" where
  "gin_MaxRequestBody n c = c\<lparr>gi_maxRequestBody := n\<rparr>"

definition gin_MaxResponseBody :: "int \<Rightarrow> 'g gin_config \<Rightarrow> 'g gin_config" where
  "gin_MaxResponseBody n c = c\<lparr>gi_maxResponseBody := n\<rparr>"

definition gin_BypassLargeBody :: "bool \<Rightarrow> 'g gin_config \<Rightarrow> 'g gin_config" where
  "gin_BypassLargeBody v c = c\<lparr>gi_bypassLargeBody := v\<rparr>"

definition gin_Policy :: "(int \<Rightarrow> gerror option \<Rightarrow> Decision) \<Rightarrow> 'g gin_config \<Rightarrow> 'g gin_config" where
  "gin_Policy p c = c\<lparr>gi_policy := p\<rparr>"

definition gin_Errors :: "(Request \<Rightarrow> int \<Rightarrow> gerror \<Rightarrow> 'g \<Rightarrow> bool \<times> 'g) \<Rightarrow> 'g gin_config \<Rightarrow> 'g gin_config" where
  "gin_Errors ew c = c\<lparr>gi_errorWriter := ew\<rparr>"

definition gin_FailOpen :: "bool \<Rightarrow> 'g gin_config \<Rightarrow> 'g gin_config" where
  "gin_FailOpen v c = c\<lparr>gi_failOpen := v\<rparr>"

definition gin_Methods :: "string list \<Rightarrow> 'g gin_config \<Rightarrow> 'g gin_config" where
  "gin_Methods ms c = c\<lparr>gi_methods := foldl (\<lambda>f m. f(ToUpper m := True)) (\<lambda>_. False) ms\<rparr>"

definition gin_StoreHeaders :: "string list \<Rightarrow> 'g gin_config \<Rightarrow> 'g gin_config" where
  "gin_StoreHeaders names c = c\<lparr>gi_storeHeaders := names\<rparr>"

definition gin_KeyScope :: "(Request \<Rightarrow> string) \<Rightarrow> 'g gin_config \<Rightarrow> 'g gin_config" where
  "gin_KeyScope f c = c\<lparr>gi_keyScope := Some f\<rparr>"

definition gin_KeyValidator :: "(string \<Rightarrow> bool) \<Rightarrow> 'g gin_config \<Rightarrow> 'g gin_config" where
  "gin_KeyValidator f c = c\<lparr>gi_keyValidator := Some f\<rparr>"

definition gin_HashKeysInLogs :: "bool \<Rightarrow> 'g gin_config \<Rightarrow> 'g gin_config" where
  "gin_HashKeysInLogs v c = c\<lparr>gi_hashKeysInLogs := v\<rparr>"

definition gin_ReplayedHeader :: "bool \<Rightarrow> 'g gin_config \<Rightarrow> 'g gin_config" where
  "gin_ReplayedHeader v c = c\<lparr>gi_replayedHeader := v\<rparr>"

text \<open>\<^verbatim>\<open>httpidem.DefaultErrorWriter\<close> on Gin's writer: set the content type, the status, and write.\<close>

definition gin_problemWriter :: "'g gin_writer \<Rightarrow> Request \<Rightarrow> int \<Rightarrow> gerror \<Rightarrow> 'g \<Rightarrow> bool \<times> 'g" where
  "gin_problemWriter G r status err g =
     (let detail = (if status < 500 then Error err else []);
          g1 = gn_SetHeader G (hdr_Set (gn_Header G g) ''Content-Type'' ''application/problem+json'') g;
          (panics, g2) = gn_WriteHeader G status g1
      in if panics then (True, g2)
         else let (rep, g3) = gn_Write G (problem_document status detail) g2 in (rep = GPanicked, g3))"

definition gin_default_config :: "'g gin_writer \<Rightarrow> 'g gin_config" where
  "gin_default_config G = \<lparr>gi_require = False, gi_leaseTTL = 0, gi_recordTTL = 0,
     gi_maxRequestBody = DefaultMaxRequestBody, gi_maxResponseBody = DefaultMaxResponseBody,
     gi_bypassLargeBody = False, gi_policy = defaultDecide, gi_errorWriter = gin_problemWriter G, gi_failOpen = False,
     gi_methods = (\<lambda>_. False)(''POST'' := True, ''PATCH'' := True),
     gi_storeHeaders = [''Content-Type'', ''Content-Language'', ''Content-Encoding'', ''Content-Disposition'', ''Location''],
     gi_keyScope = None, gi_keyValidator = None, gi_hashKeysInLogs = False, gi_replayedHeader = True\<rparr>"

definition gin_New :: "'g gin_writer \<Rightarrow> ('g gin_config \<Rightarrow> 'g gin_config) list \<Rightarrow> 'g gin_config" where
  "gin_New G opts = foldl (\<lambda>c opt. opt c) (gin_default_config G) opts"

subsection \<open>Helpers\<close>

definition gin_hashForLog :: "(bytes \<Rightarrow> bytes) \<Rightarrow> string \<Rightarrow> string" where
  "gin_hashForLog sha256 s = ''sha256:'' @ EncodeToString (take 8 (sha256 s))"

definition gin_keyAttrs :: "(bytes \<Rightarrow> bytes) \<Rightarrow> 'g gin_config \<Rightarrow> string \<Rightarrow> string \<Rightarrow> (string \<times> string) list" where
  "gin_keyAttrs sha256 cfg scope key =
     (let (key', scope') = (if gi_hashKeysInLogs cfg
            then (gin_hashForLog sha256 key, if scope \<noteq> [] then gin_hashForLog sha256 scope else scope)
            else (key, scope));
          attrs = [(''idempotency_key'', key')]
      in if scope' \<noteq> [] then attrs @ [(''idempotency_scope'', scope')] else attrs)"

definition gin_readBody :: "Request \<Rightarrow> int \<Rightarrow> gerror + bytes \<times> bool" where
  "gin_readBody r limit = (case ReqBody r of
       None \<Rightarrow> Inr ([], False)
     | Some b \<Rightarrow> (case ReadAll_limited b (wrap64 (limit + 1)) of
           Inl e \<Rightarrow> Inl e
         | Inr body \<Rightarrow> Inr (body, int (length body) > limit)))"

definition gin_retryAfterSeconds :: "Duration \<Rightarrow> string" where
  "gin_retryAfterSeconds d =
     (let secs = quot (wrap64 (wrap64 (d + Second) - 1)) Second in FormatInt (if secs < 1 then 1 else secs))"

subsection \<open>Worlds\<close>

record ('g, 's) gin_world =
  gi_w :: 'g
  gi_store :: 's
  gi_log :: "logline list"
  gi_calls :: "(Request \<times> ctx) list"
  gi_next :: bool
  gi_aborted :: bool

type_synonym 's gin_chain = "Request \<Rightarrow> ctx \<Rightarrow> 's gin_prog"

definition gin_log :: "string \<Rightarrow> string \<Rightarrow> (string \<times> string) list \<Rightarrow> ('g, 's) gin_world \<Rightarrow> ('g, 's) gin_world" where
  "gin_log level msg attrs wd = wd\<lparr>gi_log := gi_log wd @ [\<lparr>lg_level = level, lg_msg = msg, lg_attrs = attrs\<rparr>]\<rparr>"

abbreviation gin_warn :: "string \<Rightarrow> (string \<times> string) list \<Rightarrow> ('g, 's) gin_world \<Rightarrow> ('g, 's) gin_world" where
  "gin_warn \<equiv> gin_log ''WARN''"

definition gin_store_do :: "('s \<Rightarrow> 'r \<times> 's) \<Rightarrow> ('g, 's) gin_world \<Rightarrow> 'r \<times> ('g, 's) gin_world" where
  "gin_store_do f wd = (let (x, s') = f (gi_store wd) in (x, wd\<lparr>gi_store := s'\<rparr>))"

text \<open>\<^verbatim>\<open>c.Next()\<close> with Gin's own writer.\<close>

definition gin_Next :: "'g gin_writer \<Rightarrow> 's gin_chain \<Rightarrow> Request \<Rightarrow> ctx \<Rightarrow> ('g, 's) gin_world \<Rightarrow> bool \<times> ('g, 's) gin_world" where
  "gin_Next G h r c wd =
     (let (p, st) = run_gin G (h r c) \<lparr>gp_w = gi_w wd, gp_ctx = c, gp_store = gi_store wd\<rparr>
      in (p, wd\<lparr>gi_w := gp_w st, gi_store := gp_store st, gi_calls := gi_calls wd @ [(r, c)], gi_next := True\<rparr>))"

text \<open>A panic of the error writer leaves before \<^verbatim>\<open>c.Abort()\<close>.\<close>

definition gin_reject :: "'g gin_config \<Rightarrow> Request \<Rightarrow> int \<Rightarrow> gerror \<Rightarrow> ('g, 's) gin_world \<Rightarrow> bool \<times> ('g, 's) gin_world" where
  "gin_reject cfg r status err wd =
     (let (p, g') = gi_errorWriter cfg r status err (gi_w wd)
      in if p then (True, wd\<lparr>gi_w := g'\<rparr>) else (False, wd\<lparr>gi_w := g', gi_aborted := True\<rparr>))"

text \<open>The loop over the stored header, on the live header map.\<close>

fun gin_put_all :: "'g gin_writer \<Rightarrow> Header \<Rightarrow> 'g \<Rightarrow> 'g" where
  "gin_put_all G [] g = g"
| "gin_put_all G ((name, vs) # h) g = gin_put_all G h (gn_SetHeader G (hdr_put (gn_Header G g) name vs) g)"

definition gin_writeReplay :: "(bytes \<Rightarrow> bytes) \<Rightarrow> 'g gin_writer \<Rightarrow> 'g gin_config \<Rightarrow> Request \<Rightarrow> string \<Rightarrow> string \<Rightarrow> bytes \<Rightarrow>
    ('g, 's) gin_world \<Rightarrow> bool \<times> ('g, 's) gin_world" where
  "gin_writeReplay sha256 G cfg r scope key payload wd =
     (if int (length payload) > wrap64 (gi_maxResponseBody cfg + gin_maxStoredResponseOverhead) then
        gin_reject cfg r 500 (Opaque ''ginadapter: corrupted stored response payload'')
          (gin_log ''ERROR'' ''ginadapter: stored payload exceeds the configured response limits; refusing to replay''
            (gin_keyAttrs sha256 cfg scope key @ [(''payload_bytes'', FormatInt (int (length payload)))]) wd)
      else case UnmarshalBinary payload of
          Inl err \<Rightarrow> gin_reject cfg r 500 err
            (gin_log ''ERROR'' ''ginadapter: stored response payload is corrupted''
              (gin_keyAttrs sha256 cfg scope key @ error_attr err) wd)
        | Inr sr \<Rightarrow>
            (let g1 = gin_put_all G (SRHeader sr) (gi_w wd);
                 g2 = (if gi_replayedHeader cfg
                       then gn_SetHeader G (hdr_Set (gn_Header G g1) HeaderIdempotencyReplayed ''true'') g1 else g1);
                 (p3, g3) = gn_WriteHeader G (StatusCode sr) g2
             in if p3 then (True, wd\<lparr>gi_w := g3\<rparr>)
                else let (rep, g4) = gn_Write G (SRBody sr) g3
                  in if rep = GPanicked then (True, wd\<lparr>gi_w := g4\<rparr>)
                     else (False, wd\<lparr>gi_w := g4, gi_aborted := True\<rparr>)))"

subsection \<open>The handler\<close>

definition gin_settle :: "('s, 'e) Store \<Rightarrow> 'g gin_config \<Rightarrow> ('s, 'e) call_env \<Rightarrow> (string \<times> string) list \<Rightarrow> string \<Rightarrow> string \<Rightarrow>
    Options \<Rightarrow> Recorder \<Rightarrow> gerror option \<Rightarrow> ('g, 's) gin_world \<Rightarrow> ('g, 's) gin_world" where
  "gin_settle S cfg env attrs storeKey token o' rec herr wd =
     (let decided = gi_policy cfg (Status rec) herr;
          (decision, wd1) =
            (if decided = Persist \<and> abandoned rec then
               (Discard, gin_warn ''ginadapter: response was streamed (Flush/Hijack); discarding instead of persisting'' attrs wd)
             else if decided = Persist \<and> overflowed rec then
               (Discard, gin_warn ''ginadapter: response exceeds MaxResponseBody; discarding instead of persisting'' attrs wd)
             else (decided, wd));
          payload = (if decision = Persist then MarshalBinary (fst (StoredResponse_of rec)) else []);
          ((leaseLost, err), wd2) = gin_store_do (\<lambda>s. Finish S (ce_finish env) storeKey token decision payload o'
              (ce_before_finish env s)) wd1
      in case err of
           Some e \<Rightarrow>
             if decision = Persist then
               (let wd3 = gin_warn ''ginadapter: persisting response failed; idempotency temporarily weakened''
                      (attrs @ error_attr e) wd2;
                    ((_, rerr), wd4) = gin_store_do (\<lambda>s. Finish S (ce_release env) storeKey token Discard [] o'
                      (ce_before_release env s)) wd3
                in case rerr of
                     Some re \<Rightarrow> gin_warn ''ginadapter: best-effort release failed; key stays reserved until lease expiry''
                         (attrs @ error_attr re) wd4
                   | None \<Rightarrow> wd4)
             else gin_warn ''ginadapter: releasing reservation failed; key stays reserved until lease expiry''
                 (attrs @ error_attr e) wd2
         | None \<Rightarrow>
             if leaseLost then gin_warn ''ginadapter: lease lost during execution; response returned but not stored for replay''
                 (attrs @ [(''event'', ''lease_lost'')]) wd2
             else wd2)"

definition gin_on_panic :: "('s, 'e) Store \<Rightarrow> ('s, 'e) call_env \<Rightarrow> (string \<times> string) list \<Rightarrow> string \<Rightarrow> string \<Rightarrow>
    Options \<Rightarrow> ctx \<Rightarrow> ('g, 's) gin_world \<Rightarrow> ('g, 's) gin_world" where
  "gin_on_panic S env attrs storeKey token o' c wd =
     (if finished c then wd
      else let ((_, ferr), wd1) = gin_store_do (\<lambda>s. Finish S (ce_finish env) storeKey token Discard [] o'
              (ce_before_finish env s)) wd
        in case ferr of
             Some e \<Rightarrow> gin_warn ''ginadapter: releasing reservation after handler panic failed'' (attrs @ error_attr e) wd1
           | None \<Rightarrow> wd1)"

definition gin_run :: "'g gin_writer \<Rightarrow> 'g gin_config \<Rightarrow> 's gin_chain \<Rightarrow> Request \<Rightarrow> ctx \<Rightarrow> 'g \<Rightarrow> 's \<Rightarrow> bool \<times> ('g, 's) gin_captured" where
  "gin_run G cfg h r c g s = run_gin_cap G (h r c)
     \<lparr>gk_cw = new_gin_capture g (NewRecorder (gi_maxResponseBody cfg) (gi_storeHeaders cfg)), gk_ctx = c, gk_store = s\<rparr>"

definition gin_proceed :: "'g gin_writer \<Rightarrow> ('s, 'e) Store \<Rightarrow> 'g gin_config \<Rightarrow> 's gin_chain \<Rightarrow> ('s, 'e) call_env \<Rightarrow>
    (string \<times> string) list \<Rightarrow> string \<Rightarrow> string \<Rightarrow> Options \<Rightarrow> Request \<Rightarrow> ctx \<Rightarrow> ('g, 's) gin_world \<Rightarrow> bool \<times> ('g, 's) gin_world" where
  "gin_proceed G S cfg h env attrs storeKey token o' r c wd =
     (let c1 = lease_ctx storeKey token o' c;
          (p, st) = gin_run G cfg h r c1 (gi_w wd) (gi_store wd);
          wd1 = wd\<lparr>gi_w := gc_w (gk_cw st), gi_store := gk_store st, gi_calls := gi_calls wd @ [(r, c1)], gi_next := True\<rparr>
      in if p then (True, gin_on_panic S env attrs storeKey token o' (gk_ctx st) wd1)
         else let cw1 = gcw_finalize G (gk_cw st) in
           if finished (gk_ctx st) then (False, wd1)
           else (False, gin_settle S cfg env attrs storeKey token o' (gc_rec cw1) (handlerErr (gk_ctx st)) wd1))"

definition gin_scope :: "'g gin_config \<Rightarrow> Request \<Rightarrow> string" where
  "gin_scope cfg r = (case gi_keyScope cfg of None \<Rightarrow> [] | Some f \<Rightarrow> f r)"

definition gin_options :: "'g gin_config \<Rightarrow> Options" where
  "gin_options cfg = \<lparr>LeaseTTL = gi_leaseTTL cfg, RecordTTL = gi_recordTTL cfg\<rparr>"

definition gin_keyed :: "(bytes \<Rightarrow> bytes) \<Rightarrow> 'g gin_writer \<Rightarrow> ('s, 'e) Store \<Rightarrow> 'g gin_config \<Rightarrow> 's gin_chain \<Rightarrow> ('s, 'e) call_env \<Rightarrow>
    string \<Rightarrow> bytes \<Rightarrow> Request \<Rightarrow> ctx \<Rightarrow> ('g, 's) gin_world \<Rightarrow> bool \<times> ('g, 's) gin_world" where
  "gin_keyed sha256 G S cfg h env key body r c wd =
     (let fingerprint = Fingerprint_of sha256 (Method r) (ReqURL r) body;
          scope = gin_scope cfg r; storeKey = scoped_key scope key;
          attrs = gin_keyAttrs sha256 cfg scope key; o' = gin_options cfg;
          (res, wd1) = gin_store_do (Begin S (ce_rnd env) (ce_begin env) storeKey fingerprint o') wd
      in case res of
           Inl err \<Rightarrow>
             if gi_failOpen cfg then
               gin_Next G h r c (gin_warn ''ginadapter: store unavailable; proceeding without idempotency (FailOpen)''
                 (attrs @ error_attr err) wd1)
             else gin_reject cfg r 503
               (Wrap (sentinel_text ErrStoreUnavailable @ '': '' @ Error err) [Sentinel ErrStoreUnavailable, err]) wd1
         | Inr out \<Rightarrow>
             (case Action out of
                Replay \<Rightarrow> gin_writeReplay sha256 G cfg r scope key (OutPayload out) wd1
              | RejectInFlight \<Rightarrow>
                  gin_reject cfg r 409 (Sentinel ErrInFlight)
                    (wd1\<lparr>gi_w := gn_SetHeader G (hdr_Set (gn_Header G (gi_w wd1)) ''Retry-After''
                       (gin_retryAfterSeconds (RetryAfter out))) (gi_w wd1)\<rparr>)
              | RejectFingerprintMismatch \<Rightarrow> gin_reject cfg r 422 (Sentinel ErrFingerprintMismatch) wd1
              | Proceed \<Rightarrow> gin_proceed G S cfg h env attrs storeKey (OutToken out) o' r c wd1))"

definition gin_handle :: "(bytes \<Rightarrow> bytes) \<Rightarrow> 'g gin_writer \<Rightarrow> ('s, 'e) Store \<Rightarrow> 'g gin_config \<Rightarrow> 's gin_chain \<Rightarrow> ('s, 'e) call_env \<Rightarrow>
    Request \<Rightarrow> ctx \<Rightarrow> ('g, 's) gin_world \<Rightarrow> bool \<times> ('g, 's) gin_world" where
  "gin_handle sha256 G S cfg h env r c wd =
     (if \<not> gi_methods cfg (ToUpper (Method r)) then gin_Next G h r c wd
      else case KeyFromHeader (ReqHeader r) of
          Inl err \<Rightarrow>
            if errors_Is err ErrKeyMissing \<and> \<not> gi_require cfg then gin_Next G h r c wd
            else gin_reject cfg r 400 err wd
        | Inr key \<Rightarrow>
            if (case gi_keyValidator cfg of None \<Rightarrow> False | Some f \<Rightarrow> \<not> f key) then
              gin_reject cfg r 400 (wrap_before (Sentinel ErrKeyInvalid) '': rejected by KeyValidator'') wd
            else (case gin_readBody r (gi_maxRequestBody cfg) of
                Inl err \<Rightarrow> gin_reject cfg r 400 (wrap_after ''ginadapter: reading request body: '' err) wd
              | Inr (body, overflow) \<Rightarrow>
                  if overflow then
                    if \<not> gi_bypassLargeBody cfg then gin_reject cfg r 413 (Sentinel ErrRequestBodyTooLarge) wd
                    else gin_Next G h (rejoin r body) c
                      (gin_warn ''ginadapter: request body exceeds MaxRequestBody; bypassing idempotency''
                        (gin_keyAttrs sha256 cfg [] key) wd)
                  else gin_keyed sha256 G S cfg h env key body (rebuffer r body) c wd))"

subsection \<open>The copies agree with the originals\<close>

lemma gin_copies:
  "gin_readBody r limit = readBody r limit" "gin_retryAfterSeconds d = retryAfterSeconds d"
  "gi_hashKeysInLogs cfg = hashKeysInLogs cfg' \<Longrightarrow> gin_keyAttrs sha256 cfg scope key = keyAttrs sha256 cfg' scope key"
  by (auto simp: gin_readBody_def readBody_def gin_retryAfterSeconds_def retryAfterSeconds_def gin_keyAttrs_def keyAttrs_def
      gin_hashForLog_def hashForLog_def Let_def split: option.split sum.split)

subsection \<open>The chain runs once or not at all\<close>

definition chain_ran :: "('g, 's) gin_world \<Rightarrow> ('g, 's) gin_world \<Rightarrow> bool" where
  "chain_ran wd wd' \<longleftrightarrow> gi_next wd' \<and> gi_aborted wd' = gi_aborted wd \<and> (\<exists>x. gi_calls wd' = gi_calls wd @ [x])"

definition chain_cut :: "('g, 's) gin_world \<Rightarrow> ('g, 's) gin_world \<Rightarrow> bool" where
  "chain_cut wd wd' \<longleftrightarrow> gi_aborted wd' \<and> gi_next wd' = gi_next wd \<and> gi_calls wd' = gi_calls wd"

lemma gin_log_sel [simp]:
  "gi_next (gin_log l m a wd) = gi_next wd" "gi_aborted (gin_log l m a wd) = gi_aborted wd" "gi_calls (gin_log l m a wd) = gi_calls wd"
  "gi_store (gin_log l m a wd) = gi_store wd" "gi_w (gin_log l m a wd) = gi_w wd"
  by (simp_all add: gin_log_def)

lemma gin_store_do_sel:
  "gin_store_do f wd = (x, wd') \<Longrightarrow> gi_next wd' = gi_next wd \<and> gi_aborted wd' = gi_aborted wd \<and> gi_calls wd' = gi_calls wd \<and> gi_w wd' = gi_w wd"
  by (auto simp: gin_store_do_def split: prod.splits)

lemma gin_Next_ran: "gin_Next G h r c wd = (p, wd') \<Longrightarrow> chain_ran wd wd'"
  by (auto simp: gin_Next_def chain_ran_def split: prod.splits)

lemma gin_reject_cut: "gin_reject cfg r status err wd = (False, wd') \<Longrightarrow> chain_cut wd wd'"
  by (auto simp: gin_reject_def chain_cut_def split: prod.splits if_splits)

lemma gin_store_do_snd [simp]:
  "gi_next (snd (gin_store_do f wd)) = gi_next wd" "gi_aborted (snd (gin_store_do f wd)) = gi_aborted wd"
  "gi_calls (snd (gin_store_do f wd)) = gi_calls wd" "gi_w (snd (gin_store_do f wd)) = gi_w wd"
  by (simp_all add: gin_store_do_def split_beta)

definition same_chain :: "('g, 's) gin_world \<Rightarrow> ('g, 's) gin_world \<Rightarrow> bool" where
  "same_chain wd wd' \<longleftrightarrow> gi_next wd' = gi_next wd \<and> gi_aborted wd' = gi_aborted wd \<and> gi_calls wd' = gi_calls wd \<and> gi_w wd' = gi_w wd"

lemma same_chain_steps [simp]:
  "same_chain wd wd" "same_chain wd (gin_log l m a wd') = same_chain wd wd'"
  "same_chain wd (snd (gin_store_do f wd')) = same_chain wd wd'"
  by (simp_all add: same_chain_def)

lemma gin_settle_sel: "same_chain wd (gin_settle S cfg env attrs k tok opts rec herr wd)"
proof -
  let ?d = "gi_policy cfg (Status rec) herr"
  obtain d wd1 where D: "(if ?d = Persist \<and> abandoned rec then
               (Discard, gin_warn ''ginadapter: response was streamed (Flush/Hijack); discarding instead of persisting'' attrs wd)
             else if ?d = Persist \<and> overflowed rec then
               (Discard, gin_warn ''ginadapter: response exceeds MaxResponseBody; discarding instead of persisting'' attrs wd)
             else (?d, wd)) = (d, wd1)" by (meson surj_pair)
  have 1: "same_chain wd wd1" using D by (auto split: if_splits)
  obtain lost err wd2 where F: "gin_store_do (\<lambda>s. Finish S (ce_finish env) k tok d
      (if d = Persist then MarshalBinary (fst (StoredResponse_of rec)) else []) opts (ce_before_finish env s)) wd1 = ((lost, err), wd2)"
    by (metis prod.exhaust)
  have 2: "same_chain wd wd2" using 1 same_chain_steps(3) by (metis F snd_conv)
  show ?thesis
    unfolding gin_settle_def Let_def D case_prod_conv F using 2
    by (cases err) (auto simp: split_beta split: option.split)
qed

lemma gin_proceed_ran: "gin_proceed G S cfg h env attrs k tok opts r c wd = (False, wd') \<Longrightarrow> chain_ran wd wd'"
  proof -
  assume P: "gin_proceed G S cfg h env attrs k tok opts r c wd = (False, wd')"
  obtain p st where R: "gin_run G cfg h r (lease_ctx k tok opts c) (gi_w wd) (gi_store wd) = (p, st)" by (meson surj_pair)
  let ?wd1 = "wd\<lparr>gi_w := gc_w (gk_cw st), gi_store := gk_store st, gi_calls := gi_calls wd @ [(r, lease_ctx k tok opts c)], gi_next := True\<rparr>"
  have "same_chain ?wd1 wd'"
    using P R gin_settle_sel [of ?wd1] by (auto simp: gin_proceed_def Let_def split: if_splits)
  then show ?thesis by (simp add: same_chain_def chain_ran_def)
qed

lemma gin_writeReplay_cut: "gin_writeReplay sha256 G cfg r sc key p wd = (False, wd') \<Longrightarrow> chain_cut wd wd'"
  using gin_reject_cut
  by (fastforce simp: gin_writeReplay_def Let_def chain_cut_def split: prod.splits if_splits sum.splits)

lemma chain_trans:
  "gi_next wd = gi_next wd0 \<Longrightarrow> gi_aborted wd = gi_aborted wd0 \<Longrightarrow> gi_calls wd = gi_calls wd0 \<Longrightarrow>
     (chain_ran wd wd' \<longleftrightarrow> chain_ran wd0 wd') \<and> (chain_cut wd wd' \<longleftrightarrow> chain_cut wd0 wd')"
  by (simp add: chain_ran_def chain_cut_def)

lemma gin_keyed_chain:
  assumes "gin_keyed sha256 G S cfg h env key body r c wd = (False, wd')"
  shows "chain_ran wd wd' \<or> chain_cut wd wd'"
proof -
  obtain res wd1 where B: "gin_store_do (Begin S (ce_rnd env) (ce_begin env) (scoped_key (gin_scope cfg r) key)
      (Fingerprint_of sha256 (Method r) (ReqURL r) body) (gin_options cfg)) wd = (res, wd1)" by (meson surj_pair)
  note same = gin_store_do_sel [OF B]
  have "\<exists>wd0. gi_next wd0 = gi_next wd \<and> gi_aborted wd0 = gi_aborted wd \<and> gi_calls wd0 = gi_calls wd \<and> (chain_ran wd0 wd' \<or> chain_cut wd0 wd')"
  proof (cases res)
    case (Inl err)
    let ?m = "''ginadapter: store unavailable; proceeding without idempotency (FailOpen)''"
    let ?wd2 = "gin_warn ?m (gin_keyAttrs sha256 cfg (gin_scope cfg r) key @ error_attr err) wd1"
    show ?thesis
      using assms B Inl same gin_Next_ran [of G h r c ?wd2] gin_reject_cut [of cfg r 503 _ wd1]
      by (cases "gi_failOpen cfg") (auto simp: gin_keyed_def Let_def intro: exI [of _ ?wd2] exI [of _ wd1])
  next
    case (Inr out)
    let ?wd2 = "wd1\<lparr>gi_w := gn_SetHeader G (hdr_Set (gn_Header G (gi_w wd1)) ''Retry-After''
                       (gin_retryAfterSeconds (RetryAfter out))) (gi_w wd1)\<rparr>"
    show ?thesis
      using assms B Inr same gin_proceed_ran [of G S cfg h env _ _ _ _ r c wd1] gin_writeReplay_cut [of sha256 G cfg r _ key _ wd1]
        gin_reject_cut [of cfg r _ _ wd1] gin_reject_cut [of cfg r 409 _ ?wd2]
      by (cases "Action out") (auto simp: gin_keyed_def Let_def intro: exI [of _ ?wd2] exI [of _ wd1])
  qed
  then show ?thesis using chain_trans by blast
qed

lemma gin_handle_chain:
  assumes "gin_handle sha256 G S cfg h env r c wd = (False, wd')"
  shows "chain_ran wd wd' \<or> chain_cut wd wd'"
  using assms gin_Next_ran [of G h r c wd] gin_reject_cut [of cfg r _ _ wd] gin_keyed_chain [of sha256 G S cfg h env _ _ _ c wd wd']
    gin_Next_ran [of G h _ c "gin_warn _ _ wd"] chain_trans [of "gin_warn _ _ wd" wd wd']
  unfolding gin_handle_def by (simp split: if_splits sum.splits prod.splits) fastforce+

subsection \<open>Over the contract\<close>

definition gin_accepted :: "'g gin_config \<Rightarrow> Request \<Rightarrow> string \<Rightarrow> bytes \<Rightarrow> bool" where
  "gin_accepted cfg r key body \<longleftrightarrow> gi_methods cfg (ToUpper (Method r)) \<and> KeyFromHeader (ReqHeader r) = Inr key \<and>
     (case gi_keyValidator cfg of None \<Rightarrow> True | Some f \<Rightarrow> f key) \<and>
     gin_readBody r (gi_maxRequestBody cfg) = Inr (body, False)"

lemma gin_handle_accepted:
  "gin_accepted cfg r key body \<Longrightarrow>
     gin_handle sha256 G S cfg h env r c wd = gin_keyed sha256 G S cfg h env key body (rebuffer r body) c wd"
  by (simp add: gin_accepted_def gin_handle_def split: option.splits)

text \<open>The client's view of two responses, as for the \<^verbatim>\<open>net/http\<close> middleware; the marker of a replay apart.\<close>

definition same_gin_response :: "string list \<Rightarrow> gin_obs \<Rightarrow> gin_obs \<Rightarrow> bool" where
  "same_gin_response names ob ob' \<longleftrightarrow> (case (ob_sent ob, ob_sent ob') of
       (Some (code, h), Some (code', h')) \<Rightarrow> code' = code \<and>
         (\<forall>n\<in>set names. hdr_Values h n \<noteq> [] \<longrightarrow> n \<noteq> HeaderIdempotencyReplayed \<longrightarrow> hdr_Values h' n = hdr_Values h n)
     | _ \<Rightarrow> False) \<and> ob_body ob' = ob_body ob"

lemma Replayed_canonical: "CanonicalMIMEHeaderKey HeaderIdempotencyReplayed = HeaderIdempotencyReplayed"
  by code_simp

lemma gin_settle_persists:
  assumes "gi_policy cfg (Status rec) herr = Persist" "StoredResponse_of rec = (sr, True)"
    and "Finish S (ce_finish env) k tok Persist (MarshalBinary sr) opts (ce_before_finish env (gi_store wd)) = ((False, None), s')"
  shows "gin_settle S cfg env attrs k tok opts rec herr wd = wd\<lparr>gi_store := s'\<rparr>"
proof -
  have "\<not> abandoned rec" "\<not> overflowed rec" using assms(2) by (auto simp: StoredResponse_of_def split: if_splits)
  then show ?thesis using assms by (simp add: gin_settle_def gin_store_do_def Let_def)
qed

locale gin_client = lease_store S sinv sview sclock up grant keep rebuilt + gin_library G obs
  for S :: "('s, 'e) Store" and sinv sview sclock up grant keep rebuilt and G :: "'g gin_writer" and obs
begin

lemma gin_put_all_obs:
  "wf_header h \<Longrightarrow> \<exists>hs. obs (gin_put_all G h g) = (obs g)\<lparr>ob_header := hs\<rparr> \<and> map_of hs = map_of (ob_header (obs g)) ++ map_of h"
proof (induction h arbitrary: g)
  case (Cons x h)
  obtain n vs where x: "x = (n, vs)" by (cases x)
  have wf: "wf_header h" "map_of h n = None" using Cons.prems x by (auto simp: wf_header_def map_of_eq_None_iff)
  let ?g1 = "gn_SetHeader G (hdr_put (gn_Header G g) n vs) g"
  obtain hs where hs: "obs (gin_put_all G h ?g1) = (obs ?g1)\<lparr>ob_header := hs\<rparr>" "map_of hs = map_of (ob_header (obs ?g1)) ++ map_of h"
    using Cons.IH [OF wf(1)] by blast
  have "obs (gin_put_all G (x # h) g) = (obs g)\<lparr>ob_header := hs\<rparr>" using hs(1) x by (simp add: set_header_law)
  moreover have "map_of hs = (map_of (ob_header (obs g)))(n \<mapsto> vs) ++ map_of h"
    using hs(2) by (simp add: set_header_law header_law)
  moreover have "(map_of (ob_header (obs g)))(n \<mapsto> vs) ++ map_of h = map_of (ob_header (obs g)) ++ map_of (x # h)"
    using wf(2) x by (auto simp: map_add_def fun_eq_iff split: option.splits)
  ultimately show ?case by (intro exI [of _ hs] conjI) (simp_all only: )
next
  case Nil
  show ?case by (intro exI [of _ "ob_header (obs g)"]) simp
qed

text \<open>A replay on an untouched writer sends the stored response.\<close>

lemma gin_writeReplay_sends:
  assumes "ob_open (obs (gi_w wd))" "ob_sent (obs (gi_w wd)) = None" "ob_body (obs (gi_w wd)) = []"
    and "storable sr" "final_status (StatusCode sr)"
    and "int (length (MarshalBinary sr)) \<le> wrap64 (gi_maxResponseBody cfg + gin_maxStoredResponseOverhead)"
  obtains g' h where "gin_writeReplay sha256 G cfg r sc key (MarshalBinary sr) wd = (False, wd\<lparr>gi_w := g', gi_aborted := True\<rparr>)"
    "ob_sent (obs g') = Some (StatusCode sr, h)" "ob_body (obs g') = sent_body (StatusCode sr) (SRBody sr)"
    "\<And>n. n \<noteq> HeaderIdempotencyReplayed \<Longrightarrow> map_of h n = (map_of (ob_header (obs (gi_w wd))) ++ map_of (SRHeader sr)) n"
proof -
  have wf: "wf_header (SRHeader sr)" using assms(4) by (simp add: storable_def)
  let ?sr = "sr\<lparr>SRHeader := sorted_header (SRHeader sr)\<rparr>"
  have wf': "wf_header (SRHeader ?sr)" using distinct_sorted_header [OF wf] by (simp add: wf_header_def)
  obtain hs where 1: "obs (gin_put_all G (SRHeader ?sr) (gi_w wd)) = (obs (gi_w wd))\<lparr>ob_header := hs\<rparr>"
    "map_of hs = map_of (ob_header (obs (gi_w wd))) ++ map_of (SRHeader sr)"
    using gin_put_all_obs [OF wf'] map_of_sorted_header [OF wf] by (metis StoredResponse.select_convs(2) StoredResponse.surjective StoredResponse.update_convs(2))
  let ?g1 = "gin_put_all G (SRHeader ?sr) (gi_w wd)"
  let ?g2 = "if gi_replayedHeader cfg then gn_SetHeader G (hdr_Set (gn_Header G ?g1) HeaderIdempotencyReplayed ''true'') ?g1 else ?g1"
  let ?hs2 = "if gi_replayedHeader cfg then hdr_Set hs HeaderIdempotencyReplayed ''true'' else hs"
  have 2: "obs ?g2 = (obs (gi_w wd))\<lparr>ob_header := ?hs2\<rparr>" using 1(1) by (simp add: set_header_law header_law)
  obtain p3 g3 where 3: "gn_WriteHeader G (StatusCode sr) ?g2 = (p3, g3)" by (meson surj_pair)
  have np: "\<not> p3" using no_panic_laws(2) [of ?g2 "StatusCode sr"] 2 3 assms(1) by simp
  have o3: "obs g3 = (obs (gi_w wd))\<lparr>ob_header := ?hs2, ob_status := StatusCode sr\<rparr>"
    using write_header_law [of ?g2 "StatusCode sr"] 2 3 assms(1,2,5) by (simp add: final_status_def)
  have ready3: "ready (obs g3)" using o3 assms(1,5) by (simp add: ready_def)
  obtain rep g4 where 4: "gn_Write G (SRBody sr) g3 = (rep, g4)" by (meson surj_pair)
  have o4: "obs g4 = send_body (SRBody sr) (obs g3)" "rep \<noteq> GPanicked"
    using write_law [OF ready3, of "SRBody sr"] no_panic_laws(1) [OF ready3, of "SRBody sr"] 4 by simp_all
  have "gin_writeReplay sha256 G cfg r sc key (MarshalBinary sr) wd = (False, wd\<lparr>gi_w := g4, gi_aborted := True\<rparr>)"
    using assms(6) 3 4 np o4(2)
    by (cases "gi_replayedHeader cfg") (simp_all add: gin_writeReplay_def Unmarshal_Marshal [OF assms(4)] Let_def)
  moreover have "ob_sent (obs g4) = Some (StatusCode sr, ?hs2)" "ob_body (obs g4) = sent_body (StatusCode sr) (SRBody sr)"
    using o4(1) o3 assms(2,3) by (simp_all add: send_body_def send_header_def Let_def)
  moreover have "map_of ?hs2 n = (map_of (ob_header (obs (gi_w wd))) ++ map_of (SRHeader sr)) n" if "n \<noteq> HeaderIdempotencyReplayed" for n
    using that 1(2) by (simp add: hdr_Set_def Replayed_canonical)
  ultimately show thesis using that by blast
qed

lemma gin_first:
  assumes acc: "gin_accepted cfg r key body" and "ce_rnd env = Inr b"
    and free: "sinv (at_between (ce_begin env 1) (gi_store wd))" "up (at_store (ce_begin env 1))"
      "sview (sclock (at_store (ce_begin env 1))) (at_between (ce_begin env 1) (gi_store wd)) k = None"
    and k: "k = scoped_key (gin_scope cfg (rebuffer r body)) key"
    and fp: "fp = Fingerprint_of sha256 (Method r) (ReqURL r) body"
  shows "gin_handle sha256 G S cfg h env r c wd =
    gin_proceed G S cfg h env (gin_keyAttrs sha256 cfg (gin_scope cfg (rebuffer r body)) key) k (EncodeToString b)
      (gin_options cfg) (rebuffer r body) c
      (wd\<lparr>gi_store := snd (Begin S (ce_rnd env) (ce_begin env) k fp (gin_options cfg) (gi_store wd))\<rparr>)"
proof -
  obtain res s1 where B: "Begin S (Inr b) (ce_begin env) k fp (gin_options cfg) (gi_store wd) = (res, s1)" by (meson surj_pair)
  have "res = Inr (proceed_outcome (EncodeToString b))"
    using Begin_first [OF free(1,2) order_refl _ B] free(3) by simp
  with B assms(2) show ?thesis
    by (simp add: gin_handle_accepted [OF acc] gin_keyed_def k [symmetric] fp [symmetric] gin_store_do_def Let_def)
qed

lemma gin_persists:
  assumes run: "gin_run G cfg h r (lease_ctx k tok opts c) (gi_w wd) (gi_store wd) = (False, st)"
    and "\<not> finished (gk_ctx st)"
    and "gi_policy cfg (Status (gc_rec (gcw_finalize G (gk_cw st)))) (handlerErr (gk_ctx st)) = Persist"
    and "StoredResponse_of (gc_rec (gcw_finalize G (gk_cw st))) = (sr, True)"
    and "sinv (ce_before_finish env (gk_store st))" "up (ce_finish env)" "sclock (ce_finish env) \<le> t"
    and "held_by (sview (sclock (ce_finish env)) (ce_before_finish env (gk_store st))) k tok l"
  obtains s' where "gin_proceed G S cfg h env attrs k tok opts r c wd =
      (False, wd\<lparr>gi_w := gc_w (gk_cw st), gi_store := s', gi_calls := gi_calls wd @ [(r, lease_ctx k tok opts c)], gi_next := True\<rparr>)"
    "sinv s'" "sview t s' = live_at t ((sview (sclock (ce_finish env)) (ce_before_finish env (gk_store st)))
        (k := Some (completed_lease l (MarshalBinary sr) (keep (ce_finish env) (recordTTL opts)))))"
proof -
  obtain res s' where F: "Finish S (ce_finish env) k tok Persist (MarshalBinary sr) opts
      (ce_before_finish env (gk_store st)) = (res, s')" by (meson surj_pair)
  note f = finish_persists [OF assms(5,6,8,7) F]
  have "gin_proceed G S cfg h env attrs k tok opts r c wd =
      (False, wd\<lparr>gi_w := gc_w (gk_cw st), gi_store := s', gi_calls := gi_calls wd @ [(r, lease_ctx k tok opts c)], gi_next := True\<rparr>)"
    using assms(1,2) gin_settle_persists [OF assms(3,4), of S env k tok opts] F f(1)
    by (simp add: gin_proceed_def Let_def)
  with f(2,3) that show thesis by blast
qed

lemma gin_first_request:
  assumes acc: "gin_accepted cfg r key body" and rnd: "ce_rnd env = Inr b"
    and free: "sinv (at_between (ce_begin env 1) (gi_store wd))" "up (at_store (ce_begin env 1))"
      "sview (sclock (at_store (ce_begin env 1))) (at_between (ce_begin env 1) (gi_store wd)) k = None"
    and k: "k = scoped_key (gin_scope cfg (rebuffer r body)) key"
    and fp: "fp = Fingerprint_of sha256 (Method r) (ReqURL r) body"
    and run: "gin_run G cfg h (rebuffer r body) (lease_ctx k (EncodeToString b) (gin_options cfg) c) (gi_w wd)
        (snd (Begin S (ce_rnd env) (ce_begin env) k fp (gin_options cfg) (gi_store wd))) = (False, st)"
    and persist: "\<not> finished (gk_ctx st)"
      "gi_policy cfg (Status (gc_rec (gcw_finalize G (gk_cw st)))) (handlerErr (gk_ctx st)) = Persist"
      "StoredResponse_of (gc_rec (gcw_finalize G (gk_cw st))) = (sr, True)"
    and fin: "sinv (ce_before_finish env (gk_store st))" "up (ce_finish env)" "sclock (ce_finish env) \<le> t"
      "held_by (sview (sclock (ce_finish env)) (ce_before_finish env (gk_store st))) k (EncodeToString b) l"
  obtains s' where "gin_handle sha256 G S cfg h env r c wd =
      (False, wd\<lparr>gi_w := gc_w (gk_cw st), gi_store := s',
        gi_calls := gi_calls wd @ [(rebuffer r body, lease_ctx k (EncodeToString b) (gin_options cfg) c)], gi_next := True\<rparr>)"
    "sinv s'" "sview t s' = live_at t ((sview (sclock (ce_finish env)) (ce_before_finish env (gk_store st)))
        (k := Some (completed_lease l (MarshalBinary sr) (keep (ce_finish env) (recordTTL (gin_options cfg))))))"
proof -
  let ?s1 = "snd (Begin S (ce_rnd env) (ce_begin env) k fp (gin_options cfg) (gi_store wd))"
  have run': "gin_run G cfg h (rebuffer r body) (lease_ctx k (EncodeToString b) (gin_options cfg) c)
      (gi_w (wd\<lparr>gi_store := ?s1\<rparr>)) (gi_store (wd\<lparr>gi_store := ?s1\<rparr>)) = (False, st)" using run by simp
  show thesis
    by (rule gin_persists [OF run' persist fin, of "gin_keyAttrs sha256 cfg (gin_scope cfg (rebuffer r body)) key"],
        rule that) (simp_all add: gin_first [OF acc rnd free k fp])
qed

lemma gin_retry:
  assumes acc: "gin_accepted cfg r key body" and "ce_rnd env = Inr b"
    and st: "sinv (at_between (ce_begin env 1) (gi_store wd))" "up (at_store (ce_begin env 1))"
      "sview (sclock (at_store (ce_begin env 1))) (at_between (ce_begin env 1) (gi_store wd))
        (scoped_key (gin_scope cfg (rebuffer r body)) key) = Some l"
    and live: "at_check (ce_begin env 1) < rebuilt (at_store (ce_begin env 1)) (l_deadline l)"
    and stored: "l_state l = StateCompleted" "l_fp l = Fingerprint_of sha256 (Method r) (ReqURL r) body"
      "l_payload l = MarshalBinary sr"
    and wr: "ob_open (obs (gi_w wd))" "ob_sent (obs (gi_w wd)) = None" "ob_body (obs (gi_w wd)) = []"
      "storable sr" "final_status (StatusCode sr)"
      "int (length (MarshalBinary sr)) \<le> wrap64 (gi_maxResponseBody cfg + gin_maxStoredResponseOverhead)"
  obtains s' g' hs where "gin_handle sha256 G S cfg h env r c wd = (False, wd\<lparr>gi_store := s', gi_w := g', gi_aborted := True\<rparr>)"
    "ob_sent (obs g') = Some (StatusCode sr, hs)" "ob_body (obs g') = sent_body (StatusCode sr) (SRBody sr)"
    "\<And>n. n \<noteq> HeaderIdempotencyReplayed \<Longrightarrow> map_of hs n = (map_of (ob_header (obs (gi_w wd))) ++ map_of (SRHeader sr)) n"
proof -
  let ?k = "scoped_key (gin_scope cfg (rebuffer r body)) key" and ?fp = "Fingerprint_of sha256 (Method r) (ReqURL r) body"
  obtain res s' where B: "Begin S (Inr b) (ce_begin env) ?k ?fp (gin_options cfg) (gi_store wd) = (res, s')" by (meson surj_pair)
  have res: "res = Inr (replay_outcome (MarshalBinary sr))"
    using Begin_first [OF st(1,2) order_refl _ B] st(3) live stored by (simp add: decide_def)
  obtain g' hs where R: "gin_writeReplay sha256 G cfg (rebuffer r body) (gin_scope cfg (rebuffer r body)) key (MarshalBinary sr)
        (wd\<lparr>gi_store := s'\<rparr>) = (False, wd\<lparr>gi_store := s', gi_w := g', gi_aborted := True\<rparr>)"
    "ob_sent (obs g') = Some (StatusCode sr, hs)" "ob_body (obs g') = sent_body (StatusCode sr) (SRBody sr)"
    "\<And>n. n \<noteq> HeaderIdempotencyReplayed \<Longrightarrow> map_of hs n = (map_of (ob_header (obs (gi_w wd))) ++ map_of (SRHeader sr)) n"
    by (rule gin_writeReplay_sends [of "wd\<lparr>gi_store := s'\<rparr>" sr cfg sha256 "rebuffer r body" "gin_scope cfg (rebuffer r body)" key])
      (use wr in simp_all)
  have "gin_handle sha256 G S cfg h env r c wd = (False, wd\<lparr>gi_store := s', gi_w := g', gi_aborted := True\<rparr>)"
    using B res assms(2) R(1) by (simp add: gin_handle_accepted [OF acc] gin_keyed_def gin_store_do_def Let_def)
  then show thesis using that R(2-4) by blast
qed

end

end
