(* ===== verification/Gin_Deployment.thy ===== *)
theory Gin_Deployment
  imports Exchange_Example Gin_Adapter
begin

section \<open>The Gin adapter over a store\<close>

text \<open>
  The adapter's exchanges over every store that keeps the contract and every writer that
  behaves as Gin documents, exercised on the in-memory store and the reference writer. What the
  client receives is what the writer has sent when the chain returns and the engine writes a
  status line that is still held back (\<open>send_header\<close>).
\<close>

interpretation mgn: gin_client mem_Store mem_inv mem_view "\<lambda>now. now" "\<lambda>_. True"
  "\<lambda>_ r. LeaseExpiresAt r" "\<lambda>now ttl. now + ttl" "\<lambda>_ d. d" reference_gin ref_obs
  by unfold_locales

definition demo_chain :: "'s gin_chain" where
  "demo_chain r c = GDo (GWriteHeader 201)
     (\<lambda>_. GDo (GSetHeader ''Content-Type'' [''text/plain'']) (\<lambda>_. GDo (GWriteString ''ok'') (\<lambda>_. GDone)))"

definition demo_gin_world :: "'s \<Rightarrow> (gin_rw, 's) gin_world" where
  "demo_gin_world s = \<lparr>gi_w = new_gin_rw 200, gi_store = s, gi_log = [], gi_calls = [], gi_next = False, gi_aborted = False\<rparr>"

definition demo_gin_cfg :: "gin_rw gin_config" where
  "demo_gin_cfg = gin_New reference_gin [gin_StoreHeaders [''Content-Type'']]"

definition demo_gin_end :: "'s \<Rightarrow> ctx \<Rightarrow> (gin_rw, 's) gin_captured" where
  "demo_gin_end s c = \<lparr>gk_cw = \<lparr>gc_w = \<lparr>gr_rw = (new_rw None None)\<lparr>rw_header := [(''Content-Type'', [''text/plain''])],
        rw_sent := Some (201, [(''Content-Type'', [''text/plain''])]), rw_body := ''ok''\<rparr>, gr_status = 201, gr_size = 2\<rparr>,
      gc_rec = (NewRecorder DefaultMaxResponseBody [''Content-Type''])\<lparr>rec_status := 201,
        rec_header := Some [(''Content-Type'', [''text/plain''])], rec_body := ''ok''\<rparr>,
      gc_pending = 201, gc_snapshotted = True\<rparr>, gk_ctx = c, gk_store = s\<rparr>"

definition demo_gin_cw :: "gin_rw gin_capture" where
  "demo_gin_cw = new_gin_capture (new_gin_rw 200) (NewRecorder (gi_maxResponseBody demo_gin_cfg) (gi_storeHeaders demo_gin_cfg))"

definition demo_gin_cw1 :: "gin_rw gin_capture" where
  "demo_gin_cw1 = (let cw = snd (gcw_WriteHeader reference_gin 201 demo_gin_cw) in cw\<lparr>gc_w := gn_SetHeader reference_gin
     (hdr_put (gn_Header reference_gin (gc_w cw)) ''Content-Type'' [''text/plain'']) (gc_w cw)\<rparr>)"

lemma demo_gin_ops:
  "fst (gcw_WriteHeader reference_gin 201 demo_gin_cw) = False"
  "gcw_WriteString reference_gin ''ok'' demo_gin_cw1 = (GErr None, gk_cw (demo_gin_end () background))"
  by code_simp+

lemma demo_gin_run: "gin_run reference_gin demo_gin_cfg demo_chain r c (new_gin_rw 200) s = (False, demo_gin_end s c)"
proof -
  obtain cw where cw: "gcw_WriteHeader reference_gin 201 demo_gin_cw = (False, cw)" using demo_gin_ops(1) by (metis prod.collapse)
  have 1: "cw\<lparr>gc_w := gn_SetHeader reference_gin
     (hdr_put (gn_Header reference_gin (gc_w cw)) ''Content-Type'' [''text/plain'']) (gc_w cw)\<rparr> = demo_gin_cw1"
    by (simp add: demo_gin_cw1_def cw)
  have 2: "gk_cw (demo_gin_end () background) = gk_cw (demo_gin_end s c)"
    "demo_gin_end s c = \<lparr>gk_cw = gk_cw (demo_gin_end s c), gk_ctx = c, gk_store = s\<rparr>" by (simp_all add: demo_gin_end_def)
  show ?thesis
    unfolding gin_run_def demo_chain_def demo_gin_cw_def [symmetric]
    by (simp add: gin_cap_step_def cw 1 demo_gin_ops(2) of_panic_def Let_def, simp add: 2(1) 2(2) [symmetric])
qed

lemma demo_gin_facts:
  "StoredResponse_of (gc_rec (gcw_finalize reference_gin (gk_cw (demo_gin_end s c)))) = (demo_response, True)"
  "gi_policy demo_gin_cfg (Status (gc_rec (gcw_finalize reference_gin (gk_cw (demo_gin_end s c))))) e = Persist"
  "int (length (MarshalBinary demo_response)) \<le> wrap64 (gi_maxResponseBody demo_gin_cfg + gin_maxStoredResponseOverhead)"
  "gin_accepted demo_gin_cfg demo_request ''k1'' ''x''"
  "leaseTTL (gin_options demo_gin_cfg) = 30000000000" "recordTTL (gin_options demo_gin_cfg) = 86400000000000"
  by code_simp+

lemma demo_gin_fresh:
  "ready (ref_obs (new_gin_rw 200))" "ob_sent (ref_obs (new_gin_rw 200)) = None" "ob_body (ref_obs (new_gin_rw 200)) = []"
  "ob_status (ref_obs (new_gin_rw 200)) = StatusOK" "ob_open (ref_obs (new_gin_rw 200))"
  by code_simp+

lemma demo_gin_sel [simp]:
  "gi_w (demo_gin_world s) = new_gin_rw 200" "gi_store (demo_gin_world s) = s" "gi_calls (demo_gin_world s) = []"
  "gk_store (demo_gin_end s c) = s"
  by (simp_all add: demo_gin_world_def demo_gin_end_def)

lemma demo_gin_finished: "\<not> finished (gk_ctx (demo_gin_end s (lease_ctx k t opts c)))"
  by (simp add: demo_gin_end_def finished_def lease_ctx_def FinishChannel_def finishedBox_done_def)

lemma demo_calm: "calm (demo_chain r c)"
  by (simp add: demo_chain_def final_status_def)

subsection \<open>Properties\<close>

lemma replay_same_gin:
  assumes "ob_sent ob = Some (code, h)" "ob_body ob = sent_body code body"
    and "ob_sent ob' = Some (code, h')" "ob_body ob' = sent_body code body"
    and "\<And>n. n \<noteq> HeaderIdempotencyReplayed \<Longrightarrow> map_of h' n = (f ++ map_of (snapshot h [] (allow_names [] names))) n"
  shows "same_gin_response (allow_names [] names) ob ob'"
  using assms(1-4) assms(5) [of "CanonicalMIMEHeaderKey _"]
  by (auto simp: same_gin_response_def map_add_def map_of_snapshot hdr_Values_def set_allow_names assms(5))

text \<open>
  (C21) A request through the Gin adapter on a writer whose status Gin had not set before, with a chain that
  sets only final status codes, does not hijack the connection and does not complete its key itself:
  when it finishes within its lease with a response the policy persists and the decoder can read back,
  it is executed once, and for the rest of the record's life every matching request is
  answered, with the chain aborted, with the status, the body and the allowlisted
  headers the first client received.
\<close>

theorem gin_retry_replays:
  assumes store: "lease_store S sinv sview sclock up grant keep rebuilt" and lib: "gin_library G obs"
    and first: "gin_accepted cfg r key body" "ce_rnd env = Inr b"
    and fresh: "ready (obs (gi_w wd))" "ob_sent (obs (gi_w wd)) = None" "ob_body (obs (gi_w wd)) = []" "ob_status (obs (gi_w wd)) = 200"
    and k: "k = scoped_key (gin_scope cfg (rebuffer r body)) key"
    and fp: "fp = Fingerprint_of sha256 (Method r) (ReqURL r) body"
    and free: "sinv (at_between (ce_begin env 1) (gi_store wd))" "up (at_store (ce_begin env 1))"
      "sview (sclock (at_store (ce_begin env 1))) (at_between (ce_begin env 1) (gi_store wd)) k = None"
    and s1: "s1 = snd (Begin S (ce_rnd env) (ce_begin env) k fp (gin_options cfg) (gi_store wd))"
    and run: "gin_run G cfg h (rebuffer r body) (lease_ctx k (EncodeToString b) (gin_options cfg) c) (gi_w wd) s1 = (False, st)"
      "calm (h (rebuffer r body) (lease_ctx k (EncodeToString b) (gin_options cfg) c))" "\<not> finished (gk_ctx st)"
    and persist: "gi_policy cfg (Status (gc_rec (gcw_finalize G (gk_cw st)))) (handlerErr (gk_ctx st)) = Persist"
      "StoredResponse_of (gc_rec (gcw_finalize G (gk_cw st))) = (sr, True)" "storable sr"
      "int (length (MarshalBinary sr)) \<le> wrap64 (gi_maxResponseBody cfg + gin_maxStoredResponseOverhead)"
    and fin: "sinv (ce_before_finish env (gk_store st))" "up (ce_finish env)"
      "held_by (sview (sclock (ce_finish env)) (ce_before_finish env (gk_store st))) k (EncodeToString b) l" "l_fp l = fp"
    and call: "gin_handle sha256 G S cfg h env r c wd = (p, wd1)"
    and retry: "gin_accepted cfg r' key body" "Method r' = Method r" "ReqURL r' = ReqURL r"
      "gin_scope cfg (rebuffer r' body) = gin_scope cfg (rebuffer r body)" "ce_rnd env' = Inr b'"
    and fresh': "ob_open (obs (gi_w wd'))" "ob_sent (obs (gi_w wd')) = None" "ob_body (obs (gi_w wd')) = []"
    and t': "t' = sclock (at_store (ce_begin env' 1))" "sclock (ce_finish env) \<le> t'"
      "t' < keep (ce_finish env) (recordTTL (gin_options cfg))"
      "at_check (ce_begin env' 1) < rebuilt (at_store (ce_begin env' 1)) (keep (ce_finish env) (recordTTL (gin_options cfg)))"
    and kept: "sinv (at_between (ce_begin env' 1) (gi_store wd'))" "up (at_store (ce_begin env' 1))"
      "sview t' (at_between (ce_begin env' 1) (gi_store wd')) k = sview t' (gi_store wd1) k"
  shows "\<not> p \<and> gi_calls wd1 = gi_calls wd @ [(rebuffer r body, lease_ctx k (EncodeToString b) (gin_options cfg) c)] \<and>
    (\<exists>wd2. gin_handle sha256 G S cfg h' env' r' c' wd' = (False, wd2) \<and> gi_calls wd2 = gi_calls wd' \<and> gi_aborted wd2 \<and>
       same_gin_response (allow_names [] (gi_storeHeaders cfg)) (send_header (obs (gi_w wd1))) (obs (gi_w wd2)))"
proof -
  have client: "gin_client S sinv sview sclock up grant keep rebuilt G obs" by (rule gin_client.intro [OF store lib])
  let ?l' = "completed_lease l (MarshalBinary sr) (keep (ce_finish env) (recordTTL (gin_options cfg)))"
  obtain s' where E: "gin_handle sha256 G S cfg h env r c wd = (False, wd\<lparr>gi_w := gc_w (gk_cw st), gi_store := s',
        gi_calls := gi_calls wd @ [(rebuffer r body, lease_ctx k (EncodeToString b) (gin_options cfg) c)], gi_next := True\<rparr>)"
    "sview t' s' = live_at t' ((sview (sclock (ce_finish env)) (ce_before_finish env (gk_store st)))(k := Some ?l'))"
    by (rule gin_client.gin_first_request [OF client first free k fp run(1) [unfolded s1] run(3) persist(1,2) fin(1,2) t'(2) fin(3)])
  have wd1: "\<not> p" "gi_w wd1 = gc_w (gk_cw st)" "gi_store wd1 = s'"
    "gi_calls wd1 = gi_calls wd @ [(rebuffer r body, lease_ctx k (EncodeToString b) (gin_options cfg) c)]"
    using call E(1) by auto
  have found: "sview t' (at_between (ce_begin env' 1) (gi_store wd')) (scoped_key (gin_scope cfg (rebuffer r' body)) key) = Some ?l'"
    using kept(3) wd1(3) E(2) t'(3) k retry(4) by (simp add: live_at_def)
  note run' = run(1) [unfolded gin_run_def]
  obtain hs where cap: "ob_sent (send_header (obs (gc_w (gk_cw st)))) = Some (StatusCode sr, hs)"
    "SRHeader sr = snapshot hs [] (allow_names [] (gi_storeHeaders cfg))"
    "ob_body (obs (gc_w (gk_cw st))) = sent_body (StatusCode sr) (SRBody sr)" "final_status (StatusCode sr)"
    using gin_library.gin_capture_faithful [OF lib fresh(1-3) _ run(2) run' persist(2)] fresh(4) run_gin_allow [OF run']
    by (auto simp: StatusOK_def new_gin_capture_def NewRecorder_def)
  obtain s2 g2 h2 where again: "gin_handle sha256 G S cfg h' env' r' c' wd' = (False, wd'\<lparr>gi_store := s2, gi_w := g2, gi_aborted := True\<rparr>)"
    "ob_sent (obs g2) = Some (StatusCode sr, h2)" "ob_body (obs g2) = sent_body (StatusCode sr) (SRBody sr)"
    "\<And>n. n \<noteq> HeaderIdempotencyReplayed \<Longrightarrow> map_of h2 n = (map_of (ob_header (obs (gi_w wd'))) ++ map_of (SRHeader sr)) n"
    by (rule gin_client.gin_retry [OF client retry(1,5) kept(1,2) found [unfolded t'(1)] _ _ _ _ fresh' persist(3) cap(4) persist(4),
          of sha256 h' c']) (use fin(4) fp t'(4) retry(2,3) in simp_all)
  have "same_gin_response (allow_names [] (gi_storeHeaders cfg)) (send_header (obs (gi_w wd1))) (obs g2)"
    by (rule replay_same_gin [OF _ _ again(2,3)]) (use cap again(4) wd1(2) in simp_all)
  then show ?thesis using wd1 again(1) by simp
qed

theorem gin_retry_replays_witness:
  "\<exists>wd1 wd2. gin_handle (\<lambda>x. x) reference_gin mem_Store demo_gin_cfg demo_chain (demo_env 0) demo_request background
       (demo_gin_world mem_New) = (False, wd1) \<and> length (gi_calls wd1) = 1 \<and>
     gin_handle (\<lambda>x. x) reference_gin mem_Store demo_gin_cfg (\<lambda>r c. GPanic) (demo_env 10) demo_request background
       (demo_gin_world (gi_store wd1)) = (False, wd2) \<and> gi_calls wd2 = [] \<and>
     same_gin_response [''Content-Type''] (send_header (ref_obs (gi_w wd1))) (ref_obs (gi_w wd2))"
proof -
  let ?k = "scoped_key (gin_scope demo_gin_cfg (rebuffer demo_request ''x'')) ''k1''"
  let ?fp = "Fingerprint_of (\<lambda>x. x) (Method demo_request) (ReqURL demo_request) ''x''" and ?o = "gin_options demo_gin_cfg"
  let ?c = "lease_ctx ?k (EncodeToString ''ab'') ?o background" and ?wd = "demo_gin_world mem_New"
  let ?s1 = "snd (Begin mem_Store (ce_rnd (demo_env 0)) (ce_begin (demo_env 0)) ?k ?fp ?o (gi_store ?wd))"
  let ?rc = "reservation_of ?k ?fp (EncodeToString ''ab'') ?o 0"
  have s1: "?s1 = \<lparr>recs = [?k \<mapsto> ?rc]\<rparr>" by (simp only: demo_gin_sel demo_sel(1) demo_Begin)
  have run: "gin_run reference_gin demo_gin_cfg demo_chain (rebuffer demo_request ''x'') ?c (gi_w ?wd) ?s1 = (False, demo_gin_end ?s1 ?c)"
    by (simp only: demo_gin_sel demo_gin_run)
  have inv: "mem_inv (ce_before_finish (demo_env 0) (gk_store (demo_gin_end ?s1 ?c)))" unfolding s1 by (simp add: demo_inv)
  have held: "held_by (mem_view (ce_finish (demo_env 0)) (ce_before_finish (demo_env 0) (gk_store (demo_gin_end ?s1 ?c)))) ?k
      (EncodeToString ''ab'') (lease_of ?rc)"
    unfolding s1 by (simp add: held_by_def mem_view_def Expired_def demo_gin_facts)
  have free: "mem_inv (at_between (ce_begin (demo_env 0) 1) (gi_store ?wd))"
    "mem_view (at_store (ce_begin (demo_env 0) 1)) (at_between (ce_begin (demo_env 0) 1) (gi_store ?wd)) ?k = None"
    by (simp_all add: mem_inv_New mem_view_New)
  obtain p wd1 where call: "gin_handle (\<lambda>x. x) reference_gin mem_Store demo_gin_cfg demo_chain (demo_env 0) demo_request background ?wd
      = (p, wd1)" by (meson surj_pair)
  have inv1: "mem_inv (gi_store wd1)"
    by (rule mgn.gin_first_request [OF demo_gin_facts(4) demo_sel(1) free(1) TrueI free(2) refl refl run demo_gin_finished
          demo_gin_facts(2,1) inv TrueI order_refl held]) (use call in simp)
  have "\<not> p \<and> gi_calls wd1 = gi_calls ?wd @ [(rebuffer demo_request ''x'', ?c)] \<and>
    (\<exists>wd2. gin_handle (\<lambda>x. x) reference_gin mem_Store demo_gin_cfg (\<lambda>r c. GPanic) (demo_env 10) demo_request background
       (demo_gin_world (gi_store wd1)) = (False, wd2) \<and> gi_calls wd2 = gi_calls (demo_gin_world (gi_store wd1)) \<and> gi_aborted wd2 \<and>
       same_gin_response (allow_names [] (gi_storeHeaders demo_gin_cfg)) (send_header (ref_obs (gi_w wd1))) (ref_obs (gi_w wd2)))"
    by (rule gin_retry_replays [OF ms.lease_store_axioms rg.gin_library_axioms demo_gin_facts(4) demo_sel(1) _ _ _ _ refl refl free(1) TrueI free(2)
          refl run _ demo_gin_finished demo_gin_facts(2,1) demo_storable demo_gin_facts(3) inv TrueI held _ call demo_gin_facts(4) refl refl refl demo_sel(1)
          _ _ _ refl])
      (simp_all add: inv1 demo_gin_facts demo_gin_fresh StatusOK_def demo_calm)
  moreover have "allow_names [] (gi_storeHeaders demo_gin_cfg) = [''Content-Type'']" by code_simp
  ultimately show ?thesis using call by auto
qed

text \<open>
  (C22) On a writer whose status was not set before, a chain that sets only final status codes and does not
  hijack the connection: a capture the adapter can store holds the status, the body and
  the allowlisted headers the client receives.
\<close>

theorem gin_capture_exact:
  assumes lib: "gin_library G obs" and "calm p"
    and fresh: "ready (obs g)" "ob_sent (obs g) = None" "ob_body (obs g) = []" "ob_status (obs g) = 200"
    and run: "run_gin_cap G p \<lparr>gk_cw = new_gin_capture g (NewRecorder m names), gk_ctx = c, gk_store = s\<rparr> = (b, st)"
    and stored: "StoredResponse_of (gc_rec (gcw_finalize G (gk_cw st))) = (sr, True)"
  shows "\<exists>h. ob_sent (send_header (obs (gc_w (gk_cw st)))) = Some (StatusCode sr, h) \<and>
    ob_body (obs (gc_w (gk_cw st))) = sent_body (StatusCode sr) (SRBody sr) \<and>
    (\<forall>n. map_of (SRHeader sr) n = (if n \<in> set (allow_names [] names) \<and> hdr_Values h n \<noteq> [] then Some (hdr_Values h n) else None))"
proof -
  obtain h where h: "ob_sent (send_header (obs (gc_w (gk_cw st)))) = Some (StatusCode sr, h)"
    "SRHeader sr = snapshot h [] (allow_names [] names)" "ob_body (obs (gc_w (gk_cw st))) = sent_body (StatusCode sr) (SRBody sr)"
    using gin_library.gin_capture_faithful [OF lib fresh(1-3) _ assms(2) run stored] fresh(4) run_gin_allow [OF run]
    by (auto simp: StatusOK_def new_gin_capture_def NewRecorder_def)
  then show ?thesis by (auto simp: map_of_snapshot)
qed

theorem gin_capture_exact_witness:
  "\<exists>h. ob_sent (send_header (ref_obs (gc_w (gk_cw (demo_gin_end () background))))) = Some (StatusCode demo_response, h) \<and>
    ob_body (ref_obs (gc_w (gk_cw (demo_gin_end () background)))) = sent_body (StatusCode demo_response) (SRBody demo_response) \<and>
    (\<forall>n. map_of (SRHeader demo_response) n = (if n \<in> set (allow_names [] [''Content-Type'']) \<and> hdr_Values h n \<noteq> []
       then Some (hdr_Values h n) else None))"
proof -
  have cfg: "gi_storeHeaders demo_gin_cfg = [''Content-Type'']" by code_simp
  show ?thesis
    by (rule gin_capture_exact [OF rg.gin_library_axioms demo_calm _ _ _ _ demo_gin_run [unfolded gin_run_def cfg] demo_gin_facts(1)])
      (simp_all add: demo_gin_fresh StatusOK_def)
qed

text \<open>
  (C23) The adapter takes a status that no handler of the chain sets for 200, although Gin sends the one
  its engine set before: for such a chain with no output (an unmatched route, which Gin answers
  404) the client receives Gin's status and the stored response has status 200.
\<close>

theorem preset_status_is_lost:
  assumes store: "lease_store S sinv sview sclock up grant keep rebuilt" and lib: "gin_library G obs"
    and first: "gin_accepted cfg r key body" "ce_rnd env = Inr b"
    and fresh: "ob_sent (obs (gi_w wd)) = None"
    and k: "k = scoped_key (gin_scope cfg (rebuffer r body)) key"
    and fp: "fp = Fingerprint_of sha256 (Method r) (ReqURL r) body"
    and free: "sinv (at_between (ce_begin env 1) (gi_store wd))" "up (at_store (ce_begin env 1))"
      "sview (sclock (at_store (ce_begin env 1))) (at_between (ce_begin env 1) (gi_store wd)) k = None"
    and s1: "s1 = snd (Begin S (ce_rnd env) (ce_begin env) k fp (gin_options cfg) (gi_store wd))"
    and chain: "h (rebuffer r body) (lease_ctx k (EncodeToString b) (gin_options cfg) c) = GDone" "gi_policy cfg 200 None = Persist"
    and fin: "sinv (ce_before_finish env s1)" "up (ce_finish env)"
      "held_by (sview (sclock (ce_finish env)) (ce_before_finish env s1)) k (EncodeToString b) l"
    and t: "sclock (ce_finish env) \<le> t" "t < keep (ce_finish env) (recordTTL (gin_options cfg))"
  shows "\<exists>wd1 l' sr. gin_handle sha256 G S cfg h env r c wd = (False, wd1) \<and>
    ob_sent (send_header (obs (gi_w wd1))) = Some (ob_status (obs (gi_w wd)), ob_header (obs (gi_w wd))) \<and>
    sview t (gi_store wd1) k = Some l' \<and> l_state l' = StateCompleted \<and> l_payload l' = MarshalBinary sr \<and>
    StatusCode sr = 200 \<and> SRBody sr = []"
proof -
  have client: "gin_client S sinv sview sclock up grant keep rebuilt G obs" by (rule gin_client.intro [OF store lib])
  define st where "st = \<lparr>gk_cw = new_gin_capture (gi_w wd) (NewRecorder (gi_maxResponseBody cfg) (gi_storeHeaders cfg)),
     gk_ctx = lease_ctx k (EncodeToString b) (gin_options cfg) c, gk_store = s1\<rparr>"
  let ?rec = "gc_rec (gcw_finalize G (gk_cw st))"
  let ?sr = "fst (StoredResponse_of ?rec)"
  have run: "gin_run G cfg h (rebuffer r body) (lease_ctx k (EncodeToString b) (gin_options cfg) c) (gi_w wd) s1 = (False, st)"
    by (simp add: gin_run_def chain(1) st_def)
  have open_ctx: "\<not> finished (gk_ctx st)" "handlerErr (gk_ctx st) = None"
    by (simp_all add: st_def lease_ctx_def finished_def FinishChannel_def finishedBox_done_def handlerErr_def ErrorChannel_def
        ContextWithReservation_def errBox_get_def)
  have rec: "Status ?rec = 200" "StoredResponse_of ?rec = (?sr, True)" "StatusCode ?sr = 200" "SRBody ?sr = []"
    by (simp_all add: st_def gcw_finalize_def gcw_snapshot_def new_gin_capture_def NewRecorder_def RecordStatus_def Status_def StatusOK_def
        StoredResponse_of_def Let_def)
  have side: "gi_policy cfg (Status ?rec) (handlerErr (gk_ctx st)) = Persist" "gk_store st = s1"
    using chain(2) rec(1) open_ctx(2) by (simp_all add: st_def)
  obtain s' where E: "gin_handle sha256 G S cfg h env r c wd = (False, wd\<lparr>gi_w := gc_w (gk_cw st), gi_store := s',
        gi_calls := gi_calls wd @ [(rebuffer r body, lease_ctx k (EncodeToString b) (gin_options cfg) c)], gi_next := True\<rparr>)"
    "sview t s' = live_at t ((sview (sclock (ce_finish env)) (ce_before_finish env s1))
        (k := Some (completed_lease l (MarshalBinary ?sr) (keep (ce_finish env) (recordTTL (gin_options cfg))))))"
    by (rule gin_client.gin_first_request [OF client first free k fp run [unfolded s1] open_ctx(1) side(1) rec(2),
          unfolded side(2), OF fin(1,2) t(1) fin(3)])
  show ?thesis
    using E t(2) rec(3,4) fresh by (auto simp: st_def new_gin_capture_def live_at_def send_header_def)
qed

theorem preset_status_is_lost_witness:
  "\<exists>wd1 l' sr. gin_handle (\<lambda>x. x) reference_gin mem_Store demo_gin_cfg (\<lambda>r c. GDone) (demo_env 0) demo_request background
      ((demo_gin_world mem_New)\<lparr>gi_w := new_gin_rw 404\<rparr>) = (False, wd1) \<and>
    ob_sent (send_header (ref_obs (gi_w wd1))) = Some (404, []) \<and>
    mem_view 5 (gi_store wd1) ''k1'' = Some l' \<and> l_state l' = StateCompleted \<and> l_payload l' = MarshalBinary sr \<and>
    StatusCode sr = 200 \<and> SRBody sr = []"
proof -
  let ?k = "scoped_key (gin_scope demo_gin_cfg (rebuffer demo_request ''x'')) ''k1''"
  let ?fp = "Fingerprint_of (\<lambda>x. x) (Method demo_request) (ReqURL demo_request) ''x''" and ?o = "gin_options demo_gin_cfg"
  let ?wd = "(demo_gin_world mem_New)\<lparr>gi_w := new_gin_rw 404\<rparr>"
  let ?s1 = "snd (Begin mem_Store (ce_rnd (demo_env 0)) (ce_begin (demo_env 0)) ?k ?fp ?o (gi_store ?wd))"
  let ?rc = "reservation_of ?k ?fp (EncodeToString ''ab'') ?o 0"
  have s1: "?s1 = \<lparr>recs = [?k \<mapsto> ?rc]\<rparr>" by (simp add: demo_Begin del: demo_sel(2))
  have held: "held_by (mem_view (ce_finish (demo_env 0)) (ce_before_finish (demo_env 0) ?s1)) ?k (EncodeToString ''ab'') (lease_of ?rc)"
    unfolding s1 by (simp add: held_by_def mem_view_def Expired_def demo_gin_facts)
  have inv: "mem_inv (ce_before_finish (demo_env 0) ?s1)" unfolding s1 by (simp add: demo_inv)
  have k: "?k = ''k1''" "gi_policy demo_gin_cfg 200 None = Persist" by code_simp+
  have ob: "ref_obs (gi_w ?wd) = \<lparr>ob_header = [], ob_status = 404, ob_sent = None, ob_body = [], ob_open = True\<rparr>"
    by (simp add: ref_obs_def new_gin_rw_def new_rw_def)
  have "\<exists>wd1 l' sr. gin_handle (\<lambda>x. x) reference_gin mem_Store demo_gin_cfg (\<lambda>r c. GDone) (demo_env 0) demo_request background ?wd = (False, wd1) \<and>
    ob_sent (send_header (ref_obs (gi_w wd1))) = Some (ob_status (ref_obs (gi_w ?wd)), ob_header (ref_obs (gi_w ?wd))) \<and>
    mem_view 5 (gi_store wd1) ?k = Some l' \<and> l_state l' = StateCompleted \<and> l_payload l' = MarshalBinary sr \<and>
    StatusCode sr = 200 \<and> SRBody sr = []"
    by (rule preset_status_is_lost [OF ms.lease_store_axioms rg.gin_library_axioms demo_gin_facts(4) demo_sel(1) _ refl refl _ TrueI _ refl refl
          k(2) inv TrueI held]) (simp_all add: ob [simplified] mem_inv_New mem_view_New demo_gin_facts)
  then show ?thesis unfolding ob k(1) by simp
qed

end
