(* ===== verification/Gin_System.thy ===== *)
theory Gin_System
  imports Http_System Gin_Deployment
begin

section \<open>Gin requests in the concurrent system\<close>

text \<open>
  A request to the Gin adapter, with everything the other clients of the store do meanwhile, is a
  path of the concurrent system of \<open>Lease_System\<close>, as a request to the \<^verbatim>\<open>net/http\<close> middleware is.
\<close>

primrec chain_within :: "'s paths \<Rightarrow> Time \<Rightarrow> 's gin_prog \<Rightarrow> bool" where
  "chain_within R t GDone = True"
| "chain_within R t GPanic = True"
| "chain_within R t (GDo a k) =
     ((case a of GStoreOp f \<Rightarrow> activity R t (\<lambda>s. snd (f s)) | _ \<Rightarrow> True) \<and> (\<forall>r. chain_within R t (k r)))"

subsection \<open>The chain\<close>

lemma gin_raw_step_path:
  assumes "transp R" "gin_raw_step G a st = (r, st')" "case a of GStoreOp f \<Rightarrow> activity R t (\<lambda>s. snd (f s)) | _ \<Rightarrow> True"
    and "reached R x t (gp_store st)"
  shows "reached R x t (gp_store st')"
  using assms activity_reached [OF _ assms(1,4)]
  by (cases a) (auto simp: gin_raw_step_def Let_def split_beta)

lemma run_gin_path:
  "transp R \<Longrightarrow> run_gin G p st = (b, st') \<Longrightarrow> chain_within R t p \<Longrightarrow> reached R x t (gp_store st) \<Longrightarrow> reached R x t (gp_store st')"
proof (induction p arbitrary: st)
  case (GDo a k)
  obtain r st1 where S: "gin_raw_step G a st = (r, st1)" by force
  with GDo.prems(2) have "run_gin G (k r) st1 = (b, st')" by simp
  from GDo.IH [OF rangeI GDo.prems(1) this] gin_raw_step_path [OF GDo.prems(1) S _ GDo.prems(4)] GDo.prems(3) show ?case by simp
qed simp_all

lemma run_gin_cap_path:
  assumes "transp R" "run_gin_cap G p st = (b, st')" "chain_within R t p" "reached R x t (gk_store st)"
  shows "reached R x t (gk_store st')"
  using run_gin_path [OF assms(1) run_gin_transparent [OF assms(2)] assms(3)] assms(4) by (simp add: gin_uncapture_def)

subsection \<open>The parts of a request\<close>

lemma gin_store_do_store [simp]: "gi_store (snd (gin_store_do f wd)) = snd (f (gi_store wd))"
  by (simp add: gin_store_do_def split_beta)

lemma gin_settle_store:
  obtains d p where "gi_store (gin_settle S cfg env attrs k tok opts rec herr wd) \<in>
    {snd (Finish S (ce_finish env) k tok d p opts (ce_before_finish env (gi_store wd))),
     snd (Finish S (ce_release env) k tok Discard [] opts (ce_before_release env
       (snd (Finish S (ce_finish env) k tok d p opts (ce_before_finish env (gi_store wd))))))}"
proof -
  let ?d = "gi_policy cfg (Status rec) herr"
  obtain d wd1 where D: "(if ?d = Persist \<and> abandoned rec then
               (Discard, gin_warn ''ginadapter: response was streamed (Flush/Hijack); discarding instead of persisting'' attrs wd)
             else if ?d = Persist \<and> overflowed rec then
               (Discard, gin_warn ''ginadapter: response exceeds MaxResponseBody; discarding instead of persisting'' attrs wd)
             else (?d, wd)) = (d, wd1)" by (meson surj_pair)
  have wd1: "gi_store wd1 = gi_store wd" using D by (auto split: if_splits)
  let ?p = "if d = Persist then MarshalBinary (fst (StoredResponse_of rec)) else []"
  let ?f = "\<lambda>s. Finish S (ce_finish env) k tok d ?p opts (ce_before_finish env s)"
  obtain lost err wd2 where F: "gin_store_do ?f wd1 = ((lost, err), wd2)" by (metis prod.exhaust)
  have wd2: "gi_store wd2 = snd (?f (gi_store wd))" using gin_store_do_store [of ?f wd1] F wd1 by simp
  show thesis
    by (rule that [of d ?p], unfold gin_settle_def Let_def D case_prod_conv F, cases err)
      (auto simp: wd2 split_beta split: option.split)
qed

lemma gin_settle_calls: "gi_calls (gin_settle S cfg env attrs k tok opts rec herr wd) = gi_calls wd"
  using gin_settle_sel [of wd S cfg env attrs k tok opts rec herr] by (simp add: same_chain_def)

lemma gin_settle_writer: "gi_w (gin_settle S cfg env attrs k tok opts rec herr wd) = gi_w wd"
  using gin_settle_sel [of wd S cfg env attrs k tok opts rec herr] by (simp add: same_chain_def)

lemma gin_on_panic_writer: "gi_w (gin_on_panic S env attrs k tok opts c wd) = gi_w wd"
  by (simp add: gin_on_panic_def split_beta Let_def split: option.split)

lemma gin_settle_path:
  fixes S :: "('s, 'e) Store" and vw clk ok grant keep
  defines "R \<equiv> lease_reachable S vw clk ok grant keep"
  assumes env: "request_timeline R clk ok env" and "reached R st (clk (ce_finish env)) (gi_store wd)"
  shows "reached R st (clk (ce_release env)) (gi_store (gin_settle S cfg env attrs k tok opts rec herr wd))"
proof -
  note path = finish_then_release [OF env [unfolded R_def] assms(3) [unfolded R_def]]
  show ?thesis
    by (rule gin_settle_store [of S cfg env attrs k tok opts rec herr wd]) (use path in \<open>auto simp: R_def\<close>)
qed

lemma gin_on_panic_path:
  fixes S :: "('s, 'e) Store" and vw clk ok grant keep
  defines "R \<equiv> lease_reachable S vw clk ok grant keep"
  assumes env: "request_timeline R clk ok env" and "reached R st (clk (ce_finish env)) (gi_store wd)"
  shows "reached R st (clk (ce_release env)) (gi_store (gin_on_panic S env attrs k tok opts c wd)) \<and>
    gi_calls (gin_on_panic S env attrs k tok opts c wd) = gi_calls wd"
proof -
  note path = finish_then_release [OF env [unfolded R_def] assms(3) [unfolded R_def]]
  have "clk (ce_finish env) \<le> clk (ce_release env)" using env by (simp add: request_timeline_def)
  with path reached_mono [OF assms(3)] show ?thesis
    unfolding R_def by (auto simp: gin_on_panic_def split_beta Let_def split: option.split)
qed

text \<open>The rest of the chain under a lease, on the capture writer over Gin's.\<close>

definition chain_run :: "'g gin_writer \<Rightarrow> 'g gin_config \<Rightarrow> 's gin_chain \<Rightarrow> Request \<Rightarrow> ctx \<Rightarrow> 'g \<Rightarrow> bool \<Rightarrow> 'g \<Rightarrow> 's \<Rightarrow> 's \<Rightarrow> bool" where
  "chain_run G cfg h r c w p w' s s' \<longleftrightarrow>
     (\<exists>cp. gin_run G cfg h r c w s = (p, cp) \<and> gk_store cp = s' \<and> gc_w (gk_cw cp) = w')"

lemma gin_proceed_path:
  fixes S :: "('s, 'e) Store" and vw clk ok grant keep
  defines "R \<equiv> lease_reachable S vw clk ok grant keep"
  assumes env: "request_timeline R clk ok env" and at: "reached R st (clk (ce_finish env)) (gi_store wd)"
    and h: "\<And>r c. chain_within R (clk (ce_finish env)) (h r c)"
    and serve: "gin_proceed G S cfg h env attrs k tok opts r c wd = (p, wd')"
  obtains st2 where "R st st2" "chain_run G cfg h r (lease_ctx k tok opts c) (gi_w wd) p (gi_w wd') (gi_store wd) (sy_store st2)"
    "reached R st2 (clk (ce_release env)) (gi_store wd')" "gi_calls wd' = gi_calls wd @ [(r, lease_ctx k tok opts c)]"
proof -
  have tr: "transp R" unfolding R_def by (rule transp_lease_reachable)
  obtain b cp where run: "gin_run G cfg h r (lease_ctx k tok opts c) (gi_w wd) (gi_store wd) = (b, cp)" by (meson surj_pair)
  let ?wd = "wd\<lparr>gi_w := gc_w (gk_cw cp), gi_store := gk_store cp, gi_calls := gi_calls wd @ [(r, lease_ctx k tok opts c)], gi_next := True\<rparr>"
  have "reached R st (clk (ce_finish env)) (gk_store cp)"
    using run_gin_cap_path [OF tr run [unfolded gin_run_def] h] at by simp
  then obtain st2 where st2: "R st st2" "sy_store st2 = gk_store cp" "sy_clock st2 \<le> clk (ce_finish env)"
    unfolding reached_def by blast
  then have s: "reached R st2 (clk (ce_finish env)) (gi_store ?wd)" unfolding reached_def R_def by (auto intro: reach_init)
  have "clk (ce_finish env) \<le> clk (ce_release env)" using env by (simp add: request_timeline_def)
  note parts = reached_mono [OF s this] gin_settle_path [OF env [unfolded R_def] s [unfolded R_def]]
    gin_on_panic_path [OF env [unfolded R_def] s [unfolded R_def]]
  have "p = b \<and> gi_w wd' = gc_w (gk_cw cp) \<and> gi_calls wd' = gi_calls wd @ [(r, lease_ctx k tok opts c)] \<and>
      reached R st2 (clk (ce_release env)) (gi_store wd')"
    using serve run parts unfolding R_def
    by (auto simp: gin_proceed_def Let_def gin_settle_calls gin_settle_writer gin_on_panic_writer split: if_splits)
  with st2 run show thesis by (intro that [of st2]) (auto simp: chain_run_def)
qed

lemma gin_Next_path:
  assumes "transp R" "\<And>r c. chain_within R t (h r c)" "reached R st t (gi_store wd)" "gin_Next G h r c wd = (p, wd')"
  shows "reached R st t (gi_store wd') \<and> gi_calls wd' = gi_calls wd @ [(r, c)]"
proof -
  obtain b x where run: "run_gin G (h r c) \<lparr>gp_w = gi_w wd, gp_ctx = c, gp_store = gi_store wd\<rparr> = (b, x)" by (meson surj_pair)
  from run_gin_path [OF assms(1) run assms(2), of st] assms(3,4) run show ?thesis by (auto simp: gin_Next_def)
qed

lemma gin_reject_sel: "gi_store (snd (gin_reject cfg r code e wd)) = gi_store wd" "gi_calls (snd (gin_reject cfg r code e wd)) = gi_calls wd"
  by (simp_all add: gin_reject_def split_beta)

lemma gin_writeReplay_sel:
  "gi_store (snd (gin_writeReplay sha256 G cfg r sc key p wd)) = gi_store wd"
  "gi_calls (snd (gin_writeReplay sha256 G cfg r sc key p wd)) = gi_calls wd"
  by (simp_all add: gin_writeReplay_def gin_reject_sel split_beta Let_def split: sum.split)

subsection \<open>A whole request\<close>

definition gin_executed :: "(bytes \<Rightarrow> bytes) \<Rightarrow> 'g gin_writer \<Rightarrow> 'g gin_config \<Rightarrow> 's paths \<Rightarrow> ('s sys \<Rightarrow> string \<Rightarrow> string \<Rightarrow> bytes \<Rightarrow> bool) \<Rightarrow>
    's gin_chain \<Rightarrow> Request \<Rightarrow> ctx \<Rightarrow> 'g \<Rightarrow> bool \<Rightarrow> 'g \<Rightarrow> 's sys \<Rightarrow> 's sys \<Rightarrow> (Request \<times> ctx) list \<Rightarrow> bool" where
  "gin_executed sha256 G cfg R owns h r c w p w' st st' calls \<longleftrightarrow> calls = [] \<or>
     ((gi_failOpen cfg \<or> (\<nexists>key body. gin_accepted cfg r key body)) \<and> (\<exists>r1. calls = [(r1, c)])) \<or>
     (\<exists>key body tok. gin_accepted cfg r key body \<and>
        (let r1 = rebuffer r body; k = scoped_key (gin_scope cfg r1) key; c1 = lease_ctx k tok (gin_options cfg) c
         in calls = [(r1, c1)] \<and> leased_run R owns st st' k tok (Fingerprint_of sha256 (Method r) (ReqURL r) body)
              (chain_run G cfg h r1 c1 w p w')))"

lemma gin_keyed_path:
  fixes S :: "('s, 'e) Store" and vw clk ok grant keep
  defines "R \<equiv> lease_reachable S vw clk ok grant keep"
  assumes env: "request_timeline R clk ok env" and st: "sy_store st = gi_store wd" "sy_clock st \<le> clk (at_store (ce_begin env 1))"
    and h: "\<And>r c. chain_within R (clk (ce_finish env)) (h r c)"
    and serve: "gin_keyed sha256 G S cfg h env key body r c wd = (p, wd')"
  shows "\<exists>st'. R st st' \<and> sy_store st' = gi_store wd' \<and> (\<exists>calls. gi_calls wd' = gi_calls wd @ calls \<and>
    (calls = [] \<or> (gi_failOpen cfg \<and> calls = [(r, c)]) \<or> (\<exists>tok. calls = [(r, lease_ctx (scoped_key (gin_scope cfg r) key) tok (gin_options cfg) c)] \<and>
      leased_run R (just_granted clk grant (ce_begin env) (gin_options cfg)) st st' (scoped_key (gin_scope cfg r) key) tok
        (Fingerprint_of sha256 (Method r) (ReqURL r) body)
        (chain_run G cfg h r (lease_ctx (scoped_key (gin_scope cfg r) key) tok (gin_options cfg) c) (gi_w wd) p (gi_w wd')))))"
proof -
  let ?k = "scoped_key (gin_scope cfg r) key" and ?fp = "Fingerprint_of sha256 (Method r) (ReqURL r) body" and ?o = "gin_options cfg"
  have tr: "transp R" unfolding R_def by (rule transp_lease_reachable)
  have bt: "begin_timeline R clk ok (clk (ce_finish env)) (ce_begin env)" using env by (simp add: request_timeline_def)
  obtain res s1 where B: "Begin S (ce_rnd env) (ce_begin env) ?k ?fp ?o (gi_store wd) = (res, s1)" by (meson surj_pair)
  have "reached R st (clk (at_store (ce_begin env 1))) (gi_store wd)"
    using st unfolding reached_def R_def by (blast intro: reach_init)
  then obtain st1 where st1: "R st st1" "sy_store st1 = s1" "sy_clock st1 \<le> clk (ce_finish env)"
    and own: "\<And>x. res = Inr x \<Longrightarrow> Action x = Proceed \<Longrightarrow> just_granted clk grant (ce_begin env) ?o st1 ?k (OutToken x) ?fp"
    using Begin_path [OF bt [unfolded R_def] _ B] unfolding R_def by metis
  let ?wd = "wd\<lparr>gi_store := s1\<rparr>"
  have at: "reached R st1 (clk (ce_finish env)) (gi_store ?wd)"
    using st1 unfolding reached_def R_def by (auto intro: reach_init)
  have D: "gin_store_do (Begin S (ce_rnd env) (ce_begin env) ?k ?fp ?o) wd = (res, ?wd)" using B by (simp add: gin_store_do_def)
  consider (proceed) x where "res = Inr x" "Action x = Proceed" | (fail_open) e where "res = Inl e" "gi_failOpen cfg"
    | (refuse) "\<And>x. res = Inr x \<Longrightarrow> Action x \<noteq> Proceed" "\<And>e. res = Inl e \<Longrightarrow> \<not> gi_failOpen cfg"
    by (cases res) auto
  then show ?thesis
  proof cases
    case (proceed x)
    let ?c = "lease_ctx ?k (OutToken x) ?o c"
    have P: "gin_proceed G S cfg h env (gin_keyAttrs sha256 cfg (gin_scope cfg r) key) ?k (OutToken x) ?o r c ?wd = (p, wd')"
      using serve D proceed by (simp add: gin_keyed_def Let_def)
    obtain st2 where st2: "R st1 st2" "chain_run G cfg h r ?c (gi_w ?wd) p (gi_w wd') (gi_store ?wd) (sy_store st2)"
      "reached R st2 (clk (ce_release env)) (gi_store wd')" "gi_calls wd' = gi_calls ?wd @ [(r, ?c)]"
      by (rule gin_proceed_path [OF env [unfolded R_def] at [unfolded R_def] h [unfolded R_def] P, folded R_def])
    have "chain_run G cfg h r ?c (gi_w wd) p (gi_w wd') (sy_store st1) (sy_store st2)" using st2(2) st1(2) by simp
    from leased_runI [where owns = "just_granted clk grant (ce_begin env) ?o" and runs = "chain_run G cfg h r ?c (gi_w wd) p (gi_w wd')",
        OF tr st1(1) own [OF proceed] st2(1) this st2(3)]
    obtain st' where "R st st'" "sy_store st' = gi_store wd'" "leased_run R (just_granted clk grant (ce_begin env) ?o)
        st st' ?k (OutToken x) ?fp (chain_run G cfg h r ?c (gi_w wd) p (gi_w wd'))" by blast
    with st2(4) show ?thesis by (intro exI [of _ st'] conjI exI [of _ "[(r, ?c)]"]) auto
  next
    case (fail_open e)
    then have "gin_Next G h r c (gin_warn ''ginadapter: store unavailable; proceeding without idempotency (FailOpen)''
        (gin_keyAttrs sha256 cfg (gin_scope cfg r) key @ error_attr e) ?wd) = (p, wd')"
      using serve D by (simp add: gin_keyed_def Let_def)
    from gin_Next_path [OF tr h _ this, of st1] at
    have "reached R st1 (clk (ce_finish env)) (gi_store wd')" "gi_calls wd' = gi_calls wd @ [(r, c)]" by simp_all
    then obtain st' where "R st1 st'" "sy_store st' = gi_store wd'" "gi_calls wd' = gi_calls wd @ [(r, c)]" unfolding reached_def by blast
    with transpD [OF tr st1(1)] fail_open show ?thesis by (intro exI [of _ st'] conjI exI [of _ "[(r, c)]"]) auto
  next
    case refuse
    have "gi_store (snd (gin_keyed sha256 G S cfg h env key body r c wd)) = s1 \<and>
        gi_calls (snd (gin_keyed sha256 G S cfg h env key body r c wd)) = gi_calls wd"
      using D refuse
      by (cases res) (auto simp: gin_keyed_def Let_def gin_reject_sel gin_writeReplay_sel split: Action.split)
    then show ?thesis using st1 serve by auto
  qed
qed

lemma gin_handle_path:
  fixes S :: "('s, 'e) Store" and vw clk ok grant keep
  defines "R \<equiv> lease_reachable S vw clk ok grant keep"
  assumes env: "request_timeline R clk ok env" and st: "sy_store st = gi_store wd" "sy_clock st \<le> clk (at_store (ce_begin env 1))"
    and h: "\<And>r c. chain_within R (clk (ce_finish env)) (h r c)"
    and serve: "gin_handle sha256 G S cfg h env r c wd = (p, wd')"
  shows "\<exists>st' calls. R st st' \<and> sy_store st' = gi_store wd' \<and> gi_calls wd' = gi_calls wd @ calls \<and>
    gin_executed sha256 G cfg R (just_granted clk grant (ce_begin env) (gin_options cfg)) h r c (gi_w wd) p (gi_w wd') st st' calls"
proof (cases "\<exists>key body. gin_accepted cfg r key body")
  case True
  then obtain key body where acc: "gin_accepted cfg r key body" by blast
  from gin_keyed_path [OF env [unfolded R_def] st h [unfolded R_def] serve [unfolded gin_handle_accepted [OF acc]]] show ?thesis
    using acc unfolding R_def gin_executed_def Let_def by (simp, metis)
next
  case False
  have tr: "transp R" unfolding R_def by (rule transp_lease_reachable)
  have "begin_timeline R clk ok (clk (ce_finish env)) (ce_begin env)" using env by (simp add: request_timeline_def)
  then have "clk (at_store (ce_begin env 1)) \<le> clk (ce_finish env)" by (simp add: begin_timeline_def)
  then have at: "reached R st (clk (ce_finish env)) (gi_store wd)"
    using st unfolding reached_def R_def by (meson order_trans reach_init)
  have "(gi_store wd' = gi_store wd \<and> gi_calls wd' = gi_calls wd) \<or>
      (\<exists>r1 wd1. gi_store wd1 = gi_store wd \<and> gi_calls wd1 = gi_calls wd \<and> gin_Next G h r1 c wd1 = (p, wd'))"
    using serve False
    by (auto simp: gin_handle_def gin_accepted_def gin_reject_def split: if_splits sum.splits prod.splits option.splits)
  then show ?thesis
  proof
    assume "gi_store wd' = gi_store wd \<and> gi_calls wd' = gi_calls wd"
    then show ?thesis using st unfolding gin_executed_def R_def by (intro exI [of _ st] exI [of _ "[]"]) (auto intro: reach_init)
  next
    assume "\<exists>r1 wd1. gi_store wd1 = gi_store wd \<and> gi_calls wd1 = gi_calls wd \<and> gin_Next G h r1 c wd1 = (p, wd')"
    then obtain r1 wd1 where n: "gi_store wd1 = gi_store wd" "gi_calls wd1 = gi_calls wd" "gin_Next G h r1 c wd1 = (p, wd')" by blast
    from gin_Next_path [OF tr h _ n(3), of st] at n(1,2)
    have "reached R st (clk (ce_finish env)) (gi_store wd')" "gi_calls wd' = gi_calls wd @ [(r1, c)]" by simp_all
    then show ?thesis using False unfolding reached_def gin_executed_def by blast
  qed
qed

subsection \<open>The property\<close>

text \<open>
  (C8) Over every store that keeps the contract and whose calls may fail, and on any
  writer, a request to the Gin adapter, with everything the other clients do meanwhile, is a path of
  the concurrent system. Unless the adapter fails open, or the request is not subject to idempotency,
  the rest of the chain ran only under the reservation of the request's key: from the state in which the
  execution had just been granted the key, on the store of that state, which holds the lease until
  the granted deadline. In that state, when the chain ended and at the end of the request, the store holds
  the lease of every owner within its deadline, two executions of one key within their leases are the
  same execution, and a persisted response is the only answer for its key. When the adapter returns, it
  has run the chain exactly once, or aborted it without running any of it.
\<close>

theorem gin_requests_exclude_each_other:
  assumes "shaky_store S sinv sview sclock up grant keep rebuilt shaky" "sinv s"
    and "lease_reachable S sview sclock shaky grant keep (sys_init s t) st"
    and "sy_store st = gi_store wd" "sy_clock st \<le> sclock (at_store (ce_begin env 1))"
    and "request_timeline (lease_reachable S sview sclock shaky grant keep) sclock shaky env"
    and "\<And>r c. chain_within (lease_reachable S sview sclock shaky grant keep) (sclock (ce_finish env)) (h r c)"
    and "gin_handle sha256 G S cfg h env r c wd = (p, wd')"
  shows "(\<exists>st' calls. lease_reachable S sview sclock shaky grant keep st st' \<and>
    sy_store st' = gi_store wd' \<and> gi_calls wd' = gi_calls wd @ calls \<and>
    gin_executed sha256 G cfg (sound sview (lease_reachable S sview sclock shaky grant keep))
      (just_granted sclock grant (ce_begin env) (gin_options cfg)) h r c (gi_w wd) p (gi_w wd') st st' calls) \<and>
    (p \<or> chain_ran wd wd' \<or> chain_cut wd wd')"
proof (rule conjI)
  note sound = lease_clients.leased_run_sound [OF lease_clients.intro [OF assms(1)] assms(2,3)]
  show "\<exists>st' calls. lease_reachable S sview sclock shaky grant keep st st' \<and>
    sy_store st' = gi_store wd' \<and> gi_calls wd' = gi_calls wd @ calls \<and>
    gin_executed sha256 G cfg (sound sview (lease_reachable S sview sclock shaky grant keep))
      (just_granted sclock grant (ce_begin env) (gin_options cfg)) h r c (gi_w wd) p (gi_w wd') st st' calls"
    using gin_handle_path [OF assms(6,4,5,7,8)] sound unfolding gin_executed_def Let_def by blast
  show "p \<or> chain_ran wd wd' \<or> chain_cut wd wd'"
    using assms(8) gin_handle_chain [of sha256 G S cfg h env r c wd wd'] by (cases p) auto
qed

text \<open>A request on the reference writer, while another client tries to finish its key with a stale token.\<close>

theorem gin_requests_exclude_each_other_witness:
  "\<exists>p wd' st'. gin_handle (\<lambda>x. x) reference_gin mem_Store demo_gin_cfg demo_chain busy_env demo_request background (demo_gin_world mem_New) = (p, wd') \<and>
     mem_reachable (sys_init mem_New 0) st' \<and> sy_store st' = gi_store wd' \<and> gi_calls wd' \<noteq> [] \<and>
     gin_executed (\<lambda>x. x) reference_gin demo_gin_cfg (sound mem_view mem_reachable)
       (just_granted (\<lambda>now. now) (\<lambda>_ r. LeaseExpiresAt r) (ce_begin busy_env) (gin_options demo_gin_cfg)) demo_chain demo_request background
       (gi_w (demo_gin_world mem_New)) p (gi_w wd') (sys_init mem_New 0) st' (gi_calls wd') \<and>
     (p \<or> chain_ran (demo_gin_world mem_New) wd' \<or> chain_cut (demo_gin_world mem_New) wd')"
proof -
  obtain p wd' where H: "gin_handle (\<lambda>x. x) reference_gin mem_Store demo_gin_cfg demo_chain busy_env demo_request background
      (demo_gin_world mem_New) = (p, wd')" by (meson surj_pair)
  have h: "chain_within mem_reachable (ce_finish busy_env) (demo_chain r c)" for r c by (simp add: demo_chain_def)
  have st: "sy_store (sys_init mem_New 0) = gi_store (demo_gin_world mem_New)" "sy_clock (sys_init mem_New 0) \<le> at_store (ce_begin busy_env 1)"
    by (simp_all add: sys_init_def busy_env_def)
  have "gi_calls (snd (gin_handle (\<lambda>x. x) reference_gin mem_Store demo_gin_cfg demo_chain busy_env demo_request background
      (demo_gin_world mem_New))) \<noteq> []" by code_simp
  then have "gi_calls wd' \<noteq> []" using H by simp
  with gin_requests_exclude_each_other [OF mem_shaky.shaky_store_axioms mem_inv_New reach_init st busy_timeline h H] show ?thesis
    using H by (intro exI [of _ p] exI [of _ wd']) auto
qed

end
