(* ===== verification/Grpc_Interceptor.thy ===== *)
theory Grpc_Interceptor
  imports Core Uvarint Key_Grammar
begin

section \<open>The gRPC interceptor\<close>

text \<open>
  \<^verbatim>\<open>grpcidem/grpcidem.go\<close> and \<^verbatim>\<open>grpcidem/policy.go\<close>. The protocol buffer library is not part of
  the repository: the record \<open>proto\<close> holds what the interceptor asks of it (the full name and the
  deterministic encoding of a message, the lookup of a type by name and decoding into it),
  with its documented behaviour in the locale \<open>proto_library\<close>. A unary handler is an arbitrary
  function of the request that may change the store and returns or panics. The world holds the
  store, the log, the response header metadata and, as ghost state, the handler invocations.
\<close>

definition MetadataKey :: string where
  "MetadataKey = ''idempotency-key''"

definition ReplayedMetadataKey :: string where
  "ReplayedMetadataKey = ''idempotency-replayed''"

definition payloadVersion :: char where
  "payloadVersion = CHR 0x01"

datatype code = InvalidArgument | Internal | Unavailable | Aborted | FailedPrecondition

text \<open>An error of a call: a status of the interceptor, or the handler's own error.\<close>

datatype call_error = Status_error code string | Handler_error gerror

datatype 'm any = Proto 'm | Other string

record 'm proto =
  FullName :: "'m \<Rightarrow> string"
  MarshalDet :: "'m \<Rightarrow> gerror + bytes"
  IsValid :: "'m \<Rightarrow> bool"
  FindMessageByName :: "string \<Rightarrow> gerror option"
  UnmarshalInto :: "string \<Rightarrow> bytes \<Rightarrow> gerror + 'm"

text \<open>
  Documented behaviour: the encoding of a valid message decodes to it when its type is in the
  registry. Types need not be there (those of \<^verbatim>\<open>dynamicpb\<close> are not), and the look-up then fails.
  Type names are shorter than \<open>2 ^ 64\<close> bytes.
\<close>

locale proto_library =
  fixes PB :: "'m proto"
  assumes decodes: "IsValid PB m \<Longrightarrow> FindMessageByName PB (FullName PB m) = None \<Longrightarrow> MarshalDet PB m = Inr b \<Longrightarrow> UnmarshalInto PB (FullName PB m) b = Inr m"
    and name_length: "IsValid PB m \<Longrightarrow> length (FullName PB m) < 2 ^ 64"

subsection \<open>Keys and fingerprints\<close>

record grpc_ctx =
  gc_md :: "(string \<times> string list) list option"

definition validateKey :: "string \<Rightarrow> gerror + string" where
  "validateKey k =
     (if length k = 0 \<or> length k > 255
      then Inl (Opaque (''grpcidem: idempotency key is '' @ FormatInt (int (length k)) @ '' bytes, want 1-255''))
      else case List.find is_ctl k of
          Some c \<Rightarrow> Inl (Opaque (''grpcidem: idempotency key has control byte 0x'' @ hex2 c))
        | None \<Rightarrow> Inr k)"

definition keyFromContext :: "grpc_ctx \<Rightarrow> gerror + string" where
  "keyFromContext c = (case gc_md c of
       None \<Rightarrow> Inl (Sentinel ErrMetadataKeyMissing)
     | Some md \<Rightarrow> (case (case map_of md MetadataKey of None \<Rightarrow> [] | Some vs \<Rightarrow> vs) of
           [] \<Rightarrow> Inl (Sentinel ErrMetadataKeyMissing)
         | [v] \<Rightarrow> validateKey v
         | vs \<Rightarrow> Inl (Opaque (''grpcidem: '' @ FormatInt (int (length vs)) @ '' idempotency-key entries, want exactly 1''))))"

definition grpc_fingerprint :: "(bytes \<Rightarrow> bytes) \<Rightarrow> string \<Rightarrow> bytes \<Rightarrow> bytes" where
  "grpc_fingerprint sha256 fullMethod reqBytes = sha256 (fullMethod @ [CHR 0x0A] @ reqBytes)"

text \<open>\<^verbatim>\<open>Duration.Round(time.Second)\<close> for a nonnegative duration, and how \<^verbatim>\<open>%s\<close> prints a duration of a second or more.\<close>

definition round_second :: "Duration \<Rightarrow> Duration" where
  "round_second d =
     (let r = d mod Second in
      if r + r < Second then d - r
      else let d1 = wrap64 (d + Second - r) in if d1 > d then d1 else 2 ^ 63 - 1)"

definition retryAfter :: "Duration \<Rightarrow> Duration" where
  "retryAfter d = (if d < Second then Second else round_second d)"

definition pad9 :: "string \<Rightarrow> string" where
  "pad9 ds = replicate (9 - length ds) (CHR ''0'') @ ds"

definition Duration_String :: "Duration \<Rightarrow> string" where
  "Duration_String d =
     (let secs = d div Second; frac = d mod Second;
          h = secs div 3600; m = secs div 60 mod 60; s = secs mod 60;
          tail = FormatInt s @ (if frac = 0 then [] else
            ''.'' @ rev (dropWhile (\<lambda>c. c = CHR ''0'') (rev (pad9 (FormatInt frac))))) @ ''s''
      in if h > 0 then FormatInt h @ ''h'' @ FormatInt m @ ''m'' @ tail
         else if m > 0 then FormatInt m @ ''m'' @ tail else tail)"

subsection \<open>Payloads\<close>

definition encodePayload :: "'m proto \<Rightarrow> 'm \<Rightarrow> gerror + bytes" where
  "encodePayload PB msg = (case MarshalDet PB msg of
       Inl e \<Rightarrow> Inl e
     | Inr body \<Rightarrow> Inr (AppendUvarint [payloadVersion] (length (FullName PB msg)) @ FullName PB msg @ body))"

definition decodePayload :: "'m proto \<Rightarrow> bytes \<Rightarrow> gerror + 'm" where
  "decodePayload PB data = (case data of
       [] \<Rightarrow> Inl (Opaque ''grpcidem: unsupported stored payload version'')
     | v # rest \<Rightarrow>
         if v \<noteq> payloadVersion then Inl (Opaque ''grpcidem: unsupported stored payload version'')
         else let (n, adv) = Uvarint rest in
           if adv \<le> 0 \<or> n > length rest - nat adv then Inl (Opaque ''grpcidem: corrupted stored payload'')
           else let name = take n (drop (nat adv) rest); body = drop (nat adv + n) rest in
             case FindMessageByName PB name of
               Some e \<Rightarrow> Inl (wrap_after (''grpcidem: response type '' @ [CHR 0x22] @ name @ [CHR 0x22] @ '' not found in the proto registry: '') e)
             | None \<Rightarrow> (case UnmarshalInto PB name body of
                   Inl e \<Rightarrow> Inl (wrap_after ''grpcidem: unmarshaling stored response: '' e)
                 | Inr msg \<Rightarrow> Inr msg))"

subsection \<open>Configuration\<close>

record grpc_config =
  g_require :: bool
  g_leaseTTL :: Duration
  g_recordTTL :: Duration
  g_policy :: "gerror option \<Rightarrow> Decision"
  g_failOpen :: bool
  g_keyScope :: "(grpc_ctx \<Rightarrow> string) option"
  g_keyValid :: "(string \<Rightarrow> bool) option"

definition grpc_defaultDecide :: "gerror option \<Rightarrow> Decision" where
  "grpc_defaultDecide err = (if err = None then Persist else Discard)"

definition grpc_default_config :: grpc_config where
  "grpc_default_config = \<lparr>g_require = False, g_leaseTTL = 0, g_recordTTL = 0, g_policy = grpc_defaultDecide,
     g_failOpen = False, g_keyScope = None, g_keyValid = None\<rparr>"

definition gopt_Require :: "bool \<Rightarrow> grpc_config \<Rightarrow> grpc_config" where
  "gopt_Require v c = c\<lparr>g_require := v\<rparr>"

definition gopt_LeaseTTL :: "Duration \<Rightarrow> grpc_config \<Rightarrow> grpc_config" where
  "gopt_LeaseTTL d c = c\<lparr>g_leaseTTL := d\<rparr>"

definition gopt_RecordTTL :: "Duration \<Rightarrow> grpc_config \<Rightarrow> grpc_config" where
  "gopt_RecordTTL d c = c\<lparr>g_recordTTL := d\<rparr>"

definition gopt_Policy :: "(gerror option \<Rightarrow> Decision) \<Rightarrow> grpc_config \<Rightarrow> grpc_config" where
  "gopt_Policy p c = c\<lparr>g_policy := p\<rparr>"

definition gopt_FailOpen :: "bool \<Rightarrow> grpc_config \<Rightarrow> grpc_config" where
  "gopt_FailOpen v c = c\<lparr>g_failOpen := v\<rparr>"

definition gopt_KeyScope :: "(grpc_ctx \<Rightarrow> string) \<Rightarrow> grpc_config \<Rightarrow> grpc_config" where
  "gopt_KeyScope f c = c\<lparr>g_keyScope := Some f\<rparr>"

definition gopt_KeyValidator :: "(string \<Rightarrow> bool) \<Rightarrow> grpc_config \<Rightarrow> grpc_config" where
  "gopt_KeyValidator f c = c\<lparr>g_keyValid := Some f\<rparr>"

definition UnaryServerInterceptor :: "(grpc_config \<Rightarrow> grpc_config) list \<Rightarrow> grpc_config" where
  "UnaryServerInterceptor opts = foldl (\<lambda>c opt. opt c) grpc_default_config opts"

subsection \<open>The interceptor\<close>

record ('m, 's) grpc_world =
  gw_store :: 's
  gw_log :: "(string \<times> (string \<times> string) list) list"
  gw_header :: "(string \<times> string) list"
  gw_calls :: "'m any list"

datatype 'm handler_result = HReturn "'m any" "gerror option" | HPanic

type_synonym ('m, 's) unary_handler = "grpc_ctx \<Rightarrow> 'm any \<Rightarrow> 's \<Rightarrow> 'm handler_result \<times> 's"

text \<open>What a call gives: a response with an error or not, or a panic.\<close>

datatype 'm call_result = CReturn "'m any" "call_error option" | CPanic

record ('s, 'e) grpc_env =
  ge_rnd :: "gerror + bytes"
  ge_begin :: "nat \<Rightarrow> ('s, 'e) attempt_env"
  ge_before_finish :: "'s \<Rightarrow> 's"
  ge_finish :: 'e
  ge_before_release :: "'s \<Rightarrow> 's"
  ge_release :: 'e

definition nil_any :: "'m any" where
  "nil_any = Other ''<nil>''"

definition glog :: "string \<Rightarrow> (string \<times> string) list \<Rightarrow> ('m, 's) grpc_world \<Rightarrow> ('m, 's) grpc_world" where
  "glog msg attrs w = w\<lparr>gw_log := gw_log w @ [(msg, attrs)]\<rparr>"

definition gstore :: "('s \<Rightarrow> 'r \<times> 's) \<Rightarrow> ('m, 's) grpc_world \<Rightarrow> 'r \<times> ('m, 's) grpc_world" where
  "gstore f w = (let (x, s') = f (gw_store w) in (x, w\<lparr>gw_store := s'\<rparr>))"

definition grpc_keyAttrs :: "string \<Rightarrow> string \<Rightarrow> (string \<times> string) list" where
  "grpc_keyAttrs scope key = [(''idempotency_key'', key)] @ (if scope \<noteq> [] then [(''idempotency_scope'', scope)] else [])"

text \<open>\<^verbatim>\<open>handler(ctx, req)\<close>.\<close>

definition call_handler :: "('m, 's) unary_handler \<Rightarrow> grpc_ctx \<Rightarrow> 'm any \<Rightarrow> ('m, 's) grpc_world \<Rightarrow>
    'm handler_result \<times> ('m, 's) grpc_world" where
  "call_handler h c req w = (let (x, w') = gstore (h c req) w in (x, w'\<lparr>gw_calls := gw_calls w' @ [req]\<rparr>))"

definition pass_through :: "('m, 's) unary_handler \<Rightarrow> grpc_ctx \<Rightarrow> 'm any \<Rightarrow> ('m, 's) grpc_world \<Rightarrow>
    'm call_result \<times> ('m, 's) grpc_world" where
  "pass_through h c req w = (case call_handler h c req w of
       (HReturn resp herr, w') \<Rightarrow> (CReturn resp (map_option Handler_error herr), w')
     | (HPanic, w') \<Rightarrow> (CPanic, w'))"

definition payloadToPersist :: "'m proto \<Rightarrow> grpc_config \<Rightarrow> 'm any \<Rightarrow> gerror option \<Rightarrow> (string \<times> string) list \<Rightarrow>
    ('m, 's) grpc_world \<Rightarrow> bytes option \<times> ('m, 's) grpc_world" where
  "payloadToPersist PB cfg resp herr attrs w =
     (if herr \<noteq> None \<or> g_policy cfg herr \<noteq> Persist then (None, w)
      else case resp of
          Other _ \<Rightarrow> (None, w)
        | Proto msg \<Rightarrow>
            if \<not> IsValid PB msg then (None, w)
            else (case encodePayload PB msg of
                Inl e \<Rightarrow> (None, glog ''grpcidem: encoding response failed; discarding'' (attrs @ [(''error'', Error e)]) w)
              | Inr p \<Rightarrow> (Some p, w)))"

definition reportFinish :: "('s, 'e) Store \<Rightarrow> ('s, 'e) grpc_env \<Rightarrow> (string \<times> string) list \<Rightarrow> bool \<Rightarrow> gerror option \<Rightarrow>
    string \<Rightarrow> string \<Rightarrow> Options \<Rightarrow> ('m, 's) grpc_world \<Rightarrow> ('m, 's) grpc_world" where
  "reportFinish S env attrs leaseLost ferr storeKey token o' w = (case ferr of
       Some e \<Rightarrow>
         (let w1 = glog ''grpcidem: persisting response failed; idempotency temporarily weakened'' (attrs @ [(''error'', Error e)]) w;
              ((_, rerr), w2) = gstore (\<lambda>s. Finish S (ge_release env) storeKey token Discard [] o' (ge_before_release env s)) w1
          in case rerr of
               Some re \<Rightarrow> glog ''grpcidem: best-effort release failed; key stays reserved until lease expiry'' (attrs @ [(''error'', Error re)]) w2
             | None \<Rightarrow> w2)
     | None \<Rightarrow>
         if leaseLost then glog ''grpcidem: lease lost during execution; response returned but not stored for replay''
             (attrs @ [(''event'', ''lease_lost'')]) w
         else w)"

text \<open>The release of a reservation, after a panic or for an outcome that is not stored.\<close>

definition release_or_log :: "('s, 'e) Store \<Rightarrow> ('s, 'e) grpc_env \<Rightarrow> (string \<times> string) list \<Rightarrow> string \<Rightarrow> string \<Rightarrow>
    string \<Rightarrow> Options \<Rightarrow> ('m, 's) grpc_world \<Rightarrow> ('m, 's) grpc_world" where
  "release_or_log S env attrs msg storeKey token o' w =
     (let ((_, ferr), w1) = gstore (\<lambda>s. Finish S (ge_finish env) storeKey token Discard [] o' (ge_before_finish env s)) w
      in case ferr of Some e \<Rightarrow> glog msg (attrs @ [(''error'', Error e)]) w1 | None \<Rightarrow> w1)"

definition runHandler :: "'m proto \<Rightarrow> ('s, 'e) Store \<Rightarrow> grpc_config \<Rightarrow> ('s, 'e) grpc_env \<Rightarrow> ('m, 's) unary_handler \<Rightarrow>
    grpc_ctx \<Rightarrow> 'm any \<Rightarrow> (string \<times> string) list \<Rightarrow> string \<Rightarrow> string \<Rightarrow> Options \<Rightarrow> ('m, 's) grpc_world \<Rightarrow>
    'm call_result \<times> ('m, 's) grpc_world" where
  "runHandler PB S cfg env h c req attrs storeKey token o' w = (case call_handler h c req w of
       (HPanic, w1) \<Rightarrow> (CPanic, release_or_log S env attrs
          ''grpcidem: releasing reservation after handler panic failed'' storeKey token o' w1)
     | (HReturn resp herr, w1) \<Rightarrow>
         (case payloadToPersist PB cfg resp herr attrs w1 of
            (Some payload, w2) \<Rightarrow>
              (let ((leaseLost, ferr), w3) = gstore (\<lambda>s. Finish S (ge_finish env) storeKey token Persist payload o'
                     (ge_before_finish env s)) w2
               in (CReturn resp (map_option Handler_error herr), reportFinish S env attrs leaseLost ferr storeKey token o' w3))
          | (None, w2) \<Rightarrow> (CReturn resp (map_option Handler_error herr), release_or_log S env attrs
              ''grpcidem: releasing reservation failed; key stays reserved until lease expiry'' storeKey token o' w2)))"

definition grpc_replay :: "'m proto \<Rightarrow> (string \<times> string) list \<Rightarrow> bytes \<Rightarrow> ('m, 's) grpc_world \<Rightarrow>
    'm call_result \<times> ('m, 's) grpc_world" where
  "grpc_replay PB attrs payload w = (case decodePayload PB payload of
       Inl e \<Rightarrow> (CReturn nil_any (Some (Status_error Internal ''grpcidem: corrupted stored response'')),
                 glog ''grpcidem: stored response payload is corrupted'' (attrs @ [(''error'', Error e)]) w)
     | Inr msg \<Rightarrow> (CReturn (Proto msg) None, w\<lparr>gw_header := gw_header w @ [(ReplayedMetadataKey, ''true'')]\<rparr>))"

definition grpc_scope :: "grpc_config \<Rightarrow> grpc_ctx \<Rightarrow> string" where
  "grpc_scope cfg c = (case g_keyScope cfg of None \<Rightarrow> [] | Some f \<Rightarrow> f c)"

definition grpc_options :: "grpc_config \<Rightarrow> Options" where
  "grpc_options cfg = \<lparr>LeaseTTL = g_leaseTTL cfg, RecordTTL = g_recordTTL cfg\<rparr>"

text \<open>From the request's encoding on.\<close>

definition intercept_keyed :: "(bytes \<Rightarrow> bytes) \<Rightarrow> 'm proto \<Rightarrow> ('s, 'e) Store \<Rightarrow> grpc_config \<Rightarrow> ('s, 'e) grpc_env \<Rightarrow>
    string \<Rightarrow> ('m, 's) unary_handler \<Rightarrow> grpc_ctx \<Rightarrow> 'm any \<Rightarrow> string \<Rightarrow> bytes \<Rightarrow> ('m, 's) grpc_world \<Rightarrow>
    'm call_result \<times> ('m, 's) grpc_world" where
  "intercept_keyed sha256 PB S cfg env fullMethod h c req key reqBytes w =
     (let fp = grpc_fingerprint sha256 fullMethod reqBytes;
          scope = grpc_scope cfg c; storeKey = scoped_key scope key;
          attrs = grpc_keyAttrs scope key; o' = grpc_options cfg;
          (res, w1) = gstore (Begin S (ge_rnd env) (ge_begin env) storeKey fp o') w
      in case res of
           Inl err \<Rightarrow>
             if g_failOpen cfg then pass_through h c req
               (glog ''grpcidem: store unavailable; proceeding without idempotency (FailOpen)'' (attrs @ [(''error'', Error err)]) w1)
             else (CReturn nil_any (Some (Status_error Unavailable ''grpcidem: idempotency store is unavailable'')), w1)
         | Inr out \<Rightarrow>
             (case Action out of
                Replay \<Rightarrow> grpc_replay PB attrs (OutPayload out) w1
              | RejectInFlight \<Rightarrow> (CReturn nil_any (Some (Status_error Aborted
                  (''grpcidem: a request with this idempotency key is in flight; retry after '' @
                    Duration_String (retryAfter (RetryAfter out))))), w1)
              | RejectFingerprintMismatch \<Rightarrow> (CReturn nil_any (Some (Status_error FailedPrecondition
                  ''grpcidem: idempotency key was already used with a different request'')), w1)
              | Proceed \<Rightarrow> runHandler PB S cfg env h c req attrs storeKey (OutToken out) o' w1))"

definition intercept :: "(bytes \<Rightarrow> bytes) \<Rightarrow> 'm proto \<Rightarrow> ('s, 'e) Store \<Rightarrow> grpc_config \<Rightarrow> ('s, 'e) grpc_env \<Rightarrow>
    string \<Rightarrow> ('m, 's) unary_handler \<Rightarrow> grpc_ctx \<Rightarrow> 'm any \<Rightarrow> ('m, 's) grpc_world \<Rightarrow>
    'm call_result \<times> ('m, 's) grpc_world" where
  "intercept sha256 PB S cfg env fullMethod h c req w = (case keyFromContext c of
       Inl err \<Rightarrow>
         if errors_Is err ErrMetadataKeyMissing \<and> \<not> g_require cfg then pass_through h c req w
         else (CReturn nil_any (Some (Status_error InvalidArgument (Error err))), w)
     | Inr key \<Rightarrow>
         if (case g_keyValid cfg of None \<Rightarrow> False | Some f \<Rightarrow> \<not> f key)
         then (CReturn nil_any (Some (Status_error InvalidArgument ''grpcidem: idempotency key rejected by validator'')), w)
         else (case req of
             Other ty \<Rightarrow> (CReturn nil_any (Some (Status_error Internal
               (''grpcidem: request is not a proto.Message ('' @ ty @ '')''))), w)
           | Proto reqMsg \<Rightarrow> (case MarshalDet PB reqMsg of
                 Inl e \<Rightarrow> (CReturn nil_any (Some (Status_error Internal (''grpcidem: marshaling request: '' @ Error e))), w)
               | Inr reqBytes \<Rightarrow> intercept_keyed sha256 PB S cfg env fullMethod h c req key reqBytes w)))"

subsection \<open>Keys\<close>

lemma validateKey_iff: "validateKey k = Inr k' \<longleftrightarrow> k' = k \<and> valid_key k"
  by (auto simp: validateKey_def valid_key_def find_None_iff find_Some_iff Suc_le_eq split: option.splits if_splits)

lemma keyFromContext_valid: "keyFromContext c = Inr k \<Longrightarrow> valid_key k"
  by (auto simp: keyFromContext_def validateKey_iff split: option.splits list.splits)

interpretation gk: key_grammar keyFromContext
  by unfold_locales (simp add: valid_key_no_nul keyFromContext_valid)

subsection \<open>Calls over the contract\<close>

text \<open>A call that reaches \<open>Begin\<close>, with its key and the encoding of its request.\<close>

definition grpc_accepted :: "'m proto \<Rightarrow> grpc_config \<Rightarrow> grpc_ctx \<Rightarrow> 'm any \<Rightarrow> string \<Rightarrow> bytes \<Rightarrow> bool" where
  "grpc_accepted PB cfg c req key b \<longleftrightarrow> keyFromContext c = Inr key \<and>
     (case g_keyValid cfg of None \<Rightarrow> True | Some f \<Rightarrow> f key) \<and> (\<exists>m. req = Proto m \<and> MarshalDet PB m = Inr b)"

lemma intercept_accepted:
  "grpc_accepted PB cfg c req key b \<Longrightarrow>
     intercept sha256 PB S cfg env fullMethod h c req w = intercept_keyed sha256 PB S cfg env fullMethod h c req key b w"
  by (auto simp: grpc_accepted_def intercept_def split: option.splits)

lemma call_handler_cases:
  "h c req (gw_store w) = (x, s') \<Longrightarrow>
     call_handler h c req w = (x, w\<lparr>gw_store := s', gw_calls := gw_calls w @ [req]\<rparr>)"
  by (simp add: call_handler_def gstore_def)

text \<open>Other calls keep a property of the store between the steps of a call.\<close>

definition genv_keeps :: "('s \<Rightarrow> bool) \<Rightarrow> ('s, 'e) grpc_env \<Rightarrow> bool" where
  "genv_keeps P env \<longleftrightarrow> (\<forall>n s. P s \<longrightarrow> P (at_between (ge_begin env n) s)) \<and>
     (\<forall>s. P s \<longrightarrow> P (ge_before_finish env s)) \<and> (\<forall>s. P s \<longrightarrow> P (ge_before_release env s))"

locale grpc_client = lease_store S sinv sview sclock up grant keep rebuilt + proto_library PB
  for S :: "('s, 'e) Store" and sinv sview sclock up grant keep rebuilt and PB :: "'m proto"
begin

text \<open>
  A stored message is read back when its type is registered; one whose type is not was stored all
  the same, and cannot be read.
\<close>

lemma decode_encode:
  assumes "IsValid PB m" "encodePayload PB m = Inr p"
  shows "FindMessageByName PB (FullName PB m) = None \<Longrightarrow> decodePayload PB p = Inr m"
    and "FindMessageByName PB (FullName PB m) = Some e \<Longrightarrow> \<exists>err. decodePayload PB p = Inl err"
proof -
  obtain b where b: "MarshalDet PB m = Inr b"
    "p = payloadVersion # uvarint_bytes (length (FullName PB m)) @ FullName PB m @ b"
    using assms(2) by (auto simp: encodePayload_def AppendUvarint_def split: sum.splits)
  note len = Uvarint_roundtrip [OF name_length [OF assms(1)], of "FullName PB m @ b"]
  show "decodePayload PB p = Inr m" if "FindMessageByName PB (FullName PB m) = None"
    using len that decodes [OF assms(1) that b(1)] by (simp add: decodePayload_def b(2))
  show "\<exists>err. decodePayload PB p = Inl err" if "FindMessageByName PB (FullName PB m) = Some e"
    using len that by (simp add: decodePayload_def b(2))
qed

text \<open>A handler that succeeds with a storable message: the message is stored.\<close>

lemma grpc_persists:
  assumes "h c req (gw_store w) = (HReturn (Proto m) None, s1)" "g_policy cfg None = Persist" "IsValid PB m"
    and "encodePayload PB m = Inr p"
    and "sinv (ge_before_finish env s1)" "up (ge_finish env)" "sclock (ge_finish env) \<le> t"
    and "held_by (sview (sclock (ge_finish env)) (ge_before_finish env s1)) k tok l"
  obtains s' where "runHandler PB S cfg env h c req attrs k tok opts w =
      (CReturn (Proto m) None, w\<lparr>gw_store := s', gw_calls := gw_calls w @ [req]\<rparr>)"
    "sinv s'" "sview t s' = live_at t ((sview (sclock (ge_finish env)) (ge_before_finish env s1))
        (k := Some (completed_lease l p (keep (ge_finish env) (recordTTL opts)))))"
proof -
  obtain res s' where F: "Finish S (ge_finish env) k tok Persist p opts (ge_before_finish env s1) = (res, s')"
    by (meson surj_pair)
  note f = finish_persists [OF assms(5,6,8,7) F]
  have "runHandler PB S cfg env h c req attrs k tok opts w =
      (CReturn (Proto m) None, w\<lparr>gw_store := s', gw_calls := gw_calls w @ [req]\<rparr>)"
    using F f(1) call_handler_cases [of h c req w, OF assms(1)] assms(2-4)
    by (simp add: runHandler_def payloadToPersist_def gstore_def reportFinish_def)
  with that f(2,3) show thesis by blast
qed

text \<open>A handler that fails or panics: nothing is stored, and the key is free again.\<close>

lemma grpc_discards:
  assumes "h c req (gw_store w) = (x, s1)" "x = HPanic \<or> x = HReturn resp (Some e)"
    and "sinv (ge_before_finish env s1)" "up (ge_finish env)" "sclock (ge_finish env) \<le> t"
    and "held_by (sview (sclock (ge_finish env)) (ge_before_finish env s1)) k tok l"
  obtains s' y where "runHandler PB S cfg env h c req attrs k tok opts w =
      (y, w\<lparr>gw_store := s', gw_calls := gw_calls w @ [req]\<rparr>)"
    "y = (if x = HPanic then CPanic else CReturn resp (Some (Handler_error e)))"
    "sinv s'" "sview t s' = (sview t (ge_before_finish env s1))(k := None)"
proof -
  obtain res s' where F: "Finish S (ge_finish env) k tok Discard [] opts (ge_before_finish env s1) = (res, s')"
    by (meson surj_pair)
  note f = finish_discards [OF assms(3,4,6,5) F]
  have "\<exists>y. runHandler PB S cfg env h c req attrs k tok opts w =
      (y, w\<lparr>gw_store := s', gw_calls := gw_calls w @ [req]\<rparr>) \<and>
      y = (if x = HPanic then CPanic else CReturn resp (Some (Handler_error e)))"
    using F f(1) call_handler_cases [of h c req w, OF assms(1)] assms(2)
    by (auto simp: runHandler_def payloadToPersist_def gstore_def release_or_log_def)
  with that f(2,3) show thesis by blast
qed

lemma grpc_first:
  assumes "grpc_accepted PB cfg c req key b" "ge_rnd env = Inr rb"
    and k: "k = scoped_key (grpc_scope cfg c) key" and fp: "fp = grpc_fingerprint sha256 fullMethod b"
    and "sinv (at_between (ge_begin env 1) (gw_store w))" "up (at_store (ge_begin env 1))"
    and "sview (sclock (at_store (ge_begin env 1))) (at_between (ge_begin env 1) (gw_store w)) k = None"
  obtains s1 where "Begin S (ge_rnd env) (ge_begin env) k fp (grpc_options cfg) (gw_store w)
      = (Inr (proceed_outcome (EncodeToString rb)), s1)"
    "intercept sha256 PB S cfg env fullMethod h c req w =
      runHandler PB S cfg env h c req (grpc_keyAttrs (grpc_scope cfg c) key) k (EncodeToString rb) (grpc_options cfg) (w\<lparr>gw_store := s1\<rparr>)"
proof -
  obtain r s1 where B: "Begin S (Inr rb) (ge_begin env) k fp (grpc_options cfg) (gw_store w) = (r, s1)" by (meson surj_pair)
  have r: "r = Inr (proceed_outcome (EncodeToString rb))"
    using Begin_first [OF assms(5,6) order_refl _ B] assms(7) by simp
  show thesis
    by (rule that [of s1])
      (use B r assms(2) k fp in \<open>simp_all add: intercept_accepted [OF assms(1)] intercept_keyed_def gstore_def Let_def\<close>)
qed

lemma grpc_retry:
  assumes "grpc_accepted PB cfg c req key b" "ge_rnd env = Inr rb"
    and k: "k = scoped_key (grpc_scope cfg c) key" and fp: "l_fp l = grpc_fingerprint sha256 fullMethod b"
    and "sinv (at_between (ge_begin env 1) (gw_store w))" "up (at_store (ge_begin env 1))"
    and "sview (sclock (at_store (ge_begin env 1))) (at_between (ge_begin env 1) (gw_store w)) k = Some l"
    and "at_check (ge_begin env 1) < rebuilt (at_store (ge_begin env 1)) (l_deadline l)"
    and "l_state l = StateCompleted" "l_payload l = p" "IsValid PB m" "encodePayload PB m = Inr p"
    and "FindMessageByName PB (FullName PB m) = None"
  obtains s1 where "intercept sha256 PB S cfg env fullMethod h c req w =
      (CReturn (Proto m) None, w\<lparr>gw_store := s1, gw_header := gw_header w @ [(ReplayedMetadataKey, ''true'')]\<rparr>)"
proof -
  obtain r s1 where B: "Begin S (Inr rb) (ge_begin env) k (l_fp l) (grpc_options cfg) (gw_store w) = (r, s1)" by (meson surj_pair)
  have r: "r = Inr (replay_outcome p)"
    using Begin_first [OF assms(5,6) order_refl _ B] assms(7-10) by (simp add: decide_def)
  show thesis
    by (rule that [of s1])
      (use B r assms(2) k fp decode_encode(1) [OF assms(11-13)] in
        \<open>simp add: intercept_accepted [OF assms(1)] intercept_keyed_def gstore_def grpc_replay_def Let_def\<close>)
qed

text \<open>Every call keeps the invariant of the store.\<close>

lemma gstore_inv: "sinv (snd (f (gw_store w))) \<Longrightarrow> sinv (gw_store (snd (gstore f w)))"
  by (simp add: gstore_def split_beta)

lemma release_or_log_inv:
  assumes "genv_keeps sinv env" "sinv (gw_store w)"
  shows "sinv (gw_store (release_or_log S env attrs msg k tok opts w))"
  using assms Finish_inv [of "ge_before_finish env (gw_store w)"]
  by (auto simp: release_or_log_def genv_keeps_def gstore_def glog_def split_beta split: option.split)

lemma reportFinish_inv:
  assumes "genv_keeps sinv env" "sinv (gw_store w)"
  shows "sinv (gw_store (reportFinish S env attrs lost ferr k tok opts w))"
  using assms Finish_inv [of "ge_before_release env (gw_store w)"]
  by (auto simp: reportFinish_def genv_keeps_def gstore_def glog_def split_beta Let_def split: option.split)

lemma runHandler_inv:
  assumes "genv_keeps sinv env" "\<And>c req s. sinv s \<Longrightarrow> sinv (snd (h c req s))" "sinv (gw_store w)"
  shows "sinv (gw_store (snd (runHandler PB S cfg env h c req attrs k tok opts w)))"
proof -
  obtain x w1 where H: "call_handler h c req w = (x, w1)" by (meson surj_pair)
  have 1: "sinv (gw_store w1)" using H assms(2) [OF assms(3)] by (auto simp: call_handler_def gstore_def split_beta)
  show ?thesis
  proof (cases x)
    case (HReturn resp herr)
    obtain po w2 where P: "payloadToPersist PB cfg resp herr attrs w1 = (po, w2)" by (meson surj_pair)
    have 2: "gw_store w2 = gw_store w1"
      using P by (auto simp: payloadToPersist_def glog_def split: if_splits any.splits sum.splits)
    have "sinv (snd (Finish S (ge_finish env) k tok Persist p opts (ge_before_finish env (gw_store w2))))" for p
      by (rule Finish_inv) (use assms(1) 1 2 in \<open>simp add: genv_keeps_def\<close>)
    then have "sinv (gw_store (snd (gstore (\<lambda>s. Finish S (ge_finish env) k tok Persist p opts (ge_before_finish env s)) w2)))" for p
      by (rule gstore_inv)
    then show ?thesis
      using H HReturn P 1 2
      by (cases po) (simp_all add: runHandler_def split_beta release_or_log_inv [OF assms(1)] reportFinish_inv [OF assms(1)])
  qed (use H 1 in \<open>simp add: runHandler_def release_or_log_inv [OF assms(1)]\<close>)
qed

lemma intercept_inv:
  assumes "genv_keeps sinv env" "\<And>c req s. sinv s \<Longrightarrow> sinv (snd (h c req s))" "sinv (gw_store w)"
  shows "sinv (gw_store (snd (intercept sha256 PB S cfg env fullMethod h c req w)))"
proof -
  have pass: "sinv (gw_store (snd (pass_through h c req w')))" if "sinv (gw_store w')" for w'
    using assms(2) [OF that] by (auto simp: pass_through_def call_handler_def gstore_def split_beta split: handler_result.split)
  have keyed: "sinv (gw_store (snd (intercept_keyed sha256 PB S cfg env fullMethod h c req key b w)))" for key b
  proof -
    obtain res w1 where B: "gstore (Begin S (ge_rnd env) (ge_begin env) (scoped_key (grpc_scope cfg c) key)
        (grpc_fingerprint sha256 fullMethod b) (grpc_options cfg)) w = (res, w1)" by (meson surj_pair)
    have 1: "sinv (gw_store w1)"
      using B gstore_inv [of "Begin S (ge_rnd env) (ge_begin env) (scoped_key (grpc_scope cfg c) key)
        (grpc_fingerprint sha256 fullMethod b) (grpc_options cfg)" w, OF Begin_inv] assms(1,3)
      by (simp add: genv_keeps_def)
    show ?thesis
    proof (cases res)
      case (Inl err)
      then show ?thesis using B 1 pass by (simp add: intercept_keyed_def Let_def glog_def)
    next
      case (Inr out)
      then show ?thesis using B 1
        by (cases "Action out")
          (simp_all add: intercept_keyed_def Let_def glog_def grpc_replay_def runHandler_inv [OF assms(1,2)] split: sum.split)
    qed
  qed
  show ?thesis using pass [OF assms(3)] keyed assms(3) by (cases req) (simp_all add: intercept_def split: sum.split)
qed

end

end
