(* ===== verification/Grpc_Deployment.thy ===== *)
theory Grpc_Deployment
  imports Memstore Grpc_Interceptor
begin

section \<open>The interceptor over a store\<close>

text \<open>
  The interceptor's exchanges over every store that keeps the contract and every protocol buffer
  library that behaves as documented, with a small library and the in-memory store as the
  instance on which they are exercised.
\<close>

text \<open>Messages as a type name with the bytes of the fields; the registry holds the types of the package \<open>pay\<close>.\<close>

definition reference_proto :: "(string \<times> bytes) proto" where
  "reference_proto = \<lparr>FullName = fst, MarshalDet = (\<lambda>m. Inr (snd m)), IsValid = (\<lambda>m. length (fst m) \<le> 255),
     FindMessageByName = (\<lambda>name. if take 4 name = ''pay.'' then None else Some (Opaque ''proto: not found'')),
     UnmarshalInto = (\<lambda>name b. Inr (name, b))\<rparr>"

interpretation rp: proto_library reference_proto
  by unfold_locales (auto simp: reference_proto_def)

interpretation mg: grpc_client mem_Store mem_inv mem_view "\<lambda>now. now" "\<lambda>_. True"
  "\<lambda>_ r. LeaseExpiresAt r" "\<lambda>now ttl. now + ttl" "\<lambda>_ d. d" reference_proto
  by unfold_locales

definition demo_gctx :: grpc_ctx where
  "demo_gctx = \<lparr>gc_md = Some [(''idempotency-key'', [''k1''])]\<rparr>"

definition demo_genv :: "Time \<Rightarrow> (memstore, Time) grpc_env" where
  "demo_genv t = \<lparr>ge_rnd = Inr ''ab'',
     ge_begin = (\<lambda>_. \<lparr>at_between = id, at_deadline = t, at_store = t, at_check = t\<rparr>),
     ge_before_finish = id, ge_finish = t + 1, ge_before_release = id, ge_release = t + 1\<rparr>"

definition demo_gworld :: "memstore \<Rightarrow> (string \<times> bytes, memstore) grpc_world" where
  "demo_gworld s = \<lparr>gw_store = s, gw_log = [], gw_header = [], gw_calls = []\<rparr>"

definition demo_unary :: "'m \<Rightarrow> ('m, memstore) unary_handler" where
  "demo_unary m c req s = (HReturn (Proto m) None, s)"

lemma demo_genv_sel [simp]:
  "ge_rnd (demo_genv t) = Inr ''ab''" "ge_begin (demo_genv t) n = \<lparr>at_between = id, at_deadline = t, at_store = t, at_check = t\<rparr>"
  "ge_before_finish (demo_genv t) = id" "ge_finish (demo_genv t) = t + 1" "gw_store (demo_gworld s) = s" "gw_calls (demo_gworld s) = []"
  by (simp_all add: demo_genv_def demo_gworld_def)

lemma demo_gaccepted: "grpc_accepted reference_proto grpc_default_config demo_gctx (Proto (''pay.Req'', ''x'')) ''k1'' ''x''"
  by (simp add: grpc_accepted_def grpc_default_config_def reference_proto_def demo_gctx_def keyFromContext_def MetadataKey_def
      validateKey_def is_ctl_def)

lemma demo_gBegin: "snd (Begin mem_Store (Inr ''ab'') (ge_begin (demo_genv 0)) k fp opts mem_New) =
   \<lparr>recs = [k \<mapsto> reservation_of k fp (EncodeToString ''ab'') opts 0]\<rparr>"
  by (simp add: demo_genv_def Begin_def newToken_def begin_loop.simps begin_attempt_def mem_Reserve_def mem_lookup_def mem_New_def)

lemma demo_gopts: "leaseTTL (grpc_options grpc_default_config) = 30000000000" "recordTTL (grpc_options grpc_default_config) = 86400000000000"
  by code_simp+

lemma demo_gpolicy: "g_policy grpc_default_config None = Persist"
  by (simp add: grpc_default_config_def grpc_defaultDecide_def)

lemma demo_gvalid: "IsValid reference_proto (''pay.Resp'', b)"
  by (simp add: reference_proto_def)

lemma demo_gregistered: "FindMessageByName reference_proto (FullName reference_proto (''pay.Resp'', b)) = None"
  by (simp add: reference_proto_def)

lemma demo_genv_keeps: "genv_keeps P (demo_genv t)"
  by (simp add: genv_keeps_def demo_genv_def)

subsection \<open>Properties\<close>

text \<open>
  (C19) A call whose handler succeeds within its lease, with a message of a registered type and under a
  policy that persists successes, is executed once: for the rest of the record's
  life every call of the same method with the same key and an equal request gets the same
  response message, marked as replayed, and its handler is not called.
\<close>

theorem grpc_retry_replays:
  assumes store: "lease_store S sinv sview sclock up grant keep rebuilt" and lib: "proto_library PB"
    and first: "grpc_accepted PB cfg c req key b" "ge_rnd env = Inr rb"
    and k: "k = scoped_key (grpc_scope cfg c) key" and fp: "fp = grpc_fingerprint sha256 fullMethod b"
    and free: "sinv (at_between (ge_begin env 1) (gw_store w))" "up (at_store (ge_begin env 1))"
      "sview (sclock (at_store (ge_begin env 1))) (at_between (ge_begin env 1) (gw_store w)) k = None"
    and s1: "s1 = snd (Begin S (ge_rnd env) (ge_begin env) k fp (grpc_options cfg) (gw_store w))"
    and ok: "h c req s1 = (HReturn (Proto m) None, s2)" "g_policy cfg None = Persist" "IsValid PB m" "encodePayload PB m = Inr p"
    and reg: "FindMessageByName PB (FullName PB m) = None"
    and fin: "sinv (ge_before_finish env s2)" "up (ge_finish env)"
      "held_by (sview (sclock (ge_finish env)) (ge_before_finish env s2)) k (EncodeToString rb) l" "l_fp l = fp"
    and call: "intercept sha256 PB S cfg env fullMethod h c req w = (res, w1)"
    and retry: "grpc_accepted PB cfg c' req' key b" "grpc_scope cfg c' = grpc_scope cfg c" "ge_rnd env' = Inr rb'"
    and t': "t' = sclock (at_store (ge_begin env' 1))" "sclock (ge_finish env) \<le> t'"
      "t' < keep (ge_finish env) (recordTTL (grpc_options cfg))"
      "at_check (ge_begin env' 1) < rebuilt (at_store (ge_begin env' 1)) (keep (ge_finish env) (recordTTL (grpc_options cfg)))"
    and kept: "sinv (at_between (ge_begin env' 1) (gw_store w'))" "up (at_store (ge_begin env' 1))"
      "sview t' (at_between (ge_begin env' 1) (gw_store w')) k = sview t' (gw_store w1) k"
  shows "res = CReturn (Proto m) None \<and> gw_calls w1 = gw_calls w @ [req] \<and>
    (\<exists>w2. intercept sha256 PB S cfg env' fullMethod h' c' req' w' = (CReturn (Proto m) None, w2) \<and>
       gw_calls w2 = gw_calls w' \<and> (ReplayedMetadataKey, ''true'') \<in> set (gw_header w2))"
proof -
  have client: "grpc_client S sinv sview sclock up grant keep rebuilt PB" by (rule grpc_client.intro [OF store lib])
  let ?attrs = "grpc_keyAttrs (grpc_scope cfg c) key" and ?o = "grpc_options cfg"
  have run: "intercept sha256 PB S cfg env fullMethod h c req w =
      runHandler PB S cfg env h c req ?attrs k (EncodeToString rb) ?o (w\<lparr>gw_store := s1\<rparr>)"
    by (rule grpc_client.grpc_first [OF client first k fp free, of h]) (simp add: s1)
  let ?l' = "completed_lease l p (keep (ge_finish env) (recordTTL ?o))"
  obtain s' where P: "runHandler PB S cfg env h c req ?attrs k (EncodeToString rb) ?o (w\<lparr>gw_store := s1\<rparr>) =
      (CReturn (Proto m) None, w\<lparr>gw_store := s', gw_calls := gw_calls w @ [req]\<rparr>)"
    "sview t' s' = live_at t' ((sview (sclock (ge_finish env)) (ge_before_finish env s2))(k := Some ?l'))"
    using grpc_client.grpc_persists [OF client, where w = "w\<lparr>gw_store := s1\<rparr>" and h = h, simplified, OF ok fin(1,2) t'(2) fin(3)] by metis
  have w1: "res = CReturn (Proto m) None" "w1 = w\<lparr>gw_store := s', gw_calls := gw_calls w @ [req]\<rparr>"
    using call run P(1) by simp_all
  have found: "sview t' (at_between (ge_begin env' 1) (gw_store w')) k = Some ?l'"
    using kept(3) w1(2) P(2) t'(3) by (simp add: live_at_def)
  have k': "k = scoped_key (grpc_scope cfg c') key" using k retry(2) by simp
  obtain s3 where "intercept sha256 PB S cfg env' fullMethod h' c' req' w' = (CReturn (Proto m) None,
      w'\<lparr>gw_store := s3, gw_header := gw_header w' @ [(ReplayedMetadataKey, ''true'')]\<rparr>)"
    by (rule grpc_client.grpc_retry [OF client retry(1,3) k' _ kept(1,2) found [unfolded t'(1)] _ _ _ ok(3,4) reg, of sha256 fullMethod h'])
      (use fin(4) fp t'(4) in simp_all)
  with w1 show ?thesis by simp
qed

theorem grpc_retry_replays_witness:
  "\<exists>w1 w2. intercept (\<lambda>x. x) reference_proto mem_Store grpc_default_config (demo_genv 0) ''/pay.Pay/Charge''
       (demo_unary (''pay.Resp'', ''ok'')) demo_gctx (Proto (''pay.Req'', ''x'')) (demo_gworld mem_New) =
       (CReturn (Proto (''pay.Resp'', ''ok'')) None, w1) \<and>
     intercept (\<lambda>x. x) reference_proto mem_Store grpc_default_config (demo_genv 10) ''/pay.Pay/Charge''
       (demo_unary (''pay.Resp'', ''other'')) demo_gctx (Proto (''pay.Req'', ''x'')) (demo_gworld (gw_store w1)) =
       (CReturn (Proto (''pay.Resp'', ''ok'')) None, w2) \<and> gw_calls w2 = []"
proof -
  let ?h = "demo_unary (''pay.Resp'', ''ok'')" and ?req = "Proto (''pay.Req'', ''x'')"
  let ?fp = "grpc_fingerprint (\<lambda>x. x) ''/pay.Pay/Charge'' ''x''" and ?k = "scoped_key (grpc_scope grpc_default_config demo_gctx) ''k1''"
  let ?s1 = "snd (Begin mem_Store (ge_rnd (demo_genv 0)) (ge_begin (demo_genv 0)) ?k ?fp (grpc_options grpc_default_config) (gw_store (demo_gworld mem_New)))"
  let ?rc = "reservation_of ?k ?fp (EncodeToString ''ab'') (grpc_options grpc_default_config) 0"
  have s1: "?s1 = \<lparr>recs = [?k \<mapsto> ?rc]\<rparr>" by (simp only: demo_genv_sel demo_gBegin)
  obtain res w1 where call: "intercept (\<lambda>x. x) reference_proto mem_Store grpc_default_config (demo_genv 0) ''/pay.Pay/Charge''
      ?h demo_gctx ?req (demo_gworld mem_New) = (res, w1)" by (meson surj_pair)
  obtain p where p: "encodePayload reference_proto (''pay.Resp'', ''ok'') = Inr p"
    by (simp add: encodePayload_def reference_proto_def)
  have h: "?h demo_gctx ?req ?s1 = (HReturn (Proto (''pay.Resp'', ''ok'')) None, ?s1)" by (simp only: demo_unary_def)
  have held: "held_by (mem_view (ge_finish (demo_genv 0)) (ge_before_finish (demo_genv 0) ?s1)) ?k (EncodeToString ''ab'') (lease_of ?rc)"
    unfolding s1 by (simp add: held_by_def mem_view_def Expired_def demo_gopts)
  have inv: "mem_inv ?s1" unfolding s1 by (simp add: mem_inv_def)
  have inv1: "mem_inv (gw_store w1)"
    using mg.intercept_inv [of "demo_genv 0" ?h "demo_gworld mem_New" "\<lambda>x. x" grpc_default_config "''/pay.Pay/Charge''" demo_gctx ?req] call
    by (simp add: demo_genv_keeps demo_unary_def mem_inv_New)
  have "res = CReturn (Proto (''pay.Resp'', ''ok'')) None \<and> gw_calls w1 = gw_calls (demo_gworld mem_New) @ [?req] \<and>
    (\<exists>w2. intercept (\<lambda>x. x) reference_proto mem_Store grpc_default_config (demo_genv 10) ''/pay.Pay/Charge''
       (demo_unary (''pay.Resp'', ''other'')) demo_gctx ?req (demo_gworld (gw_store w1)) = (CReturn (Proto (''pay.Resp'', ''ok'')) None, w2) \<and>
       gw_calls w2 = gw_calls (demo_gworld (gw_store w1)) \<and> (ReplayedMetadataKey, ''true'') \<in> set (gw_header w2))"
    by (rule grpc_retry_replays [OF ms.lease_store_axioms rp.proto_library_axioms demo_gaccepted demo_genv_sel(1) refl refl _ TrueI _ refl h
          demo_gpolicy _ p demo_gregistered _ TrueI held _ call demo_gaccepted refl demo_genv_sel(1) refl])
      (simp_all add: inv [unfolded demo_genv_sel(1,5)] inv1 mem_inv_New mem_view_New demo_gopts demo_gvalid del: demo_genv_sel(2),
       simp_all add: demo_gopts mem_inv_New mem_view_New inv1)
  then show ?thesis using call by auto
qed

text \<open>
  (C20) A handler that returns an error or panics: the error or the panic reaches the caller,
  nothing is stored, and the key is free again.
\<close>

theorem grpc_failures_not_stored:
  assumes store: "lease_store S sinv sview sclock up grant keep rebuilt" and lib: "proto_library PB"
    and call: "grpc_accepted PB cfg c req key b" "ge_rnd env = Inr rb"
    and k: "k = scoped_key (grpc_scope cfg c) key" and fp: "fp = grpc_fingerprint sha256 fullMethod b"
    and free: "sinv (at_between (ge_begin env 1) (gw_store w))" "up (at_store (ge_begin env 1))"
      "sview (sclock (at_store (ge_begin env 1))) (at_between (ge_begin env 1) (gw_store w)) k = None"
    and s1: "s1 = snd (Begin S (ge_rnd env) (ge_begin env) k fp (grpc_options cfg) (gw_store w))"
    and fails: "h c req s1 = (x, s2)" "x = HPanic \<or> x = HReturn resp (Some e)"
    and fin: "sinv (ge_before_finish env s2)" "up (ge_finish env)" "sclock (ge_finish env) \<le> t"
      "held_by (sview (sclock (ge_finish env)) (ge_before_finish env s2)) k (EncodeToString rb) l"
  shows "\<exists>y w'. intercept sha256 PB S cfg env fullMethod h c req w = (y, w') \<and>
    y = (if x = HPanic then CPanic else CReturn resp (Some (Handler_error e))) \<and>
    sview t (gw_store w') = (sview t (ge_before_finish env s2))(k := None)"
proof -
  have client: "grpc_client S sinv sview sclock up grant keep rebuilt PB" by (rule grpc_client.intro [OF store lib])
  have run: "intercept sha256 PB S cfg env fullMethod h c req w = runHandler PB S cfg env h c req
      (grpc_keyAttrs (grpc_scope cfg c) key) k (EncodeToString rb) (grpc_options cfg) (w\<lparr>gw_store := s1\<rparr>)"
    by (rule grpc_client.grpc_first [OF client call k fp free, of h]) (simp add: s1)
  obtain s' y where "runHandler PB S cfg env h c req (grpc_keyAttrs (grpc_scope cfg c) key) k (EncodeToString rb)
      (grpc_options cfg) (w\<lparr>gw_store := s1\<rparr>) = (y, w\<lparr>gw_store := s', gw_calls := gw_calls w @ [req]\<rparr>)"
    "y = (if x = HPanic then CPanic else CReturn resp (Some (Handler_error e)))"
    "sview t s' = (sview t (ge_before_finish env s2))(k := None)"
    using grpc_client.grpc_discards [OF client, where w = "w\<lparr>gw_store := s1\<rparr>" and h = h, simplified, OF fails fin] by metis
  with run show ?thesis by simp
qed

definition failing_unary :: "('m, memstore) unary_handler" where
  "failing_unary c req s = (HReturn nil_any (Some (Opaque ''declined'')), s)"

theorem grpc_failures_not_stored_witness:
  "\<exists>y w'. intercept (\<lambda>x. x) reference_proto mem_Store grpc_default_config (demo_genv 0) ''/pay.Pay/Charge''
     failing_unary demo_gctx (Proto (''pay.Req'', ''x'')) (demo_gworld mem_New) = (y, w') \<and>
     y = CReturn nil_any (Some (Handler_error (Opaque ''declined''))) \<and>
     mem_view 1 (gw_store w') (scoped_key (grpc_scope grpc_default_config demo_gctx) ''k1'') = None"
proof -
  let ?req = "Proto (''pay.Req'', ''x'')"
  let ?fp = "grpc_fingerprint (\<lambda>x. x) ''/pay.Pay/Charge'' ''x''" and ?k = "scoped_key (grpc_scope grpc_default_config demo_gctx) ''k1''"
  let ?s1 = "snd (Begin mem_Store (ge_rnd (demo_genv 0)) (ge_begin (demo_genv 0)) ?k ?fp (grpc_options grpc_default_config) (gw_store (demo_gworld mem_New)))"
  let ?rc = "reservation_of ?k ?fp (EncodeToString ''ab'') (grpc_options grpc_default_config) 0"
  have s1: "?s1 = \<lparr>recs = [?k \<mapsto> ?rc]\<rparr>" by (simp only: demo_genv_sel demo_gBegin)
  have h: "failing_unary demo_gctx ?req ?s1 = (HReturn nil_any (Some (Opaque ''declined'')), ?s1)" by (simp only: failing_unary_def)
  have held: "held_by (mem_view (ge_finish (demo_genv 0)) (ge_before_finish (demo_genv 0) ?s1)) ?k (EncodeToString ''ab'') (lease_of ?rc)"
    unfolding s1 by (simp add: held_by_def mem_view_def Expired_def demo_gopts)
  have inv: "mem_inv (ge_before_finish (demo_genv 0) ?s1)" unfolding s1 by (simp add: mem_inv_def)
  have free: "mem_inv (at_between (ge_begin (demo_genv 0) 1) (gw_store (demo_gworld mem_New)))"
    "mem_view (at_store (ge_begin (demo_genv 0) 1)) (at_between (ge_begin (demo_genv 0) 1) (gw_store (demo_gworld mem_New))) ?k = None"
    by (simp_all add: mem_inv_New mem_view_New)
  have "ge_finish (demo_genv 0) \<le> 1" by simp
  from grpc_failures_not_stored [where h = failing_unary and w = "demo_gworld mem_New" and env = "demo_genv 0"
      and fullMethod = "''/pay.Pay/Charge''", OF ms.lease_store_axioms rp.proto_library_axioms demo_gaccepted demo_genv_sel(1) refl refl
      free(1) TrueI free(2) refl h disjI2 [OF refl] inv TrueI this held]
  show ?thesis by auto
qed

end
