(* ===== verification/Grpc_System.thy ===== *)
theory Grpc_System
  imports Grpc_Deployment Lease_Calls Deployments
begin

section \<open>Unary calls in the concurrent system\<close>

text \<open>
  A unary call through the interceptor, with everything the other clients of the store do
  meanwhile, is a path of the concurrent system of \<open>Lease_System\<close>, as a request to the
  middleware is; clients of the two kinds may share a store.
\<close>

definition unary_timeline :: "'s paths \<Rightarrow> ('e \<Rightarrow> Time) \<Rightarrow> ('e \<Rightarrow> bool) \<Rightarrow> ('s, 'e) grpc_env \<Rightarrow> bool" where
  "unary_timeline R clk ok env \<longleftrightarrow> begin_timeline R clk ok (clk (ge_finish env)) (ge_begin env) \<and>
     ok (ge_finish env) \<and> activity R (clk (ge_finish env)) (ge_before_finish env) \<and>
     ok (ge_release env) \<and> activity R (clk (ge_release env)) (ge_before_release env) \<and> clk (ge_finish env) \<le> clk (ge_release env)"

lemma glog_sel [simp]: "gw_store (glog m a w) = gw_store w" "gw_calls (glog m a w) = gw_calls w"
  by (simp_all add: glog_def)

lemma gstore_snd [simp]: "gw_store (snd (gstore f w)) = snd (f (gw_store w))" "gw_calls (snd (gstore f w)) = gw_calls w"
  by (simp_all add: gstore_def split_beta)

subsection \<open>The parts of a call\<close>

lemma release_or_log_sel:
  "gw_calls (release_or_log S env attrs m k tok opts w) = gw_calls w"
  "gw_store (release_or_log S env attrs m k tok opts w) = snd (Finish S (ge_finish env) k tok Discard [] opts (ge_before_finish env (gw_store w)))"
  by (simp_all add: release_or_log_def split_beta split: option.split)

lemma reportFinish_sel:
  "gw_calls (reportFinish S env attrs lost ferr k tok opts w) = gw_calls w"
  "gw_store (reportFinish S env attrs lost ferr k tok opts w) = (if ferr = None then gw_store w
     else snd (Finish S (ge_release env) k tok Discard [] opts (ge_before_release env (gw_store w))))"
  by (simp_all add: reportFinish_def split_beta Let_def split: option.split)

lemma payloadToPersist_sel:
  "payloadToPersist PB cfg resp herr attrs w = (x, w') \<Longrightarrow> gw_store w' = gw_store w \<and> gw_calls w' = gw_calls w"
  by (auto simp: payloadToPersist_def split: if_splits any.splits sum.splits)

text \<open>The handler's run, and what the caller of the interceptor gets of it.\<close>

definition unary_run :: "('m, 's) unary_handler \<Rightarrow> grpc_ctx \<Rightarrow> 'm any \<Rightarrow> 'm call_result \<Rightarrow> 's \<Rightarrow> 's \<Rightarrow> bool" where
  "unary_run h c req res s s' \<longleftrightarrow> (\<exists>x. h c req s = (x, s') \<and>
     res = (case x of HPanic \<Rightarrow> CPanic | HReturn resp herr \<Rightarrow> CReturn resp (map_option Handler_error herr)))"

lemma runHandler_path:
  fixes S :: "('s, 'e) Store" and vw clk ok grant keep
  defines "R \<equiv> lease_reachable S vw clk ok grant keep"
  assumes env: "unary_timeline R clk ok env" and at: "reached R st (clk (ge_finish env)) (gw_store w)"
    and h: "activity R (clk (ge_finish env)) (\<lambda>s. snd (h c req s))"
    and run: "runHandler PB S cfg env h c req attrs k tok opts w = (res, w')"
  obtains st2 where "R st st2" "unary_run h c req res (gw_store w) (sy_store st2)"
    "reached R st2 (clk (ge_release env)) (gw_store w')" "gw_calls w' = gw_calls w @ [req]"
proof -
  have e: "ok (ge_finish env)" "ok (ge_release env)" "activity R (clk (ge_finish env)) (ge_before_finish env)"
    "activity R (clk (ge_release env)) (ge_before_release env)" "clk (ge_finish env) \<le> clk (ge_release env)"
    using env by (simp_all add: unary_timeline_def)
  have tr: "transp R" unfolding R_def by (rule transp_lease_reachable)
  obtain x w1 where H: "call_handler h c req w = (x, w1)" by (meson surj_pair)
  have w1: "gw_store w1 = snd (h c req (gw_store w))" "gw_calls w1 = gw_calls w @ [req]"
    using H by (auto simp: call_handler_def gstore_def split_beta)
  have hx: "h c req (gw_store w) = (x, gw_store w1)" using H w1 by (auto simp: call_handler_def gstore_def split_beta)
  obtain st2 where st2: "R st st2" "sy_store st2 = gw_store w1" "sy_clock st2 \<le> clk (ge_finish env)"
    using activity_reached [OF h tr at] unfolding reached_def w1 by blast
  then have at1: "reached R st2 (clk (ge_finish env)) (gw_store w1)" unfolding reached_def R_def by (auto intro: reach_init)
  have fin: "reached R st2 (clk (ge_release env)) (snd (Finish S (ge_finish env) k tok d p opts (ge_before_finish env (gw_store w1))))" for d p
    using reached_mono [OF Finish_path [OF at1 [unfolded R_def] e(1) e(3) [unfolded R_def]] e(5)] unfolding R_def .
  have rel: "reached R st2 (clk (ge_release env)) (snd (Finish S (ge_release env) k tok d p opts (ge_before_release env s)))"
    if "reached R st2 (clk (ge_release env)) s" for d p s
    using Finish_path [OF that [unfolded R_def] e(2) e(4) [unfolded R_def]] unfolding R_def .
  have "reached R st2 (clk (ge_release env)) (gw_store w') \<and> gw_calls w' = gw_calls w @ [req] \<and>
    res = (case x of HPanic \<Rightarrow> CPanic | HReturn resp herr \<Rightarrow> CReturn resp (map_option Handler_error herr))"
  proof (cases x)
    case HPanic
    then show ?thesis using run H w1(2) fin by (auto simp: runHandler_def release_or_log_sel)
  next
    case (HReturn resp herr)
    obtain q w2 where q: "payloadToPersist PB cfg resp herr attrs w1 = (q, w2)" by (meson surj_pair)
    note same = payloadToPersist_sel [OF q]
    show ?thesis
    proof (cases q)
      case None
      then show ?thesis using run H HReturn q same w1(2) fin by (auto simp: runHandler_def release_or_log_sel)
    next
      case (Some p)
      let ?f = "\<lambda>s. Finish S (ge_finish env) k tok Persist p opts (ge_before_finish env s)"
      obtain lost ferr w3 where F: "gstore ?f w2 = ((lost, ferr), w3)" by (metis prod.exhaust)
      have "gw_store w3 = snd (?f (gw_store w1))" "gw_calls w3 = gw_calls w1"
        using gstore_snd [of ?f w2] F same by simp_all
      then show ?thesis
        using run H HReturn q Some F w1(2) fin [of Persist p] rel by (auto simp: runHandler_def reportFinish_sel)
    qed
  qed
  with st2 hx show thesis by (intro that [of st2]) (auto simp: unary_run_def)
qed

lemma pass_through_path:
  assumes "transp R" "activity R t (\<lambda>s. snd (h c req s))" "reached R st t (gw_store w)" "pass_through h c req w = (res, w')"
  shows "reached R st t (gw_store w') \<and> gw_calls w' = gw_calls w @ [req]"
  using assms(4) activity_reached [OF assms(2,1,3)]
  by (auto simp: pass_through_def call_handler_def gstore_def split: prod.splits handler_result.splits)

subsection \<open>A whole call\<close>

definition unary_executed :: "(bytes \<Rightarrow> bytes) \<Rightarrow> 'm proto \<Rightarrow> grpc_config \<Rightarrow> 's paths \<Rightarrow> ('s sys \<Rightarrow> string \<Rightarrow> string \<Rightarrow> bytes \<Rightarrow> bool) \<Rightarrow>
    string \<Rightarrow> ('m, 's) unary_handler \<Rightarrow> grpc_ctx \<Rightarrow> 'm any \<Rightarrow> 'm call_result \<Rightarrow> 's sys \<Rightarrow> 's sys \<Rightarrow> 'm any list \<Rightarrow> bool" where
  "unary_executed sha256 PB cfg R owns fullMethod h c req res st st' calls \<longleftrightarrow> calls = [] \<or>
     ((g_failOpen cfg \<or> (\<nexists>key b. grpc_accepted PB cfg c req key b)) \<and> calls = [req]) \<or>
     (\<exists>key b tok. grpc_accepted PB cfg c req key b \<and> calls = [req] \<and>
        leased_run R owns st st' (scoped_key (grpc_scope cfg c) key) tok (grpc_fingerprint sha256 fullMethod b) (unary_run h c req res))"

lemma grpc_replay_sel: "gw_store (snd (grpc_replay PB attrs p w)) = gw_store w" "gw_calls (snd (grpc_replay PB attrs p w)) = gw_calls w"
  by (simp_all add: grpc_replay_def split: sum.split)

lemma intercept_keyed_path:
  fixes S :: "('s, 'e) Store" and vw clk ok grant keep
  defines "R \<equiv> lease_reachable S vw clk ok grant keep"
  assumes env: "unary_timeline R clk ok env" and st: "sy_store st = gw_store w" "sy_clock st \<le> clk (at_store (ge_begin env 1))"
    and h: "activity R (clk (ge_finish env)) (\<lambda>s. snd (h c req s))"
    and run: "intercept_keyed sha256 PB S cfg env fullMethod h c req key b w = (res, w')"
  shows "\<exists>st'. R st st' \<and> sy_store st' = gw_store w' \<and> (\<exists>calls. gw_calls w' = gw_calls w @ calls \<and>
    (calls = [] \<or> (g_failOpen cfg \<and> calls = [req]) \<or> (\<exists>tok. calls = [req] \<and>
      leased_run R (just_granted clk grant (ge_begin env) (grpc_options cfg)) st st' (scoped_key (grpc_scope cfg c) key) tok
        (grpc_fingerprint sha256 fullMethod b) (unary_run h c req res))))"
proof -
  let ?k = "scoped_key (grpc_scope cfg c) key" and ?fp = "grpc_fingerprint sha256 fullMethod b" and ?o = "grpc_options cfg"
  have tr: "transp R" unfolding R_def by (rule transp_lease_reachable)
  have bt: "begin_timeline R clk ok (clk (ge_finish env)) (ge_begin env)" using env by (simp add: unary_timeline_def)
  obtain out s1 where B: "Begin S (ge_rnd env) (ge_begin env) ?k ?fp ?o (gw_store w) = (out, s1)" by (meson surj_pair)
  have "reached R st (clk (at_store (ge_begin env 1))) (gw_store w)"
    using st unfolding reached_def R_def by (blast intro: reach_init)
  then obtain st1 where st1: "R st st1" "sy_store st1 = s1" "sy_clock st1 \<le> clk (ge_finish env)"
    and own: "\<And>x. out = Inr x \<Longrightarrow> Action x = Proceed \<Longrightarrow> just_granted clk grant (ge_begin env) ?o st1 ?k (OutToken x) ?fp"
    using Begin_path [OF bt [unfolded R_def] _ B] unfolding R_def by metis
  let ?w = "w\<lparr>gw_store := s1\<rparr>"
  have at: "reached R st1 (clk (ge_finish env)) (gw_store ?w)"
    using st1 unfolding reached_def R_def by (auto intro: reach_init)
  have G: "gstore (Begin S (ge_rnd env) (ge_begin env) ?k ?fp ?o) w = (out, ?w)" using B by (simp add: gstore_def)
  show ?thesis
  proof (cases "\<exists>x. out = Inr x \<and> Action x = Proceed")
    case True
    then obtain x where x: "out = Inr x" "Action x = Proceed" by blast
    have H: "runHandler PB S cfg env h c req (grpc_keyAttrs (grpc_scope cfg c) key) ?k (OutToken x) ?o ?w = (res, w')"
      using run G x by (simp add: intercept_keyed_def Let_def)
    obtain st2 where st2: "R st1 st2" "unary_run h c req res (gw_store ?w) (sy_store st2)"
      "reached R st2 (clk (ge_release env)) (gw_store w')" "gw_calls w' = gw_calls ?w @ [req]"
      by (rule runHandler_path [OF env [unfolded R_def] at [unfolded R_def] h [unfolded R_def] H, folded R_def])
    have "unary_run h c req res (sy_store st1) (sy_store st2)" using st2(2) st1(2) by simp
    from leased_runI [where owns = "just_granted clk grant (ge_begin env) ?o" and runs = "unary_run h c req res",
        OF tr st1(1) own [OF x] st2(1) this st2(3)] st2(4)
    show ?thesis by auto
  next
    case False
    show ?thesis
    proof (cases "(\<exists>e. out = Inl e) \<and> g_failOpen cfg")
      case True
      then obtain err where "out = Inl err" by blast
      with True have "pass_through h c req (glog ''grpcidem: store unavailable; proceeding without idempotency (FailOpen)''
          (grpc_keyAttrs (grpc_scope cfg c) key @ [(''error'', Error err)]) ?w) = (res, w')"
        using run G by (simp add: intercept_keyed_def Let_def)
      from pass_through_path [OF tr h _ this, of st1] at have
        "reached R st1 (clk (ge_finish env)) (gw_store w')" "gw_calls w' = gw_calls w @ [req]" by simp_all
      then obtain st' where "R st1 st'" "sy_store st' = gw_store w'" "gw_calls w' = gw_calls w @ [req]"
        unfolding reached_def by blast
      with transpD [OF tr st1(1)] True show ?thesis by (intro exI [of _ st'] conjI exI [of _ "[req]"]) auto
    next
      case no: False
      have "gw_store w' = s1 \<and> gw_calls w' = gw_calls w"
        using run G no False grpc_replay_sel [of PB _ _ ?w]
        by (cases out) (auto simp: intercept_keyed_def Let_def split: Action.splits, (metis snd_conv grpc_world.select_convs(1,4) grpc_replay_sel)+)
      then show ?thesis using st1 by auto
    qed
  qed
qed

lemma intercept_path:
  fixes S :: "('s, 'e) Store" and vw clk ok grant keep
  defines "R \<equiv> lease_reachable S vw clk ok grant keep"
  assumes env: "unary_timeline R clk ok env" and st: "sy_store st = gw_store w" "sy_clock st \<le> clk (at_store (ge_begin env 1))"
    and h: "activity R (clk (ge_finish env)) (\<lambda>s. snd (h c req s))"
    and run: "intercept sha256 PB S cfg env fullMethod h c req w = (res, w')"
  shows "\<exists>st' calls. R st st' \<and> sy_store st' = gw_store w' \<and> gw_calls w' = gw_calls w @ calls \<and>
    unary_executed sha256 PB cfg R (just_granted clk grant (ge_begin env) (grpc_options cfg)) fullMethod h c req res st st' calls"
proof (cases "\<exists>key b. grpc_accepted PB cfg c req key b")
  case True
  then obtain key b where acc: "grpc_accepted PB cfg c req key b" by blast
  from intercept_keyed_path [OF env [unfolded R_def] st h [unfolded R_def] run [unfolded intercept_accepted [OF acc]]] show ?thesis
    using acc unfolding R_def unary_executed_def by metis
next
  case False
  have tr: "transp R" unfolding R_def by (rule transp_lease_reachable)
  have "begin_timeline R clk ok (clk (ge_finish env)) (ge_begin env)" using env by (simp add: unary_timeline_def)
  then have "clk (at_store (ge_begin env 1)) \<le> clk (ge_finish env)" by (simp add: begin_timeline_def)
  then have at: "reached R st (clk (ge_finish env)) (gw_store w)"
    using st unfolding reached_def R_def by (meson order_trans reach_init)
  have "w' = w \<or> pass_through h c req w = (res, w')"
    using run False
    by (auto simp: intercept_def grpc_accepted_def split: if_splits sum.splits option.splits any.splits)
  then show ?thesis
  proof
    assume "w' = w"
    then show ?thesis using st unfolding unary_executed_def R_def by (intro exI [of _ st] exI [of _ "[]"]) (auto intro: reach_init)
  next
    assume "pass_through h c req w = (res, w')"
    from pass_through_path [OF tr h at this] show ?thesis using False unfolding reached_def unary_executed_def by blast
  qed
qed

subsection \<open>The property\<close>

text \<open>
  (C7) Over every store that keeps the contract and whose calls may fail, a unary call, with
  everything the other clients do before, between and after its store calls and while its handler runs,
  is a path of the concurrent system. On that path the handler was called at most once. Unless the
  interceptor fails open, or the call carries no key, it ran from the state in which the execution had
  just been granted the key of the call, on the store of that state, which holds the lease until the
  granted deadline, and the caller gets what it returned. In that state, when the handler ended and when the
  call ended, the store holds the lease of every owner within its deadline, two executions of one key
  within their leases are the same execution, and a persisted response is the only answer for its key.
\<close>

theorem calls_exclude_each_other:
  assumes "shaky_store S sinv sview sclock up grant keep rebuilt shaky" "sinv s"
    and "lease_reachable S sview sclock shaky grant keep (sys_init s t) st"
    and "sy_store st = gw_store w" "sy_clock st \<le> sclock (at_store (ge_begin env 1))"
    and "unary_timeline (lease_reachable S sview sclock shaky grant keep) sclock shaky env"
    and "activity (lease_reachable S sview sclock shaky grant keep) (sclock (ge_finish env)) (\<lambda>s. snd (h c req s))"
    and "intercept sha256 PB S cfg env fullMethod h c req w = (res, w')"
  shows "\<exists>st' calls. lease_reachable S sview sclock shaky grant keep st st' \<and>
    sy_store st' = gw_store w' \<and> gw_calls w' = gw_calls w @ calls \<and>
    unary_executed sha256 PB cfg (sound sview (lease_reachable S sview sclock shaky grant keep))
      (just_granted sclock grant (ge_begin env) (grpc_options cfg)) fullMethod h c req res st st' calls"
proof -
  note sound = lease_clients.leased_run_sound [OF lease_clients.intro [OF assms(1)] assms(2,3)]
  show ?thesis using intercept_path [OF assms(6,4,5,7,8)] sound unfolding unary_executed_def by blast
qed

text \<open>A call over the in-memory store, while another client tries to finish its key with a stale token.\<close>

definition busy_genv :: "(memstore, Time) grpc_env" where
  "busy_genv = (demo_genv 0)\<lparr>ge_before_finish := (\<lambda>s. snd (Finish mem_Store 1 (scoped_key [] ''k1'') ''stale'' Discard [] sample_options s))\<rparr>"

theorem calls_exclude_each_other_witness:
  "\<exists>res w' st'. intercept (\<lambda>x. x) reference_proto mem_Store grpc_default_config busy_genv ''/pay.Pay/Charge''
       (demo_unary (''pay.Resp'', ''ok'')) demo_gctx (Proto (''pay.Req'', ''x'')) (demo_gworld mem_New) = (res, w') \<and>
     mem_reachable (sys_init mem_New 0) st' \<and> sy_store st' = gw_store w' \<and> gw_calls w' \<noteq> [] \<and>
     unary_executed (\<lambda>x. x) reference_proto grpc_default_config (sound mem_view mem_reachable)
       (just_granted (\<lambda>now. now) (\<lambda>_ r. LeaseExpiresAt r) (ge_begin busy_genv) (grpc_options grpc_default_config))
       ''/pay.Pay/Charge'' (demo_unary (''pay.Resp'', ''ok'')) demo_gctx (Proto (''pay.Req'', ''x'')) res
       (sys_init mem_New 0) st' (gw_calls w')"
proof -
  let ?h = "demo_unary (''pay.Resp'', ''ok'')" and ?req = "Proto (''pay.Req'', ''x'')"
  obtain res w' where I: "intercept (\<lambda>x. x) reference_proto mem_Store grpc_default_config busy_genv ''/pay.Pay/Charge''
      ?h demo_gctx ?req (demo_gworld mem_New) = (res, w')" by (meson surj_pair)
  have line: "unary_timeline mem_reachable (\<lambda>now. now) (\<lambda>_. True) busy_genv"
    unfolding unary_timeline_def begin_timeline_def
    by (simp add: busy_genv_def demo_genv_def activity_id activity_Finish)
  have h: "activity mem_reachable (ge_finish busy_genv) (\<lambda>s. snd (?h demo_gctx ?req s))"
    using activity_id unfolding id_def by (simp add: demo_unary_def)
  have st: "sy_store (sys_init mem_New 0) = gw_store (demo_gworld mem_New)" "sy_clock (sys_init mem_New 0) \<le> at_store (ge_begin busy_genv 1)"
    by (simp_all add: sys_init_def busy_genv_def)
  have "gw_calls (snd (intercept (\<lambda>x. x) reference_proto mem_Store grpc_default_config busy_genv ''/pay.Pay/Charge''
      ?h demo_gctx ?req (demo_gworld mem_New))) \<noteq> []" by code_simp
  then have "gw_calls w' \<noteq> []" using I by simp
  with calls_exclude_each_other [OF mem_shaky.shaky_store_axioms mem_inv_New reach_init st line h I] show ?thesis
    using I by (intro exI [of _ res] exI [of _ w']) auto
qed

end
