(* ===== verification/Errtrail_Adapter.thy ===== *)
theory Errtrail_Adapter
  imports Exchange_Example
begin

section \<open>The errtrail adapter\<close>

text \<open>
  \<^verbatim>\<open>errtrailadapter/errtrailadapter.go\<close>: the error writer that classifies the middleware's rejections
  into errtrail codes, the policy driven by the code a handler reports, and the registration of
  the adapter's codes. The errtrail library is not part of the repository: it is a record of
  functions over its registry \<open>'reg\<close> and its errors \<open>'x\<close>. \<open>Register\<close> is \<open>None\<close> when it
  panics. What the adapter relies on is the locale \<open>errtrail_library\<close>; \<open>reference_errtrail\<close>
  is a small library that satisfies it.
\<close>

type_synonym Code = int

record ('reg, 'x) errtrail =
  et_Unknown :: Code
  et_InvalidArgument :: Code
  et_Aborted :: Code
  et_FailedPrecondition :: Code
  et_ResourceExhausted :: Code
  et_Unavailable :: Code
  et_GRPCCode :: "'reg \<Rightarrow> Code \<Rightarrow> int"
  et_Register :: "Code \<Rightarrow> string \<Rightarrow> int \<Rightarrow> int \<Rightarrow> bool \<Rightarrow> 'reg \<Rightarrow> 'reg option"
  et_Retryable :: "'reg \<Rightarrow> Code \<Rightarrow> bool"
  et_New :: "Code \<Rightarrow> string \<Rightarrow> 'x"
  et_WithPublic :: "string \<Rightarrow> 'x \<Rightarrow> 'x"
  et_Wrap :: "'x \<Rightarrow> string \<Rightarrow> 'x"
  et_CodeOf :: "gerror \<Rightarrow> Code"
  problem_Write :: "'reg \<Rightarrow> 'x \<Rightarrow> rw \<Rightarrow> bool \<times> rw"

definition CodeKeyMissing :: Code where "CodeKeyMissing = 1100"
definition CodeKeyInvalid :: Code where "CodeKeyInvalid = 1101"
definition CodeInFlight :: Code where "CodeInFlight = 1102"
definition CodePayloadMismatch :: Code where "CodePayloadMismatch = 1103"
definition CodeBodyTooLarge :: Code where "CodeBodyTooLarge = 1104"

lemmas adapter_codes = CodeKeyMissing_def CodeKeyInvalid_def CodeInFlight_def CodePayloadMismatch_def CodeBodyTooLarge_def

definition errtrail_init :: "('reg, 'x) errtrail \<Rightarrow> 'reg \<Rightarrow> 'reg option" where
  "errtrail_init E reg0 =
     Option.bind (et_Register E CodeKeyMissing ''IDEMPOTENCY_KEY_MISSING'' 400 (et_GRPCCode E reg0 (et_InvalidArgument E)) False reg0) (\<lambda>reg1.
     Option.bind (et_Register E CodeKeyInvalid ''IDEMPOTENCY_KEY_INVALID'' 400 (et_GRPCCode E reg1 (et_InvalidArgument E)) False reg1) (\<lambda>reg2.
     Option.bind (et_Register E CodeInFlight ''IDEMPOTENCY_IN_FLIGHT'' 409 (et_GRPCCode E reg2 (et_Aborted E)) True reg2) (\<lambda>reg3.
     Option.bind (et_Register E CodePayloadMismatch ''IDEMPOTENCY_PAYLOAD_MISMATCH'' 422
         (et_GRPCCode E reg3 (et_FailedPrecondition E)) False reg3) (\<lambda>reg4.
     et_Register E CodeBodyTooLarge ''IDEMPOTENCY_BODY_TOO_LARGE'' 413 (et_GRPCCode E reg4 (et_ResourceExhausted E)) False reg4))))"

definition classify :: "('reg, 'x) errtrail \<Rightarrow> int \<Rightarrow> gerror option \<Rightarrow> 'x" where
  "classify E status err =
     (let is = (\<lambda>x. case err of None \<Rightarrow> False | Some e \<Rightarrow> errors_Is e x) in
      if is ErrKeyMissing then
        et_WithPublic E ''The Idempotency-Key header is required.'' (et_New E CodeKeyMissing ''idempotency key missing'')
      else if is ErrKeyInvalid then
        et_WithPublic E ''The Idempotency-Key header is malformed.'' (et_New E CodeKeyInvalid ''idempotency key invalid'')
      else if is ErrInFlight then
        et_WithPublic E ''A request with this Idempotency-Key is being processed. Retry later.''
          (et_New E CodeInFlight ''duplicate request in flight'')
      else if is ErrFingerprintMismatch then
        et_WithPublic E ''This Idempotency-Key was already used with a different request.''
          (et_New E CodePayloadMismatch ''idempotency payload mismatch'')
      else if is ErrRequestBodyTooLarge then
        et_WithPublic E ''The request body is too large.'' (et_New E CodeBodyTooLarge ''request body too large for idempotency'')
      else if is ErrStoreUnavailable then
        et_WithPublic E ''The service is temporarily unavailable. Retry later.''
          (et_New E (et_Unavailable E) ''idempotency store unavailable'')
      else
        (let code = (if status \<ge> 400 \<and> status < 500 then et_InvalidArgument E else et_Unknown E);
             e = et_New E code ''idempotency rejection''
         in case err of Some x \<Rightarrow> et_Wrap E e (Error x) | None \<Rightarrow> e))"

definition errtrail_Errors :: "('reg, 'x) errtrail \<Rightarrow> 'reg \<Rightarrow> ErrorWriter" where
  "errtrail_Errors E reg r status err w = problem_Write E reg (classify E status (Some err)) w"

definition errtrail_Policy :: "('reg, 'x) errtrail \<Rightarrow> 'reg \<Rightarrow> int \<Rightarrow> gerror option \<Rightarrow> Decision" where
  "errtrail_Policy E reg status err = (case err of
       None \<Rightarrow> defaultDecide status None
     | Some e \<Rightarrow>
         (let code = et_CodeOf E e in
          if code = et_Unknown E then defaultDecide status (Some e)
          else if et_Retryable E reg code then Discard
          else Persist))"

definition errtrail_Options :: "('reg, 'x) errtrail \<Rightarrow> 'reg \<Rightarrow> Option list" where
  "errtrail_Options E reg = [opt_Errors (errtrail_Errors E reg), opt_Policy (errtrail_Policy E reg)]"

subsection \<open>What the adapter relies on\<close>

text \<open>
  \<open>http\<close> is the status registered for a code, \<open>code\<close> the code of an error, \<open>taken\<close> and \<open>named\<close> the
  registered codes and names. Custom codes start at 100; a code and a name are registered once;
  \<^verbatim>\<open>problem.Write\<close> derives the status from the code.
\<close>

locale errtrail_library =
  fixes E :: "('reg, 'x) errtrail"
    and http :: "'reg \<Rightarrow> Code \<Rightarrow> int"
    and code :: "'x \<Rightarrow> Code"
    and taken :: "'reg \<Rightarrow> Code \<Rightarrow> bool"
    and named :: "'reg \<Rightarrow> string \<Rightarrow> bool"
  assumes code_laws: "code (et_New E cd m) = cd" "code (et_WithPublic E m x) = code x" "code (et_Wrap E x m) = code x"
    and builtin_codes: "et_Unknown E < 100" "et_InvalidArgument E < 100" "et_Unavailable E < 100"
    and builtin_status: "http reg (et_Unknown E) = 500" "http reg (et_InvalidArgument E) = 400" "http reg (et_Unavailable E) = 503"
    and register_accepts: "100 \<le> cd \<Longrightarrow> \<not> taken reg cd \<Longrightarrow> \<not> named reg nm \<Longrightarrow> \<exists>reg'. et_Register E cd nm st g rt reg = Some reg'"
    and register_law: "et_Register E cd nm st g rt reg = Some reg' \<Longrightarrow>
        100 \<le> cd \<and> http reg' = (http reg)(cd := st) \<and> et_Retryable E reg' = (et_Retryable E reg)(cd := rt) \<and>
        taken reg' = (taken reg)(cd := True) \<and> named reg' = (named reg)(nm := True)"
    and write_law: "rw_sent w = None \<Longrightarrow> \<not> rw_hijacked w \<Longrightarrow> 400 \<le> http reg (code x) \<Longrightarrow> http reg (code x) \<le> 599 \<Longrightarrow>
        \<exists>w' h. problem_Write E reg x w = (False, w') \<and> rw_sent w' = Some (http reg (code x), h)"

text \<open>The status the middleware gives each of its sentinels.\<close>

definition assigned :: "int \<Rightarrow> gerror \<Rightarrow> bool" where
  "assigned status err \<longleftrightarrow>
     (if errors_Is err ErrKeyMissing \<or> errors_Is err ErrKeyInvalid then status = 400
      else if errors_Is err ErrInFlight then status = 409
      else if errors_Is err ErrFingerprintMismatch then status = 422
      else if errors_Is err ErrRequestBodyTooLarge then status = 413
      else if errors_Is err ErrStoreUnavailable then status = 503
      else status = 400 \<or> status = 500)"

text \<open>Errors from outside the package carry none of its sentinels.\<close>

definition foreign :: "gerror \<Rightarrow> bool" where
  "foreign err \<longleftrightarrow> \<not> errors_Is err ErrKeyMissing \<and> \<not> errors_Is err ErrKeyInvalid \<and> \<not> errors_Is err ErrInFlight \<and>
     \<not> errors_Is err ErrFingerprintMismatch \<and> \<not> errors_Is err ErrRequestBodyTooLarge \<and> \<not> errors_Is err ErrStoreUnavailable"

definition foreign_store :: "('s, 'e) Store \<Rightarrow> bool" where
  "foreign_store S \<longleftrightarrow> (\<forall>e rec s x err s'. Reserve S e rec s = ((x, Some err), s') \<longrightarrow> foreign err)"

lemma assigned_rejections:
  "assigned 400 (wrap_before (Sentinel ErrKeyInvalid) m)" "assigned 413 (Sentinel ErrRequestBodyTooLarge)"
  "assigned 409 (Sentinel ErrInFlight)" "assigned 422 (Sentinel ErrFingerprintMismatch)" "assigned 500 corrupt"
  "foreign err \<Longrightarrow> assigned 400 (wrap_after m err)" "foreign err \<Longrightarrow> assigned 503 (Wrap m [Sentinel ErrStoreUnavailable, err])"
  by (simp_all add: assigned_def foreign_def)

lemma assigned_key: "KeyFromHeader h = Inl err \<Longrightarrow> assigned 400 err"
  by (auto simp: KeyFromHeader_def ParseKey_def check_length_def assigned_def Let_def split: list.splits option.splits if_splits)

text \<open>The errors of \<open>Begin\<close> are foreign when those of the store and of the random source are.\<close>

lemma begin_attempt_foreign:
  assumes "foreign_store S"
    and "begin_attempt S a k fp tok o' n s = (Return (Inl err), s')"
  shows "foreign err"
proof -
  obtain x er s1 where R: "Reserve S (at_store a) (reservation_of k fp tok o' (at_deadline a)) (at_between a s) = ((x, er), s1)"
    by (metis prod.exhaust)
  have foreign: "er = Some e \<Longrightarrow> foreign e" for e using assms(1) R unfolding foreign_store_def by blast
  show ?thesis
    using assms(2) R foreign
    by (auto simp: begin_attempt_def on_existing_def violation_error_def foreign_def Let_def split: option.splits if_splits)
qed

lemma begin_loop_foreign:
  assumes "foreign_store S"
  shows "fst (begin_loop S env k fp tok o' n s) = Inl err \<Longrightarrow> foreign err"
  using assms
proof (induction S env k fp tok o' n s rule: begin_loop.induct)
  case (1 S env k fp tok o' n s)
  obtain q s1 where A: "begin_attempt S (env n) k fp tok o' n s = (q, s1)" by (meson surj_pair)
  show ?case
  proof (cases q)
    case Again
    show ?thesis
      by (rule "1.IH" [OF A [symmetric] Again, OF _ "1.prems"(2)]) (use "1.prems"(1) A Again in \<open>simp_all add: begin_loop.simps [of S env k fp tok o' n s]\<close>)
  next
    case (Return r)
    then have "r = Inl err" using "1.prems"(1) A by (simp add: begin_loop.simps [of S env k fp tok o' n s])
    then show ?thesis using begin_attempt_foreign [OF "1.prems"(2)] A Return by blast
  qed
qed

lemma Begin_foreign:
  assumes "foreign_store S"
    and "\<And>err. rnd = Inl err \<Longrightarrow> foreign err"
  shows "fst (Begin S rnd env k fp o' s) = Inl err \<Longrightarrow> foreign err"
  using begin_loop_foreign [OF assms(1)] assms(2)
  by (auto simp: Begin_def newToken_def foreign_def split: sum.splits)

subsection \<open>Errors of the decoder\<close>

definition decoder_ok :: "decoder \<Rightarrow> bool" where
  "decoder_ok d \<longleftrightarrow> derr d = None \<or> derr d = Some corrupt"

lemma d_uvarint_ok: "decoder_ok d \<Longrightarrow> d_uvarint d = (n, d') \<Longrightarrow> decoder_ok d'"
  by (auto simp: d_uvarint_def decoder_ok_def split: prod.splits if_splits)

lemma d_bytes_ok: "decoder_ok d \<Longrightarrow> d_bytes d = (b, d') \<Longrightarrow> decoder_ok d'"
  using d_uvarint_ok [of d] by (fastforce simp: d_bytes_def decoder_ok_def split: prod.splits if_splits)

lemma read_values_ok: "decoder_ok d \<Longrightarrow> read_values n name h d = (h', d') \<Longrightarrow> decoder_ok d'"
  by (induction n name h d rule: read_values.induct) (auto dest: d_bytes_ok split: prod.splits if_splits)

lemma read_names_ok:
  "decoder_ok d \<Longrightarrow> (case read_names n h d of Inl e \<Rightarrow> e = corrupt | Inr (_, d') \<Rightarrow> decoder_ok d')"
proof (induction n h d rule: read_names.induct)
  case (2 n h d)
  obtain name d1 where 1: "d_bytes d = (name, d1)" by (meson surj_pair)
  obtain m d2 where 2: "d_uvarint d1 = (m, d2)" by (meson surj_pair)
  obtain h' d3 where 3: "read_values m name h d2 = (h', d3)" by (meson surj_pair)
  have "decoder_ok d3" using 1 2 3 "2.prems" d_bytes_ok d_uvarint_ok read_values_ok by blast
  with "2.IH" [OF _ 1 [symmetric] refl 2 [symmetric] refl _ 3 [symmetric] refl] "2.prems" 1 2 3 show ?case by simp
qed simp

lemma assigned_payload: "UnmarshalBinary p = Inl e \<Longrightarrow> assigned 500 e"
proof -
  assume U: "UnmarshalBinary p = Inl e"
  show ?thesis
  proof (cases p)
    case Nil
    with U show ?thesis by (auto simp: UnmarshalBinary_def assigned_def)
  next
    case (Cons v rest)
    obtain st d1 where 1: "d_uvarint \<lparr>dbuf = rest, derr = None\<rparr> = (st, d1)" by (meson surj_pair)
    obtain m d2 where 2: "d_uvarint d1 = (m, d2)" by (meson surj_pair)
    have ok: "decoder_ok d2" using d_uvarint_ok [OF _ 1] d_uvarint_ok [OF _ 2] by (simp add: decoder_ok_def)
    show ?thesis
    proof (cases "read_names m [] d2")
      case (Inl e')
      with read_names_ok [OF ok, of m "[]"] U Cons 1 2 show ?thesis
        by (auto simp: UnmarshalBinary_def assigned_def split: if_splits)
    next
      case (Inr hd)
      obtain h d3 where hd: "hd = (h, d3)" by force
      obtain b d4 where 4: "d_bytes d3 = (b, d4)" by (meson surj_pair)
      have "decoder_ok d4" using read_names_ok [OF ok, of m "[]"] Inr hd d_bytes_ok [OF _ 4] by simp
      with U Cons 1 2 Inr hd 4 show ?thesis
        by (auto simp: UnmarshalBinary_def assigned_def decoder_ok_def split: if_splits)
    qed
  qed
qed

subsection \<open>Every rejection keeps its status\<close>

text \<open>Two worlds that differ at most in the header and the body of the response.\<close>

definition same_status :: "'s world \<Rightarrow> 's world \<Rightarrow> bool" where
  "same_status wd wd' \<longleftrightarrow> wd_calls wd' = wd_calls wd \<and> wd_store wd' = wd_store wd \<and> wd_log wd' = wd_log wd \<and>
     map_option fst (rw_sent (wd_w wd')) = map_option fst (rw_sent (wd_w wd))"

lemma settle_ew: "settle S (cfg\<lparr>errorWriter := ew\<rparr>) = settle S cfg"
  by (intro ext) (simp add: settle_def final_decision_def)

lemma same_status_refl [simp]: "rel_prod (=) same_status x x"
  by (cases x) (simp add: same_status_def)

context errtrail_library
begin

lemma init_succeeds:
  assumes "\<And>cd. 1100 \<le> cd \<Longrightarrow> cd \<le> 1104 \<Longrightarrow> \<not> taken reg0 cd"
    and "\<And>nm. nm \<in> {''IDEMPOTENCY_KEY_MISSING'', ''IDEMPOTENCY_KEY_INVALID'', ''IDEMPOTENCY_IN_FLIGHT'',
      ''IDEMPOTENCY_PAYLOAD_MISMATCH'', ''IDEMPOTENCY_BODY_TOO_LARGE''} \<Longrightarrow> \<not> named reg0 nm"
  shows "\<exists>reg. errtrail_init E reg0 = Some reg"
proof -
  have step: "\<exists>reg'. et_Register E cd nm st g rt reg = Some reg' \<and> taken reg' = (taken reg)(cd := True) \<and> named reg' = (named reg)(nm := True)"
    if "100 \<le> cd" "\<not> taken reg cd" "\<not> named reg nm" for cd nm st g rt reg
    using register_accepts [OF that] register_law by blast
  have free: "\<not> taken reg0 1100" "\<not> taken reg0 1101" "\<not> taken reg0 1102" "\<not> taken reg0 1103" "\<not> taken reg0 1104"
    using assms(1) by simp_all
  note names = assms(2) [of "''IDEMPOTENCY_KEY_MISSING''", simplified] assms(2) [of "''IDEMPOTENCY_KEY_INVALID''", simplified]
    assms(2) [of "''IDEMPOTENCY_IN_FLIGHT''", simplified] assms(2) [of "''IDEMPOTENCY_PAYLOAD_MISMATCH''", simplified]
    assms(2) [of "''IDEMPOTENCY_BODY_TOO_LARGE''", simplified]
  obtain reg1 where 1: "et_Register E CodeKeyMissing ''IDEMPOTENCY_KEY_MISSING'' 400 (et_GRPCCode E reg0 (et_InvalidArgument E)) False reg0 = Some reg1"
    "taken reg1 = (taken reg0)(1100 := True)" "named reg1 = (named reg0)(''IDEMPOTENCY_KEY_MISSING'' := True)"
    using step [of CodeKeyMissing reg0 "''IDEMPOTENCY_KEY_MISSING''"] free names by (simp add: adapter_codes) blast
  obtain reg2 where 2: "et_Register E CodeKeyInvalid ''IDEMPOTENCY_KEY_INVALID'' 400 (et_GRPCCode E reg1 (et_InvalidArgument E)) False reg1 = Some reg2"
    "taken reg2 = (taken reg1)(1101 := True)" "named reg2 = (named reg1)(''IDEMPOTENCY_KEY_INVALID'' := True)"
    using step [of CodeKeyInvalid reg1 "''IDEMPOTENCY_KEY_INVALID''"] free names 1(2,3) by (simp add: adapter_codes) blast
  obtain reg3 where 3: "et_Register E CodeInFlight ''IDEMPOTENCY_IN_FLIGHT'' 409 (et_GRPCCode E reg2 (et_Aborted E)) True reg2 = Some reg3"
    "taken reg3 = (taken reg2)(1102 := True)" "named reg3 = (named reg2)(''IDEMPOTENCY_IN_FLIGHT'' := True)"
    using step [of CodeInFlight reg2 "''IDEMPOTENCY_IN_FLIGHT''"] free names 1(2,3) 2(2,3) by (simp add: adapter_codes) blast
  obtain reg4 where 4: "et_Register E CodePayloadMismatch ''IDEMPOTENCY_PAYLOAD_MISMATCH'' 422
      (et_GRPCCode E reg3 (et_FailedPrecondition E)) False reg3 = Some reg4"
    "taken reg4 = (taken reg3)(1103 := True)" "named reg4 = (named reg3)(''IDEMPOTENCY_PAYLOAD_MISMATCH'' := True)"
    using step [of CodePayloadMismatch reg3 "''IDEMPOTENCY_PAYLOAD_MISMATCH''"] free names 1(2,3) 2(2,3) 3(2,3) by (simp add: adapter_codes) blast
  have "\<exists>reg. et_Register E CodeBodyTooLarge ''IDEMPOTENCY_BODY_TOO_LARGE'' 413 (et_GRPCCode E reg4 (et_ResourceExhausted E)) False reg4 = Some reg"
    using step [of CodeBodyTooLarge reg4 "''IDEMPOTENCY_BODY_TOO_LARGE''"] free names 1(2,3) 2(2,3) 3(2,3) 4(2,3) by (simp add: adapter_codes) blast
  then show ?thesis by (simp add: errtrail_init_def 1(1) 2(1) 3(1) 4(1))
qed

lemma init_status:
  assumes "errtrail_init E reg0 = Some reg"
  shows "http reg 1100 = 400" "http reg 1101 = 400" "http reg 1102 = 409" "http reg 1103 = 422" "http reg 1104 = 413"
  using assms by (auto simp: errtrail_init_def adapter_codes Option.bind_eq_Some_conv dest!: register_law)

lemma classify_status:
  assumes "errtrail_init E reg0 = Some reg" "assigned status err"
  shows "http reg (code (classify E status (Some err))) = status"
  using assms(2) by (auto simp: classify_def Let_def code_laws adapter_codes init_status [OF assms(1)] builtin_status assigned_def
      split: if_splits)

lemma WriteError_status:
  assumes "errtrail_init E reg0 = Some reg" "assigned status err" "errorWriter cfg = problemWriter"
    and "rw_sent (wd_w wd) = None" "\<not> rw_hijacked (wd_w wd)" "400 \<le> status" "status \<le> 599"
  shows "rel_prod (=) same_status (WriteError cfg r status err wd) (WriteError (cfg\<lparr>errorWriter := errtrail_Errors E reg\<rparr>) r status err wd)"
proof -
  obtain w1 h1 where 1: "problemWriter r status err (wd_w wd) = (False, w1)" "rw_sent w1 = Some (status, h1)"
    by (rule problemWriter_sends [OF assms(4,5,6), of r err]) (use assms(7) in auto)
  obtain w2 h2 where 2: "errtrail_Errors E reg r status err (wd_w wd) = (False, w2)" "rw_sent w2 = Some (status, h2)"
    using write_law [OF assms(4,5), of reg "classify E status (Some err)"] classify_status [OF assms(1,2)] assms(6,7)
    by (auto simp: errtrail_Errors_def)
  show ?thesis using assms(3) 1 2 by (simp add: WriteError_def same_status_def)
qed

lemma writeReplay_status:
  assumes "errtrail_init E reg0 = Some reg" "errorWriter cfg = problemWriter" "rw_sent (wd_w wd) = None" "\<not> rw_hijacked (wd_w wd)"
  shows "rel_prod (=) same_status (writeReplay sha256 cfg r sc key p wd)
    (writeReplay sha256 (cfg\<lparr>errorWriter := errtrail_Errors E reg\<rparr>) r sc key p wd)"
proof -
  have W: "rel_prod (=) same_status (WriteError cfg r 500 e wd') (WriteError (cfg\<lparr>errorWriter := errtrail_Errors E reg\<rparr>) r 500 e wd')"
    if "assigned 500 e" "wd_w wd' = wd_w wd" for e wd'
    using WriteError_status [OF assms(1) that(1) assms(2), of wd' r] that(2) assms(3,4) by simp
  have keys: "keyAttrs sha256 (cfg\<lparr>errorWriter := errtrail_Errors E reg\<rparr>) sc key = keyAttrs sha256 cfg sc key"
    by (simp add: keyAttrs_def)
  show ?thesis
    by (auto simp: writeReplay_def keys log_error_def intro: W assigned_payload assigned_rejections(5) split: sum.splits)
qed

lemma serve_keyed_status:
  assumes "errtrail_init E reg0 = Some reg" "errorWriter cfg = problemWriter" "rw_sent (wd_w wd) = None" "\<not> rw_hijacked (wd_w wd)"
    and store: "\<And>k fp o' s err. fst (Begin S (ce_rnd env) (ce_begin env) k fp o' s) = Inl err \<Longrightarrow> foreign err"
  shows "rel_prod (=) same_status (serve_keyed sha256 S cfg h env key body r c wd)
    (serve_keyed sha256 S (cfg\<lparr>errorWriter := errtrail_Errors E reg\<rparr>) h env key body r c wd)"
proof -
  let ?cfg' = "cfg\<lparr>errorWriter := errtrail_Errors E reg\<rparr>"
  have cfg': "scope_of ?cfg' r = scope_of cfg r" "lease_options ?cfg' = lease_options cfg" "keyAttrs sha256 ?cfg' sc key = keyAttrs sha256 cfg sc key" for sc
    by (simp_all add: scope_of_def lease_options_def keyAttrs_def)
  obtain res s1 where B: "Begin S (ce_rnd env) (ce_begin env) (scoped_key (scope_of cfg r) key)
      (Fingerprint_of sha256 (Method r) (ReqURL r) body) (lease_options cfg) (wd_store wd) = (res, s1)" by (meson surj_pair)
  have D: "store_do (Begin S (ce_rnd env) (ce_begin env) (scoped_key (scope_of cfg r) key)
      (Fingerprint_of sha256 (Method r) (ReqURL r) body) (lease_options cfg)) wd = (res, wd\<lparr>wd_store := s1\<rparr>)"
    by (simp add: store_do_def B)
  note W = WriteError_status [OF assms(1) _ assms(2)]
  show ?thesis
  proof (cases res)
    case (Inl err)
    have "foreign err" using store B Inl by (metis fst_conv)
    show ?thesis using Inl assms(3,4) by (simp add: serve_keyed_def cfg' D W [OF assigned_rejections(7) [OF \<open>foreign err\<close>]])
  next
    case (Inr out)
    have P: "serve_proceed S ?cfg' h env at' k tok o' r c wd' = serve_proceed S cfg h env at' k tok o' r c wd'" for at' k tok o' wd'
      unfolding serve_proceed_def run_under_lease_def settle_ew by simp
    show ?thesis
      using Inr assms(3,4)
      by (cases "Action out") (simp_all add: serve_keyed_def cfg' D P W [OF assigned_rejections(3)] W [OF assigned_rejections(4)]
          writeReplay_status [OF assms(1,2)])
  qed
qed

lemma ServeHTTP_status:
  assumes "errtrail_init E reg0 = Some reg" "errorWriter cfg = problemWriter" "rw_sent (wd_w wd) = None" "\<not> rw_hijacked (wd_w wd)"
    and body: "\<And>err. readBody r (maxRequestBody cfg) = Inl err \<Longrightarrow> foreign err"
    and store: "\<And>k fp o' s err. fst (Begin S (ce_rnd env) (ce_begin env) k fp o' s) = Inl err \<Longrightarrow> foreign err"
  shows "rel_prod (=) same_status (ServeHTTP sha256 S cfg h env r c wd)
    (ServeHTTP sha256 S (cfg\<lparr>errorWriter := errtrail_Errors E reg\<rparr>) h env r c wd)"
proof -
  have W: "rel_prod (=) same_status (WriteError cfg r status err wd) (WriteError (cfg\<lparr>errorWriter := errtrail_Errors E reg\<rparr>) r status err wd)"
    if "assigned status err" "400 \<le> status" "status \<le> 599" for status err
    by (rule WriteError_status [OF assms(1) that(1) assms(2-4) that(2,3)])
  note K = serve_keyed_status [OF assms(1-4) store]
  show ?thesis
    using W [OF assigned_key] W [OF assigned_rejections(1)] W [OF assigned_rejections(2)] W [OF assigned_rejections(6) [OF body]] K
    by (auto simp: ServeHTTP_def keyAttrs_def split: sum.splits)
qed

end

subsection \<open>A reference library\<close>

record et_entry =
  en_name :: string
  en_http :: int
  en_grpc :: int
  en_retry :: bool

type_synonym et_registry = "(Code \<times> et_entry) list"
type_synonym et_error = "Code \<times> string \<times> string"

definition ref_http :: "et_registry \<Rightarrow> Code \<Rightarrow> int" where
  "ref_http reg cd = (if cd < 100 then (if cd = 3 then 400 else if cd = 14 then 503 else 500)
     else case map_of reg cd of None \<Rightarrow> 500 | Some e \<Rightarrow> en_http e)"

definition ref_taken :: "et_registry \<Rightarrow> Code \<Rightarrow> bool" where
  "ref_taken reg cd \<longleftrightarrow> map_of reg cd \<noteq> None"

definition ref_named :: "et_registry \<Rightarrow> string \<Rightarrow> bool" where
  "ref_named reg nm \<longleftrightarrow> list_ex (\<lambda>x. en_name (snd x) = nm) reg"

definition reference_errtrail :: "(et_registry, et_error) errtrail" where
  "reference_errtrail = \<lparr>et_Unknown = 2, et_InvalidArgument = 3, et_Aborted = 10, et_FailedPrecondition = 9,
     et_ResourceExhausted = 8, et_Unavailable = 14,
     et_GRPCCode = (\<lambda>reg cd. if cd < 100 then cd else case map_of reg cd of None \<Rightarrow> 2 | Some e \<Rightarrow> en_grpc e),
     et_Register = (\<lambda>cd nm st g rt reg. if cd < 100 \<or> ref_taken reg cd \<or> ref_named reg nm then None
        else Some ((cd, \<lparr>en_name = nm, en_http = st, en_grpc = g, en_retry = rt\<rparr>) # reg)),
     et_Retryable = (\<lambda>reg cd. if cd < 100 then cd = 10 \<or> cd = 14
        else case map_of reg cd of None \<Rightarrow> False | Some e \<Rightarrow> en_retry e),
     et_New = (\<lambda>cd m. (cd, m, [])), et_WithPublic = (\<lambda>m (cd, i, _). (cd, i, m)), et_Wrap = (\<lambda>(cd, i, p) m. (cd, m @ '': '' @ i, p)),
     et_CodeOf = (\<lambda>e. if e = Opaque ''unavailable'' then 14 else 2),
     problem_Write = (\<lambda>reg (cd, _, p). problemWriter demo_request (ref_http reg cd) (Opaque p))\<rparr>"

interpretation re: errtrail_library reference_errtrail ref_http fst ref_taken ref_named
proof (unfold_locales, goal_cases)
  case (11 cd nm st g rt reg reg')
  then show ?case
    by (auto simp: reference_errtrail_def ref_http_def ref_taken_def ref_named_def fun_eq_iff split: if_splits)
next
  case (12 w reg x)
  obtain cd i p where x: "x = (cd, i, p)" by (metis prod.exhaust)
  show ?case
    using problemWriter_sends [of w "ref_http reg cd" demo_request "Opaque p"] 12 x by (fastforce simp: reference_errtrail_def)
qed (auto simp: reference_errtrail_def ref_http_def)

definition demo_registry :: et_registry where
  "demo_registry = the (errtrail_init reference_errtrail [])"

lemma demo_registry: "errtrail_init reference_errtrail [] = Some demo_registry"
  by code_simp

subsection \<open>Properties\<close>

text \<open>
  (C24) With the adapter's error writer the middleware behaves as with its default one, up to the header
  and the body of rejections: every request has the same outcome, the same handler calls, the
  same effect on the store and the same log, and every response has the same status.
\<close>

theorem errtrail_keeps_statuses:
  assumes lib: "errtrail_library E http code taken named" and init: "errtrail_init E reg0 = Some reg"
    and "errorWriter cfg = problemWriter" "fresh_rw (wd_w wd)"
    and outside: "\<And>err. readBody r (maxRequestBody cfg) = Inl err \<Longrightarrow> foreign err"
      "foreign_store S" "\<And>err. ce_rnd env = Inl err \<Longrightarrow> foreign err"
    and runs: "ServeHTTP sha256 S cfg h env r c wd = (p, wd1)"
      "ServeHTTP sha256 S (opt_Errors (errtrail_Errors E reg) cfg) h env r c wd = (p', wd2)"
  shows "p' = p \<and> wd_calls wd2 = wd_calls wd1 \<and> wd_store wd2 = wd_store wd1 \<and> wd_log wd2 = wd_log wd1 \<and>
    map_option fst (rw_sent (wd_w wd2)) = map_option fst (rw_sent (wd_w wd1))"
proof -
  have "rel_prod (=) same_status (ServeHTTP sha256 S cfg h env r c wd)
      (ServeHTTP sha256 S (cfg\<lparr>errorWriter := errtrail_Errors E reg\<rparr>) h env r c wd)"
    by (rule errtrail_library.ServeHTTP_status [OF lib init assms(3)])
      (use assms(4) outside(1) Begin_foreign [OF outside(2,3)] in \<open>simp_all add: fresh_rw_def\<close>)
  then show ?thesis using runs by (simp add: opt_Errors_def same_status_def)
qed

definition two_keys :: Request where
  "two_keys = demo_request\<lparr>ReqHeader := [(''Idempotency-Key'', [''a'', ''b''])]\<rparr>"

theorem errtrail_keeps_statuses_witness:
  "\<exists>wd2. ServeHTTP (\<lambda>x. x) mem_Store (opt_Errors (errtrail_Errors reference_errtrail demo_registry) default_config) demo_handler
     (demo_env 0) two_keys background (demo_world mem_New) = (False, wd2) \<and> wd_calls wd2 = [] \<and>
     map_option fst (rw_sent (wd_w wd2)) = Some 400"
proof -
  let ?run = "\<lambda>cfg. ServeHTTP (\<lambda>x. x) mem_Store cfg demo_handler (demo_env 0) two_keys background (demo_world mem_New)"
  have plain: "fst (?run default_config) = False" "wd_calls (snd (?run default_config)) = []"
    "map_option fst (rw_sent (wd_w (snd (?run default_config)))) = Some 400" by code_simp+
  obtain p wd1 p' wd2 where runs: "?run default_config = (p, wd1)"
    "?run (opt_Errors (errtrail_Errors reference_errtrail demo_registry) default_config) = (p', wd2)" by (meson surj_pair)
  have "p' = p \<and> wd_calls wd2 = wd_calls wd1 \<and> wd_store wd2 = wd_store wd1 \<and> wd_log wd2 = wd_log wd1 \<and>
    map_option fst (rw_sent (wd_w wd2)) = map_option fst (rw_sent (wd_w wd1))"
    by (rule errtrail_keeps_statuses [OF re.errtrail_library_axioms demo_registry _ _ _ _ _ runs])
      (auto simp: default_config_def two_keys_def demo_request_def readBody_def ReadAll_limited_def mem_Store_def mem_Reserve_def foreign_def foreign_store_def
        split: prod.splits option.splits if_splits)
  then show ?thesis using plain runs by auto
qed

text \<open>
  (C25) With the adapter's policy a handler that reports an error with a retryable code is never
  replayed, whatever status it answered with: the response reaches the client, nothing is
  stored, and the key is free again.
\<close>

theorem errtrail_retryable_reexecutes:
  assumes store: "lease_store S sinv sview sclock up grant keep rebuilt"
    and req: "accepted cfg r key body" "ce_rnd env = Inr b" "policy cfg = errtrail_Policy E reg"
    and k: "k = scoped_key (scope_of cfg (rebuffer r body)) key"
    and fp: "fp = Fingerprint_of sha256 (Method r) (ReqURL r) body"
    and free: "sinv (at_between (ce_begin env 1) (wd_store wd))" "up (at_store (ce_begin env 1))"
      "sview (sclock (at_store (ce_begin env 1))) (at_between (ce_begin env 1) (wd_store wd)) k = None"
    and run: "run_under_lease cfg h (rebuffer r body) (lease_ctx k (EncodeToString b) (lease_options cfg) c) (wd_w wd)
        (snd (Begin S (ce_rnd env) (ce_begin env) k fp (lease_options cfg) (wd_store wd))) = (False, st)"
      "\<not> finished (cp_ctx st)"
    and reported: "handlerErr (cp_ctx st) = Some e" "et_CodeOf E e \<noteq> et_Unknown E" "et_Retryable E reg (et_CodeOf E e)"
    and fin: "sinv (ce_before_finish env (cp_store st))" "up (ce_finish env)" "sclock (ce_finish env) \<le> t"
      "held_by (sview (sclock (ce_finish env)) (ce_before_finish env (cp_store st))) k (EncodeToString b) l"
  shows "\<exists>wd'. ServeHTTP sha256 S cfg h env r c wd = (False, wd') \<and> wd_w wd' = cw_w (cp_cw st) \<and>
    sview t (wd_store wd') = (sview t (ce_before_finish env (cp_store st)))(k := None)"
proof -
  have client: "lease_client S sinv sview sclock up grant keep rebuilt" by (rule lease_client.intro [OF store])
  let ?s1 = "snd (Begin S (ce_rnd env) (ce_begin env) k fp (lease_options cfg) (wd_store wd))"
  have discard: "Discard = policy cfg (Status (cw_rec (cw_finalize (cp_cw st)))) (handlerErr (cp_ctx st))"
    using reported by (simp add: req(3) errtrail_Policy_def Let_def)
  from lease_client.proceed_discards [OF client, where wd = "wd\<lparr>wd_store := ?s1\<rparr>", simplified, OF run refl discard disjI1 [OF refl] fin]
  obtain wd' where "serve_proceed S cfg h env (keyAttrs sha256 cfg (scope_of cfg (rebuffer r body)) key) k (EncodeToString b)
      (lease_options cfg) (rebuffer r body) c (wd\<lparr>wd_store := ?s1\<rparr>) = (False, wd')" "wd_w wd' = cw_w (cp_cw st)"
    "sview t (wd_store wd') = (sview t (ce_before_finish env (cp_store st)))(k := None)" by metis
  then show ?thesis by (simp add: lease_client.serve_first [OF client req(1,2) free k fp])
qed

definition busy_handler :: "'s handler" where
  "busy_handler r c = Do (SetError (Some (Opaque ''unavailable''))) (\<lambda>_. Do (WriteHeader 200) (\<lambda>_. Done))"

definition errtrail_config :: config where
  "errtrail_config = New (errtrail_Options reference_errtrail demo_registry)"

definition busy_cw :: captureWriter where
  "busy_cw = snd (cw_WriteHeader 200 \<lparr>cw_w = new_rw None None,
     cw_rec = NewRecorder (maxResponseBody errtrail_config) (storeHeaders errtrail_config), wroteHeader = False\<rparr>)"

definition busy_end :: "ctx \<Rightarrow> 's \<Rightarrow> 's capture" where
  "busy_end c s = \<lparr>cp_cw = busy_cw, cp_ctx = SetError_ctx (Some (Opaque ''unavailable'')) c, cp_store = s\<rparr>"

lemma busy_write:
  "cw_WriteHeader 200 \<lparr>cw_w = new_rw None None, cw_rec = NewRecorder (maxResponseBody errtrail_config) (storeHeaders errtrail_config),
     wroteHeader = False\<rparr> = (False, busy_cw)" "rw_sent (cw_w busy_cw) = Some (200, [])"
  by code_simp+

lemma busy_run: "run_under_lease errtrail_config busy_handler r c (new_rw None None) s = (False, busy_end c s)"
  by (simp add: run_under_lease_def busy_handler_def cap_step_def busy_write busy_end_def)

lemma busy_facts:
  "\<not> finished (cp_ctx (busy_end (lease_ctx k tok o' c) s))" "handlerErr (cp_ctx (busy_end (lease_ctx k tok o' c) s)) = Some (Opaque ''unavailable'')"
  "cp_store (busy_end c s) = s"
  by (simp_all add: busy_end_def lease_ctx_def SetError_ctx_def finished_def FinishChannel_def finishedBox_done_def handlerErr_def ErrorChannel_def
        ContextWithReservation_def errBox_get_def errBox_set_def)

lemma errtrail_config_facts:
  "accepted errtrail_config demo_request ''k1'' ''x''" "policy errtrail_config = errtrail_Policy reference_errtrail demo_registry"
  "scoped_key (scope_of errtrail_config (rebuffer demo_request ''x'')) ''k1'' = ''k1''"
  "leaseTTL (lease_options errtrail_config) = 30000000000"
  by (code_simp, simp add: errtrail_config_def New_def errtrail_Options_def opt_Policy_def opt_Errors_def, code_simp+)

theorem errtrail_retryable_reexecutes_witness:
  "\<exists>wd'. ServeHTTP (\<lambda>x. x) mem_Store errtrail_config busy_handler (demo_env 0) demo_request background
     (demo_world mem_New) = (False, wd') \<and> rw_sent (wd_w wd') = Some (200, []) \<and> mem_view 1 (wd_store wd') ''k1'' = None"
proof -
  let ?fp = "Fingerprint_of (\<lambda>x. x) (Method demo_request) (ReqURL demo_request) ''x''" and ?o = "lease_options errtrail_config"
  let ?c = "lease_ctx ''k1'' (EncodeToString ''ab'') ?o background"
  let ?s1 = "snd (Begin mem_Store (ce_rnd (demo_env 0)) (ce_begin (demo_env 0)) ''k1'' ?fp ?o (wd_store (demo_world mem_New)))"
  let ?rc = "reservation_of ''k1'' ?fp (EncodeToString ''ab'') ?o 0"
  have s1: "?s1 = \<lparr>recs = [''k1'' \<mapsto> ?rc]\<rparr>" by (simp add: demo_Begin del: demo_sel(2))
  have held: "held_by (mem_view (ce_finish (demo_env 0)) (ce_before_finish (demo_env 0) (cp_store (busy_end ?c ?s1)))) ''k1'' (EncodeToString ''ab'') (lease_of ?rc)"
    unfolding s1 busy_facts(3) by (simp add: held_by_def mem_view_def Expired_def errtrail_config_facts)
  have inv: "mem_inv (ce_before_finish (demo_env 0) (cp_store (busy_end ?c ?s1)))" unfolding s1 busy_facts(3) by (simp add: demo_inv)
  have run: "run_under_lease errtrail_config busy_handler (rebuffer demo_request ''x'') ?c (wd_w (demo_world mem_New)) ?s1 = (False, busy_end ?c ?s1)"
    by (simp only: demo_sel(5) busy_run)
  have retry: "et_CodeOf reference_errtrail (Opaque ''unavailable'') \<noteq> et_Unknown reference_errtrail"
    "et_Retryable reference_errtrail demo_registry (et_CodeOf reference_errtrail (Opaque ''unavailable''))" by code_simp+
  have "\<exists>wd'. ServeHTTP (\<lambda>x. x) mem_Store errtrail_config busy_handler (demo_env 0) demo_request background (demo_world mem_New) = (False, wd') \<and>
      wd_w wd' = cw_w (cp_cw (busy_end ?c ?s1)) \<and>
      mem_view 1 (wd_store wd') = (mem_view 1 (ce_before_finish (demo_env 0) (cp_store (busy_end ?c ?s1))))(''k1'' := None)"
    by (rule errtrail_retryable_reexecutes [OF ms.lease_store_axioms errtrail_config_facts(1) demo_sel(1) errtrail_config_facts(2)
          errtrail_config_facts(3) [symmetric] refl _ TrueI _ run busy_facts(1,2) retry inv TrueI _ held])
      (simp_all add: mem_inv_New mem_view_New)
  then show ?thesis by (auto simp: busy_end_def busy_write(2))
qed

end
