(* ===== verification/Store_Inspection.thy ===== *)
theory Store_Inspection
  imports Memstore Redis_Store Pg_Store
begin

section \<open>What the finishing errors and Get tell\<close>

text \<open>
  The rest of the interface contract (\<^verbatim>\<open>store.go\<close>), which the request path does not depend on: \<open>Get\<close>
  reports the live record and changes nothing, and the two sentinels of \<open>Complete\<close> and
  \<open>Release\<close> tell a reservation under another token from a missing record. \<open>found e d\<close> is how \<open>Get\<close>
  reports a deadline on the caller's clock. The three stores keep it.
\<close>

locale inspectable_store = lease_store S sinv sview sclock up grant keep rebuilt
  for S :: "('s, 'e) Store" and sinv sview sclock up grant keep rebuilt +
  fixes found :: "'e \<Rightarrow> Time \<Rightarrow> Time"
  assumes get_inv: "\<lbrakk>sinv s; Get S e k s = (res, s')\<rbrakk> \<Longrightarrow> sinv s'"
    and get_live:
      "\<lbrakk>sinv s; up e; sview (sclock e) s k = Some l; Get S e k s = (res, s'); sclock e \<le> t\<rbrakk>
       \<Longrightarrow> (\<exists>x. res = (Some x, None) \<and> reports x k l \<and> active_deadline x = found e (l_deadline l)) \<and> sview t s' = sview t s"
    and get_absent:
      "\<lbrakk>sinv s; up e; sview (sclock e) s k = None; Get S e k s = (res, s'); sclock e \<le> t\<rbrakk>
       \<Longrightarrow> res = (None, None) \<and> sview t s' = sview t s"
    and complete_mismatch:
      "\<lbrakk>sinv s; up e; sview (sclock e) s k = Some l; l_state l = StateReserved; l_token l \<noteq> tok;
        Complete S e k tok p ttl s = (err, s')\<rbrakk> \<Longrightarrow> \<exists>x. err = Some x \<and> errors_Is x ErrTokenMismatch"
    and complete_missing:
      "\<lbrakk>sinv s; up e; sview (sclock e) s k = None; Complete S e k tok p ttl s = (err, s')\<rbrakk>
       \<Longrightarrow> \<exists>x. err = Some x \<and> errors_Is x ErrNotFound"
    and release_mismatch:
      "\<lbrakk>sinv s; up e; sview (sclock e) s k = Some l; l_state l = StateReserved; l_token l \<noteq> tok;
        Release S e k tok s = (err, s')\<rbrakk> \<Longrightarrow> \<exists>x. err = Some x \<and> errors_Is x ErrTokenMismatch"
    and release_missing:
      "\<lbrakk>sinv s; up e; sview (sclock e) s k = None; Release S e k tok s = (err, s')\<rbrakk>
       \<Longrightarrow> \<exists>x. err = Some x \<and> errors_Is x ErrNotFound"

subsection \<open>The in-memory store\<close>

interpretation mi: inspectable_store mem_Store mem_inv mem_view "\<lambda>now. now" "\<lambda>_. True"
  "\<lambda>_ r. LeaseExpiresAt r" "\<lambda>now ttl. now + ttl" "\<lambda>_ d. d" "\<lambda>_ d. d"
proof (unfold_locales, goal_cases)
  case (1 s e k res s')
  then show ?case by (cases rule: mem_lookup_cases [of e s k]) (auto simp: mem_inv_def mem_Get_def split: if_splits)
next
  case (2 s e k l res s' t)
  then show ?case by (cases rule: mem_lookup_cases [of e s k]) (auto simp: mem_Get_def reports_def mem_inv_def)
next
  case (3 s e k res s' t)
  then show ?case using mem_view_mono [OF 3(3), of t]
    by (cases rule: mem_lookup_cases [of e s k]) (auto simp: mem_Get_def mem_view_del)
next
  case (4 s e k l tok p ttl err s')
  then show ?case by (cases rule: mem_lookup_cases [of e s k]) (auto simp: mem_Complete_def)
next
  case (5 s e k tok p ttl err s')
  then show ?case by (cases rule: mem_lookup_cases [of e s k]) (auto simp: mem_Complete_def)
next
  case (6 s e k l tok err s')
  then show ?case by (cases rule: mem_lookup_cases [of e s k]) (auto simp: mem_Release_def)
next
  case (7 s e k tok err s')
  then show ?case by (cases rule: mem_lookup_cases [of e s k]) (auto simp: mem_Release_def)
qed

subsection \<open>The PostgreSQL store\<close>

definition pg_found :: "pg_env \<Rightarrow> Time \<Rightarrow> Time" where
  "pg_found e d = st_clock (pe_exec e) + wrap64 (wrap64 (interval_ms (d - pg_clock e)) * Millisecond)"

lemma pg_get_state: "pg_inv tbl \<Longrightarrow> pg_Get e k tbl = (res, tbl') \<Longrightarrow> pg_inv tbl'"
  by (auto simp: pg_Get_def run_stmt_def others_inv Let_def split: option.splits sum.splits prod.splits if_splits)

lemma pg_get_live:
  assumes "pg_inv tbl" "pg_up e" "pg_view (pg_clock e) tbl k = Some l" "pg_Get e k tbl = (res, tbl')"
  shows "tbl' = tbl \<and> (\<exists>x. res = (Some x, None) \<and> reports x k l \<and> active_deadline x = pg_found e (l_deadline l))"
proof -
  have q: "quiet (pg_clock e) (pe_exec e)" using assms(2) by (simp add: pg_up_def)
  obtain x where x: "map_of tbl k = Some x" "row_ok x" "row_live (pg_clock e) x" "l = row_lease_of x"
    using assms(1,3) by (rule pg_view_Some)
  obtain r where r: "scanRecord (st_clock (pe_exec e)) k (Inr (Some (x, interval_ms (row_lease x - pg_clock e),
      map_option (\<lambda>d. interval_ms (d - pg_clock e)) (row_record x)))) = Inr r" "reports r k (row_lease_of x)"
    "active_deadline r = st_clock (pe_exec e) + wrap64 (wrap64 (interval_ms (row_deadline x - pg_clock e)) * Millisecond)"
    using x(2,3) by (rule scanRecord_live)
  show ?thesis
    using assms(4) x r by (auto simp: pg_Get_def run_quiet [OF q] qGet_def pg_found_def row_lease_of_def)
qed

lemma pg_get_absent:
  assumes "pg_inv tbl" "pg_up e" "pg_view (pg_clock e) tbl k = None" "pg_Get e k tbl = (res, tbl')"
  shows "tbl' = tbl \<and> res = (None, None)"
proof -
  have q: "quiet (pg_clock e) (pe_exec e)" using assms(2) by (simp add: pg_up_def)
  have "qGet (pg_clock e) k tbl = None" using pg_view_None [OF assms(1,3)] by (auto simp: qGet_def split: option.split)
  then show ?thesis using assms(4) by (auto simp: pg_Get_def run_quiet [OF q] scanRecord_def scan_def)
qed

text \<open>What the classifying statement reads after a finishing one changed nothing.\<close>

lemma pg_not_held:
  assumes "pg_inv tbl" "pg_view now tbl k = Some l" "l_state l = StateReserved" "l_token l \<noteq> tok"
  obtains x where "map_of tbl k = Some x" "\<not> row_held now tok x" "qClassify now k tbl = Some (l_token l)"
proof -
  obtain x where x: "map_of tbl k = Some x" "row_ok x" "row_live now x" "l = row_lease_of x"
    using assms(1,2) by (rule pg_view_Some)
  then show thesis
    using that assms(3,4) by (auto simp: row_lease_of_def row_held_def row_live_def qClassify_def split: if_splits)
qed

lemma pg_missing:
  assumes "pg_inv tbl" "pg_view now tbl k = None"
  shows "qClassify now k tbl = None" "qComplete now k tok p ms tbl = (0, tbl)" "qRelease now k tok tbl = (0, tbl)"
  using pg_view_None [OF assms] by (auto simp: qClassify_def qComplete_def qRelease_def row_held_def row_live_def split: option.split)

interpretation pgi: inspectable_store pg_Store pg_inv pg_view pg_clock pg_up pg_grant pg_keep pg_rebuilt pg_found
proof (unfold_locales, goal_cases)
  case (1 s e k res s')
  then show ?case by (simp add: pg_Store_def pg_get_state)
next
  case (2 s e k l res s' t)
  then show ?case using pg_get_live [of s e k l res s'] by (auto simp: pg_Store_def)
next
  case (3 s e k res s' t)
  then show ?case using pg_get_absent [of s e k res s'] by (simp add: pg_Store_def)
next
  case (4 s e k l tok p ttl err s')
  then have q: "quiet (pg_clock e) (pe_exec e)" "quiet (pg_clock e) (pe_classify e)" by (simp_all add: pg_up_def)
  obtain x where x: "map_of s k = Some x" "\<not> row_held (pg_clock e) tok x" "qClassify (pg_clock e) k s = Some (l_token l)"
    using 4 by (auto elim: pg_not_held)
  then show ?case using 4(5,6)
    by (auto simp: pg_Store_def pg_Complete_def run_quiet [OF q(1)] run_quiet [OF q(2)] qComplete_def classifyFailure_def scan_def)
next
  case (5 s e k tok p ttl err s')
  then have q: "quiet (pg_clock e) (pe_exec e)" "quiet (pg_clock e) (pe_classify e)" by (simp_all add: pg_up_def)
  show ?case using 5(4) pg_missing [OF 5(1,3)]
    by (auto simp: pg_Store_def pg_Complete_def run_quiet [OF q(1)] run_quiet [OF q(2)] classifyFailure_def scan_def)
next
  case (6 s e k l tok err s')
  then have q: "quiet (pg_clock e) (pe_exec e)" "quiet (pg_clock e) (pe_classify e)" by (simp_all add: pg_up_def)
  obtain x where x: "map_of s k = Some x" "\<not> row_held (pg_clock e) tok x" "qClassify (pg_clock e) k s = Some (l_token l)"
    using 6 by (auto elim: pg_not_held)
  then show ?case using 6(5,6)
    by (auto simp: pg_Store_def pg_Release_def run_quiet [OF q(1)] run_quiet [OF q(2)] qRelease_def classifyFailure_def scan_def)
next
  case (7 s e k tok err s')
  then have q: "quiet (pg_clock e) (pe_exec e)" "quiet (pg_clock e) (pe_classify e)" by (simp_all add: pg_up_def)
  show ?case using 7(4) pg_missing [OF 7(1,3)]
    by (auto simp: pg_Store_def pg_Release_def run_quiet [OF q(1)] run_quiet [OF q(2)] classifyFailure_def scan_def)
qed

subsection \<open>The Redis store\<close>

context redis_deployment
begin

lemma redis_get_state: "redis_Get R prefix e k r = (res, r') \<Longrightarrow> r' = r"
  by (auto simp: redis_Get_def run_script_def getScript_def Let_def split: option.splits sum.splits prod.splits if_splits redis_value.splits)

lemma redis_get_live:
  assumes "redis_inv raw prefix r" "redis_up e" "redis_view raw grace prefix (re_ms e) r k = Some l" "redis_Get R prefix e k r = (res, r')"
  shows "\<exists>x. res = (Some x, None) \<and> reports x k l \<and> active_deadline x = redis_rebuilt grace e (l_deadline l)"
proof -
  have up: "re_fail e = None" "re_lost e = None" using assms(2) by (simp_all add: redis_up_def)
  obtain f d where fd: "live_fields grace (re_ms e) (raw r) (redisKey prefix k) = Some (f, Some d)"
    "l = redis_lease grace f d" "re_ms e < d + grace" "raw r (redisKey prefix k) = Some (f, Some d)"
    using assms(3) by (rule redis_view_Some)
  let ?fs = "HGETALL R (re_ms e) (redisKey prefix k) r"
  have wf: "wf_fields f" using assms(1) fd(4) by (simp add: redis_inv_def)
  have fs: "map_of ?fs = f" "distinct (map fst ?fs)" using hgetall_law [OF fd(1)] by simp_all
  have pos: "0 \<le> d - re_ms e" using fd(3) grace by auto
  obtain x where x: "recordFromReply (re_after e) k [RInt (d - re_ms e), RArr (flatten_fields ?fs)] = Inr x"
    "reports x k (redis_lease grace f d)" "active_deadline x = re_after e + wrap64 (wrap64 (d - re_ms e) * Millisecond)"
    using recordFromReply_wf [OF _ fs(2) pos, of "re_after e" k grace d] fs(1) wf by metis
  have "run_script e (\<lambda>now. getScript R now (redisKey prefix k)) r = (Inr (RArr [RInt (d - re_ms e), RArr (flatten_fields ?fs)]), r)"
    using fd(1) exists_law [of "re_ms e" "redisKey prefix k" r] pttl_law [OF fd(1)] up by (simp add: getScript_def run_script_def)
  with assms(4) x fd(2) show ?thesis by (auto simp: redis_Get_def redis_rebuilt_def redis_lease_def)
qed

lemma redis_get_absent:
  assumes "redis_inv raw prefix r" "redis_up e" "redis_view raw grace prefix (re_ms e) r k = None" "redis_Get R prefix e k r = (res, r')"
  shows "res = (None, None)"
  using assms(2,4) redis_view_None [OF assms(1,3)] exists_law [of "re_ms e" "redisKey prefix k" r]
  by (auto simp: redis_Get_def run_script_def redis_up_def getScript_def)

lemma redis_status:
  assumes "redis_inv raw prefix r"
  shows "redis_view raw grace prefix t r k = None \<Longrightarrow> token_check R t (redisKey prefix k) tok r = Some ''NOT_FOUND''"
    and "redis_view raw grace prefix t r k = Some l \<Longrightarrow> l_token l \<noteq> tok \<Longrightarrow>
      token_check R t (redisKey prefix k) tok r = Some ''TOKEN_MISMATCH''"
proof -
  show "token_check R t (redisKey prefix k) tok r = Some ''NOT_FOUND''" if "redis_view raw grace prefix t r k = None"
    by (rule token_check_absent [OF redis_view_None [OF assms that]])
  show "token_check R t (redisKey prefix k) tok r = Some ''TOKEN_MISMATCH''"
    if l: "redis_view raw grace prefix t r k = Some l" "l_token l \<noteq> tok"
  proof -
    obtain f d where fd: "live_fields grace t (raw r) (redisKey prefix k) = Some (f, Some d)" "l = redis_lease grace f d"
      "raw r (redisKey prefix k) = Some (f, Some d)" using l(1) by (rule redis_view_Some)
    then show ?thesis using token_check_cases [OF fd(1)] assms l(2) by (simp add: redis_inv_def redis_lease_def)
  qed
qed

lemma redis_finish_status:
  assumes "redis_up e" "token_check R (re_ms e) (redisKey prefix k) tok r = Some st"
  shows "redis_Complete R prefix e k tok p ttl r = (statusToErr (RStr st) ''complete'', r)"
    and "redis_Release R prefix e k tok r = (statusToErr (RStr st) ''release'', r)"
  using assms by (simp_all add: redis_Complete_def redis_Release_def run_script_def redis_up_def completeScript_def releaseScript_def Let_def)

end

sublocale redis_deployment \<subseteq> ri: inspectable_store "redis_Store R prefix" "redis_inv raw prefix"
  "redis_view raw grace prefix" re_ms redis_up "redis_grant grace" "redis_keep grace" "redis_rebuilt grace" "redis_rebuilt grace"
proof (unfold_locales, goal_cases)
  case (1 s e k res s')
  then show ?case using redis_get_state [of e k s res s'] by simp
next
  case (2 s e k l res s' t)
  then show ?case using redis_get_live [of s e k l res s'] redis_get_state [of e k s res s'] by simp
next
  case (3 s e k res s' t)
  then show ?case using redis_get_absent [of s e k res s'] redis_get_state [of e k s res s'] by simp
next
  case (4 s e k l tok p ttl err s')
  then show ?case using redis_finish_status(1) [OF 4(2) redis_status(2) [OF 4(1,3,5)]] by auto
next
  case (5 s e k tok p ttl err s')
  then show ?case using redis_finish_status(1) [OF 5(2) redis_status(1) [OF 5(1,3)]] by auto
next
  case (6 s e k l tok err s')
  then show ?case using redis_finish_status(2) [OF 6(2) redis_status(2) [OF 6(1,3,5)]] by auto
next
  case (7 s e k tok err s')
  then show ?case using redis_finish_status(2) [OF 7(2) redis_status(1) [OF 7(1,3)]] by auto
qed

end
