(* ===== verification/Conformance_Bench.thy ===== *)
theory Conformance_Bench
  imports Store_Inspection
begin

section \<open>The language of the conformance suites\<close>

text \<open>
  The subtests of \<^verbatim>\<open>idemleasetest\<close> are straight-line programs over a store. A test maps the number of
  the operation that comes next and the state of the store to the list of failures it
  reports; \<open>Fatalf\<close> ends it, \<open>Errorf_unless\<close> goes on. A bench holds what the operations
  read from outside: for each operation its environment, and \<^verbatim>\<open>time.Now()\<close> before and after
  it. A sleep counts as an operation that leaves the store alone; on a bench on which the clock has
  not advanced past the deadline afterwards it reports a failure, since \<^verbatim>\<open>time.Sleep\<close> never
  returns early.
\<close>

type_synonym 's test = "nat \<Rightarrow> 's \<Rightarrow> string list"
type_synonym ('s, 'e) bench = "nat \<Rightarrow> nat \<Rightarrow> ('s, 'e) attempt_env"

definition op_env :: "('s, 'e) bench \<Rightarrow> nat \<Rightarrow> 'e" where
  "op_env b i = at_store (b i 1)"

definition now_before :: "('s, 'e) bench \<Rightarrow> nat \<Rightarrow> Time" where
  "now_before b i = at_deadline (b i 1)"

definition now_after :: "('s, 'e) bench \<Rightarrow> nat \<Rightarrow> Time" where
  "now_after b i = at_check (b i 1)"

definition validTTL :: Duration where "validTTL = 60 * Second"
definition shortTTL :: Duration where "shortTTL = 100 * Millisecond"
definition timeTolerance :: Duration where "timeTolerance = Second"

definition test_end :: "'s test" where
  "test_end i s = []"

definition Fatalf :: "string \<Rightarrow> 's test" where
  "Fatalf msg i s = [msg]"

definition Fatalf_unless :: "bool \<Rightarrow> string \<Rightarrow> 's test \<Rightarrow> 's test" where
  "Fatalf_unless ok msg k = (if ok then k else Fatalf msg)"

definition Errorf_unless :: "bool \<Rightarrow> string \<Rightarrow> 's test \<Rightarrow> 's test" where
  "Errorf_unless ok msg k i s = (if ok then [] else [msg]) @ k i s"

definition with_now :: "('s, 'e) bench \<Rightarrow> (Time \<Rightarrow> 's test) \<Rightarrow> 's test" where
  "with_now b k i s = k (now_before b i) i s"

definition with_now_after :: "('s, 'e) bench \<Rightarrow> (Time \<Rightarrow> 's test) \<Rightarrow> 's test" where
  "with_now_after b k i s = k (now_after b (i - 1)) i s"

subsection \<open>Operations\<close>

definition reservedRecord :: "string \<Rightarrow> string \<Rightarrow> bytes \<Rightarrow> Duration \<Rightarrow> Time \<Rightarrow> Record" where
  "reservedRecord key token fingerprint ttl now = \<lparr>Key = key, Fingerprint = fingerprint, State = StateReserved, Token = token,
     LeaseExpiresAt = time_Add now ttl, RecordExpiresAt = zero_Time, Payload = []\<rparr>"

lemma reservedRecord_sel [simp]:
  "Key (reservedRecord key tok fp ttl now) = key" "Fingerprint (reservedRecord key tok fp ttl now) = fp"
  "State (reservedRecord key tok fp ttl now) = StateReserved" "Token (reservedRecord key tok fp ttl now) = tok"
  "LeaseExpiresAt (reservedRecord key tok fp ttl now) = now + ttl" "Payload (reservedRecord key tok fp ttl now) = []"
  by (simp_all add: reservedRecord_def time_Add_def)

definition op_Reserve :: "('s, 'e) Store \<Rightarrow> ('s, 'e) bench \<Rightarrow> string \<Rightarrow> string \<Rightarrow> bytes \<Rightarrow> Duration \<Rightarrow>
    (Record \<Rightarrow> Record option \<Rightarrow> gerror option \<Rightarrow> 's test) \<Rightarrow> 's test" where
  "op_Reserve S b key token fp ttl k i s =
     (let rc = reservedRecord key token fp ttl (now_before b i); ((existing, err), s') = Reserve S (op_env b i) rc s
      in k rc existing err (Suc i) s')"

definition op_Complete :: "('s, 'e) Store \<Rightarrow> ('s, 'e) bench \<Rightarrow> string \<Rightarrow> string \<Rightarrow> bytes \<Rightarrow> Duration \<Rightarrow>
    (gerror option \<Rightarrow> 's test) \<Rightarrow> 's test" where
  "op_Complete S b key token payload ttl k i s =
     (let (err, s') = Complete S (op_env b i) key token payload ttl s in k err (Suc i) s')"

definition op_Release :: "('s, 'e) Store \<Rightarrow> ('s, 'e) bench \<Rightarrow> string \<Rightarrow> string \<Rightarrow> (gerror option \<Rightarrow> 's test) \<Rightarrow> 's test" where
  "op_Release S b key token k i s = (let (err, s') = Release S (op_env b i) key token s in k err (Suc i) s')"

definition op_Get :: "('s, 'e) Store \<Rightarrow> ('s, 'e) bench \<Rightarrow> string \<Rightarrow> (Record option \<Rightarrow> gerror option \<Rightarrow> 's test) \<Rightarrow> 's test" where
  "op_Get S b key k i s = (let ((got, err), s') = Get S (op_env b i) key s in k got err (Suc i) s')"

definition op_Begin :: "('s, 'e) Store \<Rightarrow> ('s, 'e) bench \<Rightarrow> (nat \<Rightarrow> bytes) \<Rightarrow> string \<Rightarrow> bytes \<Rightarrow> Options \<Rightarrow>
    (gerror + Outcome \<Rightarrow> 's test) \<Rightarrow> 's test" where
  "op_Begin S b rnd key fp opts k i s =
     (let (res, s') = Begin S (Inr (rnd i)) (b i) key fp opts s in k res (Suc i) s')"

definition op_Finish :: "('s, 'e) Store \<Rightarrow> ('s, 'e) bench \<Rightarrow> string \<Rightarrow> string \<Rightarrow> Decision \<Rightarrow> bytes \<Rightarrow> Options \<Rightarrow>
    (bool \<Rightarrow> gerror option \<Rightarrow> 's test) \<Rightarrow> 's test" where
  "op_Finish S b key token d payload opts k i s =
     (let ((leaseLost, err), s') = Finish S (op_env b i) key token d payload opts s in k leaseLost err (Suc i) s')"

subsection \<open>Helpers of the suites\<close>

definition mustReserveNew :: "('s, 'e) Store \<Rightarrow> ('s, 'e) bench \<Rightarrow> string \<Rightarrow> string \<Rightarrow> bytes \<Rightarrow> Duration \<Rightarrow>
    (Record \<Rightarrow> 's test) \<Rightarrow> 's test" where
  "mustReserveNew S b key token fp ttl k = op_Reserve S b key token fp ttl
     (\<lambda>rc existing err. Fatalf_unless (err = None \<and> existing = None) ''Reserve, want (nil, nil)'' (k rc))"

definition time_close :: "Time \<Rightarrow> Time \<Rightarrow> bool" where
  "time_close got want = (let d = time_Sub got want; d' = (if d < 0 then wrap64 (- d) else d) in \<not> d' > timeTolerance)"

definition assertTimeClose :: "string \<Rightarrow> Time \<Rightarrow> Time \<Rightarrow> 's test \<Rightarrow> 's test" where
  "assertTimeClose name got want k = Errorf_unless (time_close got want) (name @ '', want within tolerance'') k"

definition is_err :: "gerror option \<Rightarrow> sentinel \<Rightarrow> bool" where
  "is_err err x = (case err of None \<Rightarrow> False | Some e \<Rightarrow> errors_Is e x)"

definition assertStaleRejected :: "gerror option \<Rightarrow> 's test \<Rightarrow> 's test" where
  "assertStaleRejected err k = Fatalf_unless (is_err err ErrTokenMismatch \<or> is_err err ErrNotFound) ''want ErrTokenMismatch or ErrNotFound'' k"

definition waitUntilExpired :: "('s, 'e) bench \<Rightarrow> Time \<Rightarrow> 's test \<Rightarrow> 's test" where
  "waitUntilExpired b deadline k i s =
     (if time_Add deadline (150 * Millisecond) \<le> now_before b (Suc i) then k (Suc i) s else [''woke up early''])"

subsection \<open>Passing\<close>

text \<open>
  A test run on a bench: nobody else uses the store, every operation reaches it, the clocks do
  not go back, a test that sleeps does so at slot \<open>w\<close>, the clocks of store and test agree well
  enough that what has a valid TTL outlasts the test, and that 150 ms after its deadline
  what has a short TTL is gone for the store.
\<close>

locale bench_run = inspectable_store S sinv sview sclock up grant keep rebuilt found
  for S :: "('s, 'e) Store" and sinv sview sclock up grant keep rebuilt found +
  fixes b :: "('s, 'e) bench"
    and w :: nat
  assumes alone: "at_between (b i n) = id"
    and works: "up (op_env b i)"
    and clock_mono: "i \<le> j \<Longrightarrow> sclock (op_env b i) \<le> sclock (op_env b j)"
    and long_lease: "\<lbrakk>i < j; j \<le> 102; is_reservation r; LeaseExpiresAt r = now_before b i + validTTL; f = rebuilt \<or> f = found\<rbrakk> \<Longrightarrow>
        sclock (op_env b j) < grant (op_env b i) r \<and> now_after b j < f (op_env b j) (grant (op_env b i) r) \<and>
        f (op_env b j) (grant (op_env b i) r) - now_after b j \<le> validTTL \<and>
        \<bar>f (op_env b j) (grant (op_env b i) r) - (now_before b i + validTTL)\<bar> \<le> timeTolerance"
    and long_record: "\<lbrakk>i < j; j \<le> 102; f = rebuilt \<or> f = found\<rbrakk> \<Longrightarrow>
        sclock (op_env b j) < keep (op_env b i) validTTL \<and> now_after b j < f (op_env b j) (keep (op_env b i) validTTL) \<and>
        \<bar>f (op_env b j) (keep (op_env b i) validTTL) - (now_before b i + validTTL)\<bar> \<le> timeTolerance"
    and now_mono: "i \<le> j \<Longrightarrow> now_before b i \<le> now_before b j"
    and sleep: "now_before b w + shortTTL + 150 * Millisecond \<le> now_before b (Suc w)"
    and short_lease: "\<lbrakk>i < j; is_reservation r; LeaseExpiresAt r = now_before b i + shortTTL;
        LeaseExpiresAt r + 150 * Millisecond \<le> now_before b j\<rbrakk> \<Longrightarrow> grant (op_env b i) r \<le> sclock (op_env b j)"
    and short_record: "\<lbrakk>i < m; m < j; now_before b m + shortTTL + 150 * Millisecond \<le> now_before b j\<rbrakk> \<Longrightarrow>
        keep (op_env b i) shortTTL \<le> sclock (op_env b j)"
begin

text \<open>The store holds what the model of the test says it holds, from operation \<open>i\<close> on.\<close>

definition holds :: "nat \<Rightarrow> view \<Rightarrow> 's \<Rightarrow> bool" where
  "holds i v s \<longleftrightarrow> sinv s \<and> (\<forall>t. sclock (op_env b i) \<le> t \<longrightarrow> sview t s = live_at t v)"

definition passes :: "nat \<Rightarrow> view \<Rightarrow> 's test \<Rightarrow> bool" where
  "passes i v test \<longleftrightarrow> (\<forall>s. holds i v s \<longrightarrow> test i s = [])"

abbreviation live :: "nat \<Rightarrow> view \<Rightarrow> view" where
  "live i \<equiv> live_at (sclock (op_env b i))"

lemma holds_next:
  assumes "sinv s" "\<And>t. sclock (op_env b i) \<le> t \<Longrightarrow> sview t s = live_at t v"
  shows "holds (Suc i) v s"
  using assms clock_mono [of i "Suc i"] by (simp add: holds_def)

lemma passes_end [simp]: "passes i v test_end"
  by (simp add: passes_def test_end_def)

lemma passes_check [simp]: "ok \<Longrightarrow> passes i v (Fatalf_unless ok msg k) = passes i v k"
  by (simp add: Fatalf_unless_def)

lemma passes_Errorf [simp]: "ok \<Longrightarrow> passes i v (Errorf_unless ok msg k) = passes i v k"
  by (simp add: passes_def Errorf_unless_def)

lemma passes_now [simp]:
  "passes i v (with_now b k) = passes i v (k (now_before b i))"
  "passes (Suc i) v (with_now_after b k) = passes (Suc i) v (k (now_after b i))"
  by (simp_all add: passes_def with_now_def with_now_after_def)

lemma passes_wait:
  assumes "i = w" "deadline \<le> now_before b w + shortTTL"
  shows "passes (Suc i) v k \<Longrightarrow> passes i v (waitUntilExpired b deadline k)"
  using assms sleep clock_mono [of i "Suc i"] by (auto simp: passes_def holds_def waitUntilExpired_def time_Add_def)

lemma live_live: "sclock (op_env b i) \<le> t \<Longrightarrow> live_at t (live i v) = live_at t v"
  by (auto simp: live_at_def fun_eq_iff split: option.splits)

lemma live_upd_live: "sclock (op_env b i) \<le> t \<Longrightarrow> live_at t ((live i v)(k := Some l)) = live_at t (v(k := Some l))"
  by (simp add: live_at_upd_Some live_live)

lemma passes_Reserve:
  assumes "case live i v key of
      None \<Rightarrow> (\<forall>rc. rc = reservedRecord key tok fp ttl (now_before b i) \<longrightarrow>
        passes (Suc i) (v(key := Some (new_lease rc (grant (op_env b i) rc)))) (k rc None None))
    | Some l \<Rightarrow> (\<forall>rc x err. errors_Is err ErrAlreadyExists \<longrightarrow> reports x key l \<longrightarrow> active_deadline x = rebuilt (op_env b i) (l_deadline l) \<longrightarrow>
        passes (Suc i) v (k rc (Some x) (Some err)))"
  shows "passes i v (op_Reserve S b key tok fp ttl k)"
  unfolding passes_def
proof (intro allI impI)
  fix s assume h: "holds i v s"
  let ?rc = "reservedRecord key tok fp ttl (now_before b i)" and ?e = "op_env b i"
  have rc: "is_reservation ?rc" "Key ?rc = key" by (simp_all add: is_reservation_def)
  obtain res s' where R: "Reserve S ?e ?rc s = (res, s')" by (meson surj_pair)
  have inv: "sinv s" and view: "\<And>t. sclock ?e \<le> t \<Longrightarrow> sview t s = live_at t v" using h by (simp_all add: holds_def)
  have inv': "sinv s'" by (rule reserve_inv [OF inv rc(1) R])
  show "op_Reserve S b key tok fp ttl k i s = []"
  proof (cases "live i v key")
    case None
    have "sview (sclock ?e) s (Key ?rc) = None" using None view [OF order_refl] rc(2) by simp
    note c = reserve_claims [OF inv works rc(1) this R]
    have "holds (Suc i) (v(key := Some (new_lease ?rc (grant ?e ?rc)))) s'"
      by (rule holds_next [OF inv']) (use c view rc(2) in \<open>simp add: live_upd_live\<close>)
    with assms None c [OF order_refl] R show ?thesis by (simp add: op_Reserve_def passes_def)
  next
    case (Some l)
    have l: "sview (sclock ?e) s (Key ?rc) = Some l" using Some view [OF order_refl] rc(2) by simp
    note c = reserve_refuses [OF inv works rc(1) l R]
    have "holds (Suc i) v s'" by (rule holds_next [OF inv']) (use c view in simp)
    with assms Some c [OF order_refl] R rc(2) show ?thesis by (fastforce simp: op_Reserve_def passes_def)
  qed
qed

text \<open>The lease an operation with a token meets, if it may finish it.\<close>

definition held_at :: "nat \<Rightarrow> view \<Rightarrow> string \<Rightarrow> string \<Rightarrow> bool" where
  "held_at i v key tok \<longleftrightarrow> (case live i v key of None \<Rightarrow> False | Some l \<Rightarrow> l_state l = StateReserved \<and> l_token l = tok)"

definition refusal :: "nat \<Rightarrow> view \<Rightarrow> string \<Rightarrow> string \<Rightarrow> gerror option \<Rightarrow> bool" where
  "refusal i v key tok err \<longleftrightarrow> lost_error err \<and>
     (case live i v key of None \<Rightarrow> is_err err ErrNotFound
      | Some l \<Rightarrow> l_state l = StateReserved \<and> l_token l \<noteq> tok \<longrightarrow> is_err err ErrTokenMismatch)"

lemma holds_held:
  assumes "holds i v s" "held_at i v key tok"
  obtains l where "live i v key = Some l" "held_by (sview (sclock (op_env b i)) s) key tok l"
  using assms by (auto simp: holds_def held_at_def held_by_def split: option.splits)

lemma holds_not_held:
  assumes "holds i v s" "\<not> held_at i v key tok"
  shows "\<nexists>l. held_by (sview (sclock (op_env b i)) s) key tok l"
  using assms by (auto simp: holds_def held_at_def held_by_def split: option.splits)

lemma passes_Complete:
  assumes "if held_at i v key tok
    then passes (Suc i) (v(key := Some (completed_lease (the (live i v key)) p (keep (op_env b i) ttl)))) (k None)
    else (\<forall>err. refusal i v key tok err \<longrightarrow> passes (Suc i) v (k err))"
  shows "passes i v (op_Complete S b key tok p ttl k)"
  unfolding passes_def
proof (intro allI impI)
  fix s assume h: "holds i v s"
  let ?e = "op_env b i"
  obtain err s' where C: "Complete S ?e key tok p ttl s = (err, s')" by (meson surj_pair)
  have inv: "sinv s" and view: "\<And>t. sclock ?e \<le> t \<Longrightarrow> sview t s = live_at t v" using h by (simp_all add: holds_def)
  have inv': "sinv s'" by (rule complete_inv [OF inv C])
  show "op_Complete S b key tok p ttl k i s = []"
  proof (cases "held_at i v key tok")
    case True
    obtain l where l: "live i v key = Some l" "held_by (sview (sclock ?e) s) key tok l" by (rule holds_held [OF h True])
    note c = complete_stores [OF inv works l(2) C]
    have "holds (Suc i) (v(key := Some (completed_lease l p (keep ?e ttl)))) s'"
      by (rule holds_next [OF inv']) (use c view in \<open>simp add: live_upd_live\<close>)
    with assms True c [OF order_refl] C l(1) show ?thesis by (simp add: op_Complete_def passes_def)
  next
    case False
    note c = complete_lost [OF inv works holds_not_held [OF h False] C]
    have "holds (Suc i) v s'" by (rule holds_next [OF inv']) (use c view in simp)
    moreover have "refusal i v key tok err"
      using c [OF order_refl] complete_missing [OF inv works _ C] complete_mismatch [OF inv works _ _ _ C] view [OF order_refl]
      by (auto simp: refusal_def is_err_def split: option.split)
    ultimately show ?thesis using assms False C by (simp add: op_Complete_def passes_def)
  qed
qed

lemma passes_Release:
  assumes "if held_at i v key tok then passes (Suc i) (v(key := None)) (k None)
    else (\<forall>err. refusal i v key tok err \<longrightarrow> passes (Suc i) v (k err))"
  shows "passes i v (op_Release S b key tok k)"
  unfolding passes_def
proof (intro allI impI)
  fix s assume h: "holds i v s"
  let ?e = "op_env b i"
  obtain err s' where C: "Release S ?e key tok s = (err, s')" by (meson surj_pair)
  have inv: "sinv s" and view: "\<And>t. sclock ?e \<le> t \<Longrightarrow> sview t s = live_at t v" using h by (simp_all add: holds_def)
  have inv': "sinv s'" by (rule release_inv [OF inv C])
  show "op_Release S b key tok k i s = []"
  proof (cases "held_at i v key tok")
    case True
    obtain l where l: "live i v key = Some l" "held_by (sview (sclock ?e) s) key tok l" by (rule holds_held [OF h True])
    note c = release_frees [OF inv works l(2) C]
    have "holds (Suc i) (v(key := None)) s'" by (rule holds_next [OF inv']) (use c view in simp)
    with assms True c [OF order_refl] C show ?thesis by (simp add: op_Release_def passes_def)
  next
    case False
    note c = release_lost [OF inv works holds_not_held [OF h False] C]
    have "holds (Suc i) v s'" by (rule holds_next [OF inv']) (use c view in simp)
    moreover have "refusal i v key tok err"
      using c [OF order_refl] release_missing [OF inv works _ C] release_mismatch [OF inv works _ _ _ C] view [OF order_refl]
      by (auto simp: refusal_def is_err_def split: option.split)
    ultimately show ?thesis using assms False C by (simp add: op_Release_def passes_def)
  qed
qed

lemma passes_Get:
  assumes "case live i v key of None \<Rightarrow> passes (Suc i) v (k None None)
    | Some l \<Rightarrow> (\<forall>x. reports x key l \<longrightarrow> active_deadline x = found (op_env b i) (l_deadline l) \<longrightarrow> passes (Suc i) v (k (Some x) None))"
  shows "passes i v (op_Get S b key k)"
  unfolding passes_def
proof (intro allI impI)
  fix s assume h: "holds i v s"
  let ?e = "op_env b i"
  obtain res s' where G: "Get S ?e key s = (res, s')" by (meson surj_pair)
  have inv: "sinv s" and view: "\<And>t. sclock ?e \<le> t \<Longrightarrow> sview t s = live_at t v" using h by (simp_all add: holds_def)
  have inv': "sinv s'" by (rule get_inv [OF inv G])
  show "op_Get S b key k i s = []"
  proof (cases "live i v key")
    case None
    have none: "sview (sclock ?e) s key = None" using None view [OF order_refl] by simp
    note c = get_absent [OF inv works none G]
    have "holds (Suc i) v s'" by (rule holds_next [OF inv']) (use c view in simp)
    with assms None c [OF order_refl] G show ?thesis by (simp add: op_Get_def passes_def)
  next
    case (Some l)
    have l: "sview (sclock ?e) s key = Some l" using Some view [OF order_refl] by simp
    note c = get_live [OF inv works l G]
    have "holds (Suc i) v s'" by (rule holds_next [OF inv']) (use c view in simp)
    with assms Some c [OF order_refl] G show ?thesis by (fastforce simp: op_Get_def passes_def)
  qed
qed

lemma passes_Begin:
  assumes "case live i v key of
      None \<Rightarrow> (\<forall>rc. rc = reservation_of key fp (EncodeToString (rnd i)) opts (now_before b i) \<longrightarrow>
        passes (Suc i) (v(key := Some (new_lease rc (grant (op_env b i) rc)))) (k (Inr (proceed_outcome (EncodeToString (rnd i))))))
    | Some l \<Rightarrow> now_after b i < rebuilt (op_env b i) (l_deadline l) \<and>
        passes (Suc i) v (k (Inr (decide l fp (time_Sub (rebuilt (op_env b i) (l_deadline l)) (now_after b i)))))"
  shows "passes i v (op_Begin S b rnd key fp opts k)"
  unfolding passes_def
proof (intro allI impI)
  fix s assume h: "holds i v s"
  let ?e = "op_env b i"
  obtain res s' where B: "Begin S (Inr (rnd i)) (b i) key fp opts s = (res, s')" by (meson surj_pair)
  have inv: "sinv s" and view: "\<And>t. sclock ?e \<le> t \<Longrightarrow> sview t s = live_at t v" using h by (simp_all add: holds_def)
  have up1: "up (at_store (b i 1))" using works by (simp add: op_env_def)
  have ok: "case sview (sclock (at_store (b i 1))) (at_between (b i 1) s) key of None \<Rightarrow> True
      | Some l \<Rightarrow> at_check (b i 1) < rebuilt (at_store (b i 1)) (l_deadline l)"
    using assms view [OF order_refl] alone [of i 1] by (auto simp: op_env_def now_after_def split: option.splits)
  have inv1: "sinv (at_between (b i 1) s)" using inv alone [of i 1] by simp
  have r: "sinv s' \<and> (case live i v key of
      None \<Rightarrow> res = Inr (proceed_outcome (EncodeToString (rnd i))) \<and>
        sview t s' = live_at t ((live i v)(key := Some (new_lease (reservation_of key fp (EncodeToString (rnd i)) opts (now_before b i))
          (grant ?e (reservation_of key fp (EncodeToString (rnd i)) opts (now_before b i))))))
    | Some l \<Rightarrow> res = Inr (decide l fp (time_Sub (rebuilt ?e (l_deadline l)) (now_after b i))) \<and> sview t s' = sview t s)"
    if "sclock ?e \<le> t" for t
    using Begin_first [OF inv1 up1 that [unfolded op_env_def] ok B] alone [of i 1] view [OF order_refl]
    by (simp add: op_env_def now_before_def now_after_def split: option.splits)
  have inv': "sinv s'" using r [OF order_refl] by simp
  show "op_Begin S b rnd key fp opts k i s = []"
  proof (cases "live i v key")
    case None
    let ?rc = "reservation_of key fp (EncodeToString (rnd i)) opts (now_before b i)"
    have "holds (Suc i) (v(key := Some (new_lease ?rc (grant ?e ?rc)))) s'"
      by (rule holds_next [OF inv']) (use r None in \<open>simp add: live_upd_live\<close>)
    with assms None r [OF order_refl] B show ?thesis by (simp add: op_Begin_def passes_def)
  next
    case (Some l)
    have "holds (Suc i) v s'" by (rule holds_next [OF inv']) (use r Some view in simp)
    with assms Some r [OF order_refl] B show ?thesis by (simp add: op_Begin_def passes_def)
  qed
qed

lemma passes_Finish:
  assumes "d = Persist \<or> d = Discard"
    and "if held_at i v key tok
      then passes (Suc i) (v(key := if d = Persist then Some (completed_lease (the (live i v key)) p (keep (op_env b i) (recordTTL opts))) else None)) (k False None)
      else passes (Suc i) v (k True None)"
  shows "passes i v (op_Finish S b key tok d p opts k)"
  unfolding passes_def
proof (intro allI impI)
  fix s assume h: "holds i v s"
  let ?e = "op_env b i"
  obtain res s' where F: "Finish S ?e key tok d p opts s = (res, s')" by (meson surj_pair)
  have inv: "sinv s" and view: "\<And>t. sclock ?e \<le> t \<Longrightarrow> sview t s = live_at t v" using h by (simp_all add: holds_def)
  have inv': "sinv s'" using Finish_inv [OF inv, of ?e key tok d p opts] F by simp
  show "op_Finish S b key tok d p opts k i s = []"
  proof (cases "held_at i v key tok")
    case True
    obtain l where l: "live i v key = Some l" "held_by (sview (sclock ?e) s) key tok l" by (rule holds_held [OF h True])
    have "res = (False, None) \<and> holds (Suc i) (v(key := if d = Persist then Some (completed_lease l p (keep ?e (recordTTL opts))) else None)) s'"
    proof (cases "d = Persist")
      case P: True
      show ?thesis
        using finish_persists [OF inv works l(2) _ F [unfolded P]] view P inv' by (auto intro!: holds_next simp: live_upd_live)
    next
      case False
      then have D: "d = Discard" using assms(1) by simp
      have "holds (Suc i) (v(key := None)) s'"
        using finish_discards(3) [OF inv works l(2) _ F [unfolded D]] view inv' by (auto intro!: holds_next)
      then show ?thesis using finish_discards(1) [OF inv works l(2) order_refl F [unfolded D]] False by simp
    qed
    with assms(2) True F l(1) show ?thesis by (simp add: op_Finish_def passes_def cong: if_cong)
  next
    case False
    note c = finish_lost [OF inv works holds_not_held [OF h False] _ assms(1) F]
    have "holds (Suc i) v s'" by (rule holds_next [OF inv']) (use c(2) view in simp)
    with assms(2) False c(1) [OF order_refl] F show ?thesis by (simp add: op_Finish_def passes_def)
  qed
qed

lemmas passes_ops = passes_Reserve passes_Complete passes_Release passes_Get passes_Begin passes_Finish passes_wait

subsection \<open>Time on the bench\<close>

lemma close_enough: "\<bar>x - y\<bar> \<le> timeTolerance \<Longrightarrow> time_close x y"
  by (auto simp: time_close_def time_Sub_def timeTolerance_def Second_def Let_def in_int64_def)

lemma reserved_lives:
  assumes "i < j" "j \<le> 102"
  shows "sclock (op_env b j) < grant (op_env b i) (reservedRecord key tok fp validTTL (now_before b i))"
    "now_after b j < rebuilt (op_env b j) (grant (op_env b i) (reservedRecord key tok fp validTTL (now_before b i)))"
    "time_close (rebuilt (op_env b j) (grant (op_env b i) (reservedRecord key tok fp validTTL (now_before b i)))) (now_before b i + validTTL)"
    "time_close (found (op_env b j) (grant (op_env b i) (reservedRecord key tok fp validTTL (now_before b i)))) (now_before b i + validTTL)"
  using long_lease [OF assms, of "reservedRecord key tok fp validTTL (now_before b i)" rebuilt]
    long_lease [OF assms, of "reservedRecord key tok fp validTTL (now_before b i)" found] close_enough
  by (simp_all add: is_reservation_def)

lemma begun_lives:
  assumes "i < j" "j \<le> 102" "leaseTTL opts = validTTL"
  shows "sclock (op_env b j) < grant (op_env b i) (reservation_of key fp tok opts (now_before b i))"
    "now_after b j < rebuilt (op_env b j) (grant (op_env b i) (reservation_of key fp tok opts (now_before b i)))"
    "rebuilt (op_env b j) (grant (op_env b i) (reservation_of key fp tok opts (now_before b i))) - now_after b j \<le> validTTL"
  using long_lease [OF assms(1,2), of "reservation_of key fp tok opts (now_before b i)" rebuilt] assms(3) by simp_all

lemma completed_lives:
  assumes "i < j" "j \<le> 102"
  shows "sclock (op_env b j) < keep (op_env b i) validTTL" "now_after b j < rebuilt (op_env b j) (keep (op_env b i) validTTL)"
    "time_close (found (op_env b j) (keep (op_env b i) validTTL)) (now_before b i + validTTL)"
  using long_record [OF assms, of rebuilt] long_record [OF assms, of found] close_enough by simp_all

lemma short_gone:
  assumes "i < w" "w < j"
  shows "\<not> sclock (op_env b j) < grant (op_env b i) (reservedRecord key tok fp shortTTL (now_before b i))"
    "leaseTTL opts = shortTTL \<Longrightarrow> \<not> sclock (op_env b j) < grant (op_env b i) (reservation_of key fp tok opts (now_before b i))"
    "\<not> sclock (op_env b j) < keep (op_env b i) shortTTL"
proof -
  have j: "now_before b w + shortTTL + 150 * Millisecond \<le> now_before b j"
    using sleep now_mono [of "Suc w" j] assms by simp
  have ij: "i < j" and i: "now_before b i + shortTTL + 150 * Millisecond \<le> now_before b j"
    using j now_mono [of i w] assms by simp_all
  show "\<not> sclock (op_env b j) < keep (op_env b i) shortTTL" using short_record [OF assms j] by simp
  show "\<not> sclock (op_env b j) < grant (op_env b i) (reservedRecord key tok fp shortTTL (now_before b i))"
    using short_lease [OF ij, of "reservedRecord key tok fp shortTTL (now_before b i)"] i by (simp add: is_reservation_def)
  show "\<not> sclock (op_env b j) < grant (op_env b i) (reservation_of key fp tok opts (now_before b i))" if "leaseTTL opts = shortTTL"
    using short_lease [OF ij, of "reservation_of key fp tok opts (now_before b i)"] i that by simp
qed

lemmas bench_time = reserved_lives begun_lives completed_lives short_gone now_mono

end

end
