(* ===== verification/Store_Suite.thy ===== *)
theory Store_Suite
  imports Conformance_Bench
begin

section \<open>The conformance suite for stores\<close>

text \<open>
  \<^verbatim>\<open>RunStoreTests\<close> of \<^verbatim>\<open>idemleasetest/idemleasetest.go\<close>, subtest by subtest, and the theorem that every
  store that keeps the contract passes it. The calls of the goroutines of a concurrent
  subtest take effect in some order, which is the argument \<open>order\<close>.
\<close>

definition ReserveOnEmpty :: "('s, 'e) Store \<Rightarrow> ('s, 'e) bench \<Rightarrow> 's test" where
  "ReserveOnEmpty S b =
     mustReserveNew S b ''k'' ''tok-first'' ''fp'' validTTL (\<lambda>rc.
     op_Get S b ''k'' (\<lambda>got err.
     Fatalf_unless (err = None \<and> got \<noteq> None) ''Get, want the reserved record'' (
     Errorf_unless (Key (the got) = ''k'') ''Key'' (
     Errorf_unless (State (the got) = StateReserved) ''State, want StateReserved'' (
     Errorf_unless (Token (the got) = ''tok-first'') ''Token (stores must persist tokens verbatim)'' (
     Errorf_unless (Fingerprint (the got) = ''fp'') ''Fingerprint'' (
     assertTimeClose ''LeaseExpiresAt'' (LeaseExpiresAt (the got)) (LeaseExpiresAt rc)
     test_end)))))))"

definition ReserveConflictReturnsExisting :: "('s, 'e) Store \<Rightarrow> ('s, 'e) bench \<Rightarrow> 's test" where
  "ReserveConflictReturnsExisting S b =
     mustReserveNew S b ''k'' ''tok-first'' ''fp-first'' validTTL (\<lambda>rc.
     op_Reserve S b ''k'' ''tok-second'' ''fp-second'' validTTL (\<lambda>_ existing err.
     Fatalf_unless (is_err err ErrAlreadyExists) ''want ErrAlreadyExists'' (
     Fatalf_unless (existing \<noteq> None) ''existing = nil, want the first record'' (
     Errorf_unless (Token (the existing) = ''tok-first'') ''existing.Token (verbatim persistence)'' (
     Errorf_unless (State (the existing) = StateReserved) ''existing.State, want StateReserved'' (
     Errorf_unless (Fingerprint (the existing) = ''fp-first'') ''existing.Fingerprint'' (
     assertTimeClose ''existing.LeaseExpiresAt'' (LeaseExpiresAt (the existing)) (LeaseExpiresAt rc) (
     with_now_after b (\<lambda>now. Errorf_unless (\<not> Expired (the existing) now) ''existing must be a live record'' (
     op_Get S b ''k'' (\<lambda>got err2.
     Fatalf_unless (err2 = None \<and> got \<noteq> None \<and> Token (the got) = ''tok-first'') ''a losing Reserve must not modify the stored record''
     test_end)))))))))))"

definition ReserveConflictOnCompleted :: "('s, 'e) Store \<Rightarrow> ('s, 'e) bench \<Rightarrow> 's test" where
  "ReserveConflictOnCompleted S b =
     mustReserveNew S b ''k'' ''tok-1'' ''fp'' validTTL (\<lambda>_.
     op_Complete S b ''k'' ''tok-1'' ''payload-1'' validTTL (\<lambda>cerr.
     Fatalf_unless (cerr = None) ''Complete'' (
     op_Reserve S b ''k'' ''tok-2'' ''fp'' validTTL (\<lambda>_ existing err.
     Fatalf_unless (is_err err ErrAlreadyExists \<and> existing \<noteq> None) ''Reserve, want (completed record, ErrAlreadyExists)'' (
     Errorf_unless (State (the existing) = StateCompleted) ''existing.State, want StateCompleted'' (
     Errorf_unless (Payload (the existing) = ''payload-1'') ''existing.Payload'' (
     Errorf_unless (Fingerprint (the existing) = ''fp'') ''existing.Fingerprint'' (
     with_now_after b (\<lambda>now. Errorf_unless (\<not> Expired (the existing) now) ''existing must be a live record''
     test_end)))))))))"

definition binary_key :: string where
  "binary_key = ''tenant-A'' @ [CHR 0x00] @ ''order-'' @ [CHR 0xFF, CHR 0x01] @ ''key''"

definition OpaqueBinaryKey :: "('s, 'e) Store \<Rightarrow> ('s, 'e) bench \<Rightarrow> 's test" where
  "OpaqueBinaryKey S b =
     mustReserveNew S b binary_key ''tok-bin'' ''fp'' validTTL (\<lambda>_.
     op_Get S b binary_key (\<lambda>got err.
     Fatalf_unless (err = None \<and> got \<noteq> None) ''Get, want the reserved record'' (
     Errorf_unless (Token (the got) = ''tok-bin'') ''Token'' (
     op_Complete S b binary_key ''tok-bin'' ''payload'' validTTL (\<lambda>cerr.
     Fatalf_unless (cerr = None) ''Complete on a binary key'' (
     op_Get S b binary_key (\<lambda>got2 err2.
     Fatalf_unless (err2 = None \<and> got2 \<noteq> None \<and> State (the got2) = StateCompleted) ''Get after Complete, want a completed record''
     test_end)))))))"

text \<open>The token's Greek letters in UTF-8.\<close>

definition verbatim_token :: string where
  "verbatim_token = ''tok-'' @ [CHR 0xCE, CHR 0xB1] @ ''/'' @ [CHR 0xCE, CHR 0xB2] @ ''+'' @ [CHR 0xCE, CHR 0xB3] @ ''=0123456789abcdef''"

definition TokenPersistedVerbatim :: "('s, 'e) Store \<Rightarrow> ('s, 'e) bench \<Rightarrow> 's test" where
  "TokenPersistedVerbatim S b =
     mustReserveNew S b ''k'' verbatim_token [] validTTL (\<lambda>_.
     op_Get S b ''k'' (\<lambda>got err.
     Fatalf_unless (err = None \<and> got \<noteq> None \<and> Token (the got) = verbatim_token) ''Get token, want it verbatim'' (
     op_Reserve S b ''k'' ''tok-other'' [] validTTL (\<lambda>_ existing err2.
     Fatalf_unless (is_err err2 ErrAlreadyExists \<and> existing \<noteq> None \<and> Token (the existing) = verbatim_token) ''existing token, want it verbatim''
     test_end))))"

definition ReserveAfterLeaseExpiry :: "('s, 'e) Store \<Rightarrow> ('s, 'e) bench \<Rightarrow> 's test" where
  "ReserveAfterLeaseExpiry S b =
     mustReserveNew S b ''k'' ''tok-old'' ''fp-old'' shortTTL (\<lambda>old.
     waitUntilExpired b (LeaseExpiresAt old) (
     op_Reserve S b ''k'' ''tok-new'' ''fp-new'' validTTL (\<lambda>_ existing err.
     Fatalf_unless (err = None) ''Reserve over an expired lease, want success'' (
     Fatalf_unless (existing = None) ''existing, want nil (expired records must never be returned)'' (
     op_Get S b ''k'' (\<lambda>got err2.
     Fatalf_unless (err2 = None \<and> got \<noteq> None \<and> Token (the got) = ''tok-new'' \<and> State (the got) = StateReserved) ''Get, want the fresh reservation''
     test_end))))))"

definition ReserveAfterRecordTTLExpiry :: "('s, 'e) Store \<Rightarrow> ('s, 'e) bench \<Rightarrow> 's test" where
  "ReserveAfterRecordTTLExpiry S b =
     mustReserveNew S b ''k'' ''tok-1'' ''fp'' validTTL (\<lambda>_.
     op_Complete S b ''k'' ''tok-1'' ''payload'' shortTTL (\<lambda>cerr.
     Fatalf_unless (cerr = None) ''Complete'' (
     with_now b (\<lambda>now. waitUntilExpired b (time_Add now shortTTL) (
     op_Reserve S b ''k'' ''tok-2'' ''fp'' validTTL (\<lambda>_ existing err.
     Fatalf_unless (err = None \<and> existing = None) ''Reserve over an expired record, want (nil, nil)'' (
     op_Get S b ''k'' (\<lambda>got err2.
     Fatalf_unless (err2 = None \<and> got \<noteq> None \<and> Token (the got) = ''tok-2'' \<and> State (the got) = StateReserved) ''Get, want the fresh reservation''
     test_end))))))))"

definition CompleteStoresPayload :: "('s, 'e) Store \<Rightarrow> ('s, 'e) bench \<Rightarrow> 's test" where
  "CompleteStoresPayload S b =
     (let payload = [CHR 0x7B, CHR 0x22] @ ''result'' @ [CHR 0x22] @ '':'' @ [CHR 0x22] @ ''ok'' @ [CHR 0x22, CHR 0x7D] in
     mustReserveNew S b ''k'' ''tok-1'' ''fp'' validTTL (\<lambda>_.
     with_now b (\<lambda>before.
     op_Complete S b ''k'' ''tok-1'' payload validTTL (\<lambda>cerr.
     Fatalf_unless (cerr = None) ''Complete'' (
     op_Get S b ''k'' (\<lambda>got err.
     Fatalf_unless (err = None \<and> got \<noteq> None) ''Get, want the completed record'' (
     Errorf_unless (State (the got) = StateCompleted) ''State, want StateCompleted'' (
     Errorf_unless (Payload (the got) = payload) ''Payload'' (
     assertTimeClose ''RecordExpiresAt'' (RecordExpiresAt (the got)) (time_Add before validTTL)
     test_end)))))))))"

definition CompleteWrongToken :: "('s, 'e) Store \<Rightarrow> ('s, 'e) bench \<Rightarrow> 's test" where
  "CompleteWrongToken S b =
     mustReserveNew S b ''k'' ''tok-1'' ''fp'' validTTL (\<lambda>_.
     op_Complete S b ''k'' ''tok-evil'' ''payload'' validTTL (\<lambda>err.
     Fatalf_unless (is_err err ErrTokenMismatch) ''want ErrTokenMismatch'' (
     op_Get S b ''k'' (\<lambda>got err2.
     Fatalf_unless (err2 = None \<and> got \<noteq> None \<and> State (the got) = StateReserved \<and> Token (the got) = ''tok-1'')
       ''a rejected Complete must not modify the record''
     test_end))))"

definition CompleteMissingKey :: "('s, 'e) Store \<Rightarrow> ('s, 'e) bench \<Rightarrow> 's test" where
  "CompleteMissingKey S b =
     op_Complete S b ''absent'' ''tok-1'' ''payload'' validTTL (\<lambda>err.
     Fatalf_unless (is_err err ErrNotFound) ''want ErrNotFound''
     test_end)"

definition CompleteStaleTokenAfterExpiry :: "('s, 'e) Store \<Rightarrow> ('s, 'e) bench \<Rightarrow> 's test" where
  "CompleteStaleTokenAfterExpiry S b =
     mustReserveNew S b ''k'' ''tok-old'' ''fp'' shortTTL (\<lambda>old.
     waitUntilExpired b (LeaseExpiresAt old) (
     op_Complete S b ''k'' ''tok-old'' ''payload'' validTTL (\<lambda>cerr.
     assertStaleRejected cerr (
     op_Reserve S b ''k'' ''tok-new'' ''fp'' validTTL (\<lambda>_ existing err.
     Fatalf_unless (err = None \<and> existing = None) ''Reserve after stale Complete, want (nil, nil)''
     test_end)))))"

definition CompleteStaleTokenAfterReclaim :: "('s, 'e) Store \<Rightarrow> ('s, 'e) bench \<Rightarrow> 's test" where
  "CompleteStaleTokenAfterReclaim S b =
     mustReserveNew S b ''k'' ''tok-a'' ''fp'' shortTTL (\<lambda>old.
     waitUntilExpired b (LeaseExpiresAt old) (
     mustReserveNew S b ''k'' ''tok-b'' ''fp'' validTTL (\<lambda>_.
     op_Complete S b ''k'' ''tok-a'' ''payload-a'' validTTL (\<lambda>cerr.
     assertStaleRejected cerr (
     op_Get S b ''k'' (\<lambda>got err.
     Fatalf_unless (err = None \<and> got \<noteq> None \<and> State (the got) = StateReserved \<and> Token (the got) = ''tok-b'')
       ''the stale Complete must not disturb the new owner'' (
     op_Complete S b ''k'' ''tok-b'' ''payload-b'' validTTL (\<lambda>cerr2.
     Fatalf_unless (cerr2 = None) ''the new owner must complete'' (
     op_Get S b ''k'' (\<lambda>got2 err2.
     Fatalf_unless (err2 = None \<and> got2 \<noteq> None \<and> Payload (the got2) = ''payload-b'') ''Get, want the payload of the new owner''
     test_end))))))))))"

definition ReleaseDeletesReservation :: "('s, 'e) Store \<Rightarrow> ('s, 'e) bench \<Rightarrow> 's test" where
  "ReleaseDeletesReservation S b =
     mustReserveNew S b ''k'' ''tok-1'' ''fp'' validTTL (\<lambda>_.
     op_Release S b ''k'' ''tok-1'' (\<lambda>rerr.
     Fatalf_unless (rerr = None) ''Release'' (
     op_Get S b ''k'' (\<lambda>got err.
     Fatalf_unless (err = None \<and> got = None) ''Get after Release, want (nil, nil)'' (
     mustReserveNew S b ''k'' ''tok-2'' ''fp'' validTTL (\<lambda>_.
     test_end))))))"

definition ReleaseWrongToken :: "('s, 'e) Store \<Rightarrow> ('s, 'e) bench \<Rightarrow> 's test" where
  "ReleaseWrongToken S b =
     mustReserveNew S b ''k'' ''tok-1'' ''fp'' validTTL (\<lambda>_.
     op_Release S b ''k'' ''tok-evil'' (\<lambda>err.
     Fatalf_unless (is_err err ErrTokenMismatch) ''want ErrTokenMismatch'' (
     op_Get S b ''k'' (\<lambda>got err2.
     Fatalf_unless (err2 = None \<and> got \<noteq> None \<and> Token (the got) = ''tok-1'') ''a rejected Release must not modify the record''
     test_end))))"

definition ReleaseMissingKey :: "('s, 'e) Store \<Rightarrow> ('s, 'e) bench \<Rightarrow> 's test" where
  "ReleaseMissingKey S b =
     op_Release S b ''absent'' ''tok-1'' (\<lambda>err.
     Fatalf_unless (is_err err ErrNotFound) ''want ErrNotFound''
     test_end)"

definition ReleaseStaleTokenAfterReclaim :: "('s, 'e) Store \<Rightarrow> ('s, 'e) bench \<Rightarrow> 's test" where
  "ReleaseStaleTokenAfterReclaim S b =
     mustReserveNew S b ''k'' ''tok-a'' ''fp'' shortTTL (\<lambda>old.
     waitUntilExpired b (LeaseExpiresAt old) (
     mustReserveNew S b ''k'' ''tok-b'' ''fp'' validTTL (\<lambda>_.
     op_Release S b ''k'' ''tok-a'' (\<lambda>rerr.
     assertStaleRejected rerr (
     op_Get S b ''k'' (\<lambda>got err.
     Fatalf_unless (err = None \<and> got \<noteq> None \<and> Token (the got) = ''tok-b'') ''the stale Release must not disturb the new owner''
     test_end))))))"

definition GetMissingKey :: "('s, 'e) Store \<Rightarrow> ('s, 'e) bench \<Rightarrow> 's test" where
  "GetMissingKey S b =
     op_Get S b ''absent'' (\<lambda>got err.
     Fatalf_unless (err = None \<and> got = None) ''Get, want (nil, nil)''
     test_end)"

definition GetExpiredRecord :: "('s, 'e) Store \<Rightarrow> ('s, 'e) bench \<Rightarrow> 's test" where
  "GetExpiredRecord S b =
     mustReserveNew S b ''k'' ''tok-old'' ''fp'' shortTTL (\<lambda>old.
     waitUntilExpired b (LeaseExpiresAt old) (
     op_Get S b ''k'' (\<lambda>got err.
     Fatalf_unless (err = None) ''Get'' (
     with_now_after b (\<lambda>now. Fatalf_unless (got = None \<or> Expired (the got) now) ''Get returned a live record''
     test_end)))))"

subsection \<open>Concurrent subtests\<close>

definition goroutine_token :: "nat \<Rightarrow> string" where
  "goroutine_token g = ''tok-'' @ FormatInt (int g)"

type_synonym reserve_results = "nat \<Rightarrow> Record option \<times> gerror option"

fun reserve_all :: "('s, 'e) Store \<Rightarrow> ('s, 'e) bench \<Rightarrow> nat list \<Rightarrow> reserve_results \<Rightarrow> (reserve_results \<Rightarrow> 's test) \<Rightarrow> 's test" where
  "reserve_all S b [] res k = k res"
| "reserve_all S b (g # gs) res k = op_Reserve S b ''k'' (goroutine_token g) ''fp'' validTTL
     (\<lambda>_ existing err. reserve_all S b gs (res(g := (existing, err))) k)"

text \<open>The scan for the winner; \<open>old\<close> is the token that must not be observed. \<open>None\<close> is the index -1.\<close>

fun find_winner :: "string option \<Rightarrow> reserve_results \<Rightarrow> nat list \<Rightarrow> nat option \<Rightarrow> string + nat option" where
  "find_winner old res [] winner = Inr winner"
| "find_winner old res (i # is) winner = (case snd (res i) of
       None \<Rightarrow> if winner \<noteq> None then Inl ''multiple winners'' else find_winner old res is (Some i)
     | Some e \<Rightarrow>
         if errors_Is e ErrAlreadyExists then
           (case fst (res i) of
              None \<Rightarrow> Inl ''ErrAlreadyExists without the existing record''
            | Some ex \<Rightarrow> if old = Some (Token ex) then Inl ''observed the expired record as existing''
                else find_winner old res is winner)
         else Inl ''unexpected error'')"

definition ConcurrentReserveSingleWinner :: "nat list \<Rightarrow> ('s, 'e) Store \<Rightarrow> ('s, 'e) bench \<Rightarrow> 's test" where
  "ConcurrentReserveSingleWinner order S b =
     reserve_all S b order (\<lambda>_. (None, None)) (\<lambda>res.
     (case find_winner None res [0..<100] None of
        Inl msg \<Rightarrow> Fatalf msg
      | Inr winner \<Rightarrow>
     Fatalf_unless (winner \<noteq> None) ''no Reserve succeeded'' (
     Fatalf_unless (list_all (\<lambda>i. case fst (res i) of None \<Rightarrow> True | Some ex \<Rightarrow> Token ex = goroutine_token (the winner)) [0..<100])
       ''observed a token, want that of the winner'' (
     op_Get S b ''k'' (\<lambda>got err.
     Fatalf_unless (err = None \<and> got \<noteq> None \<and> Token (the got) = goroutine_token (the winner)) ''Get, want the record of the winner''
     test_end)))))"

definition ConcurrentReserveOverExpired :: "nat list \<Rightarrow> ('s, 'e) Store \<Rightarrow> ('s, 'e) bench \<Rightarrow> 's test" where
  "ConcurrentReserveOverExpired order S b =
     mustReserveNew S b ''k'' ''tok-old'' ''fp'' shortTTL (\<lambda>old.
     waitUntilExpired b (LeaseExpiresAt old) (
     reserve_all S b order (\<lambda>_. (None, None)) (\<lambda>res.
     (case find_winner (Some ''tok-old'') res [0..<100] None of
        Inl msg \<Rightarrow> Fatalf msg
      | Inr winner \<Rightarrow>
     Fatalf_unless (winner \<noteq> None) ''no Reserve succeeded over the expired record''
     test_end))))"

text \<open>
  \<^verbatim>\<open>RunStoreTests\<close>: each subtest on a bench and an empty store of its own. \<open>store_waits\<close> says at which
  slot a subtest sleeps; 200 is past the end of those that do not.
\<close>

definition store_subtests :: "nat list \<Rightarrow> (('s, 'e) Store \<Rightarrow> ('s, 'e) bench \<Rightarrow> 's test) list" where
  "store_subtests order = [ReserveOnEmpty, ReserveConflictReturnsExisting, ReserveConflictOnCompleted,
     ConcurrentReserveSingleWinner order, OpaqueBinaryKey, TokenPersistedVerbatim, ReserveAfterLeaseExpiry,
     ReserveAfterRecordTTLExpiry, ConcurrentReserveOverExpired order, CompleteStoresPayload, CompleteWrongToken,
     CompleteMissingKey, CompleteStaleTokenAfterExpiry, CompleteStaleTokenAfterReclaim, ReleaseDeletesReservation,
     ReleaseWrongToken, ReleaseMissingKey, ReleaseStaleTokenAfterReclaim, GetMissingKey, GetExpiredRecord]"

definition store_waits :: "nat \<Rightarrow> nat" where
  "store_waits n = [200, 200, 200, 200, 200, 200, 1, 2, 1, 200, 200, 200, 1, 1, 200, 200, 200, 1, 200, 1] ! n"

definition RunStoreTests :: "('s, 'e) Store \<Rightarrow> nat list \<Rightarrow> (nat \<Rightarrow> ('s, 'e) bench) \<Rightarrow> (nat \<Rightarrow> 's) \<Rightarrow> string list" where
  "RunStoreTests S order bs newStore =
     concat (map (\<lambda>n. (store_subtests order ! n) S (bs n) 0 (newStore n)) [0..<20])"

text \<open>A call of a goroutine that came after the winner's.\<close>

definition refused :: "string \<Rightarrow> Record option \<times> gerror option \<Rightarrow> bool" where
  "refused tok p \<longleftrightarrow> (\<exists>x e. p = (Some x, Some e) \<and> errors_Is e ErrAlreadyExists \<and> Token x = tok)"

subsection \<open>The sequential subtests pass\<close>

lemmas suite_helpers = mustReserveNew_def assertTimeClose_def assertStaleRejected_def

context bench_run
begin

lemmas suite_simps = reports_def active_deadline_def live_at_upd_Some bench_time held_at_def is_err_def Expired_iff known_state_def
  refusal_def lost_error_def

lemma unhurried_pass:
  shows "passes 0 Map.empty (ReserveOnEmpty S b)"
    "passes 0 Map.empty (ReserveConflictReturnsExisting S b)"
    "passes 0 Map.empty (ReserveConflictOnCompleted S b)"
    "passes 0 Map.empty (OpaqueBinaryKey S b)"
    "passes 0 Map.empty (TokenPersistedVerbatim S b)"
    "passes 0 Map.empty (CompleteStoresPayload S b)"
    "passes 0 Map.empty (CompleteWrongToken S b)"
    "passes 0 Map.empty (CompleteMissingKey S b)"
    "passes 0 Map.empty (ReleaseDeletesReservation S b)"
    "passes 0 Map.empty (ReleaseWrongToken S b)"
    "passes 0 Map.empty (ReleaseMissingKey S b)"
    "passes 0 Map.empty (GetMissingKey S b)"
  unfolding ReserveOnEmpty_def ReserveConflictReturnsExisting_def ReserveConflictOnCompleted_def OpaqueBinaryKey_def TokenPersistedVerbatim_def CompleteStoresPayload_def CompleteWrongToken_def CompleteMissingKey_def ReleaseDeletesReservation_def ReleaseWrongToken_def ReleaseMissingKey_def GetMissingKey_def
    suite_helpers Let_def time_Add_def binary_key_def
  by (rule passes_ops | simp add: suite_simps | intro allI impI)+

lemma expiry_pass_1:
  assumes w: "w = 1"
  shows "passes 0 Map.empty (ReserveAfterLeaseExpiry S b)"
    "passes 0 Map.empty (CompleteStaleTokenAfterExpiry S b)"
    "passes 0 Map.empty (CompleteStaleTokenAfterReclaim S b)"
    "passes 0 Map.empty (ReleaseStaleTokenAfterReclaim S b)"
    "passes 0 Map.empty (GetExpiredRecord S b)"
  unfolding ReserveAfterLeaseExpiry_def CompleteStaleTokenAfterExpiry_def CompleteStaleTokenAfterReclaim_def ReleaseStaleTokenAfterReclaim_def GetExpiredRecord_def
    suite_helpers Let_def time_Add_def binary_key_def
  by (rule passes_ops | simp add: suite_simps w | intro allI impI)+

lemma expiry_pass_2:
  assumes w: "w = 2"
  shows "passes 0 Map.empty (ReserveAfterRecordTTLExpiry S b)"
  unfolding ReserveAfterRecordTTLExpiry_def
    suite_helpers Let_def time_Add_def binary_key_def
  by (rule passes_ops | simp add: suite_simps w | intro allI impI)+

lemma reserve_all_refused:
  assumes "\<And>j. i \<le> j \<Longrightarrow> j < i + length gs \<Longrightarrow> live j v ''k'' = Some l"
    and "\<And>res'. \<forall>g\<in>set gs. refused (l_token l) (res' g) \<Longrightarrow> \<forall>g. g \<notin> set gs \<longrightarrow> res' g = res g \<Longrightarrow> passes (i + length gs) v (k res')"
  shows "passes i v (reserve_all S b gs res k)"
  using assms
proof (induction gs arbitrary: i res)
  case (Cons g gs)
  have l: "live i v ''k'' = Some l" using Cons.prems(1) [of i] by simp
  have "passes (Suc i) v (reserve_all S b gs (res(g := (Some x, Some e))) k)"
    if x: "errors_Is e ErrAlreadyExists" "reports x ''k'' l" for x e
  proof (rule Cons.IH)
    show "live j v ''k'' = Some l" if "Suc i \<le> j" "j < Suc i + length gs" for j using Cons.prems(1) [of j] that by simp
    show "passes (Suc i + length gs) v (k res')"
      if "\<forall>g\<in>set gs. refused (l_token l) (res' g)" "\<forall>h. h \<notin> set gs \<longrightarrow> res' h = (res(g := (Some x, Some e))) h" for res'
    proof -
      have "refused (l_token l) (res' g)" using that x by (cases "g \<in> set gs") (auto simp: refused_def reports_def)
      then show ?thesis using Cons.prems(2) [of res'] that by simp
    qed
  qed
  then show ?case using l by (simp, intro passes_Reserve) simp
qed simp

end

lemma find_winner_ok:
  assumes "distinct is" "res g = (None, None)" "\<forall>i\<in>set is. i \<noteq> g \<longrightarrow> refused tok (res i)" "old \<noteq> Some tok"
    and "g \<in> set is \<longrightarrow> winner = None"
  shows "find_winner old res is winner = Inr (if g \<in> set is then Some g else winner)"
  using assms
proof (induction "is" arbitrary: winner)
  case (Cons i "is")
  show ?case
  proof (cases "i = g")
    case True
    then show ?thesis using Cons.IH [of "Some g"] Cons.prems by simp
  next
    case False
    then obtain x e where "res i = (Some x, Some e)" "errors_Is e ErrAlreadyExists" "Token x = tok"
      using Cons.prems(3) by (auto simp: refused_def)
    then show ?thesis using Cons.IH [of winner] Cons.prems False by auto
  qed
qed simp

lemma goroutine_token_old: "g < 100 \<Longrightarrow> goroutine_token g \<noteq> ''tok-old''"
proof
  assume g: "g < 100" and "goroutine_token g = ''tok-old''"
  then have "FormatInt (int g) = ''old''" by (simp add: goroutine_token_def)
  moreover have "ParseInt (FormatInt (int g)) = Some (int g)" using g by (intro ParseInt_FormatInt) (simp add: in_int64_def)
  moreover have "ParseInt ''old'' = None" by code_simp
  ultimately show False by simp
qed

context bench_run
begin

lemma race_won:
  assumes order: "distinct order" "set order = {..<100}"
    and free: "live i v ''k'' = None" "i \<le> 2"
    and k: "\<And>g res v'. g < 100 \<Longrightarrow> find_winner None res [0..<100] None = Inr (Some g) \<Longrightarrow>
        find_winner (Some ''tok-old'') res [0..<100] None = Inr (Some g) \<Longrightarrow>
        \<forall>j<100. j \<noteq> g \<longrightarrow> refused (goroutine_token g) (res j) \<Longrightarrow> res g = (None, None) \<Longrightarrow>
        \<exists>l. live (i + 100) v' ''k'' = Some l \<and> l_token l = goroutine_token g \<Longrightarrow> passes (i + 100) v' (k res)"
  shows "passes i v (reserve_all S b order (\<lambda>_. (None, None)) k)"
proof -
  have len: "length order = 100" using order distinct_card [OF order(1)] by simp
  then obtain g gs where gs: "order = g # gs" "length gs = 99" by (cases order) simp_all
  have g: "g < 100" "g \<notin> set gs" using order gs by auto
  let ?rc = "reservedRecord ''k'' (goroutine_token g) ''fp'' validTTL (now_before b i)"
  let ?l = "new_lease ?rc (grant (op_env b i) ?rc)" and ?v = "v(''k'' := Some (new_lease ?rc (grant (op_env b i) ?rc)))"
  have live: "live j ?v ''k'' = Some ?l" if "Suc i \<le> j" "j \<le> i + 100" for j
    using that free(2) by (simp add: live_at_upd_Some reserved_lives(1))
  have "passes (Suc i) ?v (reserve_all S b gs ((\<lambda>_. (None, None))(g := (None, None))) k)"
  proof (rule reserve_all_refused [where l = ?l])
    show "live j ?v ''k'' = Some ?l" if "Suc i \<le> j" "j < Suc i + length gs" for j using live that gs(2) by simp
    fix res assume r: "\<forall>h\<in>set gs. refused (l_token ?l) (res h)" "\<forall>h. h \<notin> set gs \<longrightarrow> res h = ((\<lambda>_. (None, None))(g := (None, None))) h"
    have won: "res g = (None, None)" using r(2) g(2) by simp
    have lost: "\<forall>j<100. j \<noteq> g \<longrightarrow> refused (goroutine_token g) (res j)" using r(1) order(2) gs(1) by auto
    have lost': "\<forall>j\<in>set [0..<100]. j \<noteq> g \<longrightarrow> refused (goroutine_token g) (res j)" using lost by simp
    note w = find_winner_ok [OF distinct_upt won lost', where winner = None]
    show "passes (Suc i + length gs) ?v (k res)"
      using k [OF g(1) _ _ lost won, of ?v] w [of None] w [of "Some ''tok-old''"] g(1) goroutine_token_old [OF g(1)] live [of "i + 100"] gs(2)
      by (simp add: add.commute [of 100])
  qed
  then show ?thesis using free(1) gs(1) by (simp, intro passes_Reserve) simp
qed

lemma ConcurrentReserveSingleWinner_passes:
  assumes "distinct order" "set order = {..<100}"
  shows "passes 0 Map.empty (ConcurrentReserveSingleWinner order S b)"
  unfolding ConcurrentReserveSingleWinner_def
proof (rule race_won [OF assms])
  fix g res v' assume r: "g < 100" "find_winner None res [0..<100] None = Inr (Some g)"
    "\<forall>j<100. j \<noteq> g \<longrightarrow> refused (goroutine_token g) (res j)" "res g = (None, None)"
    and l: "\<exists>l. live (0 + 100) v' ''k'' = Some l \<and> l_token l = goroutine_token g"
  have toks: "list_all (\<lambda>i. case fst (res i) of None \<Rightarrow> True | Some ex \<Rightarrow> Token ex = goroutine_token g) [0..<100]"
    using r(3,4) by (auto simp: list_all_iff refused_def split: option.splits)
  show "passes (0 + 100) v' (case find_winner None res [0..<100] None of Inl msg \<Rightarrow> Fatalf msg
      | Inr winner \<Rightarrow> Fatalf_unless (winner \<noteq> None) ''no Reserve succeeded''
          (Fatalf_unless (list_all (\<lambda>i. case fst (res i) of None \<Rightarrow> True | Some ex \<Rightarrow> Token ex = goroutine_token (the winner)) [0..<100])
            ''observed a token, want that of the winner''
            (op_Get S b ''k'' (\<lambda>got err. Fatalf_unless (err = None \<and> got \<noteq> None \<and> Token (the got) = goroutine_token (the winner))
               ''Get, want the record of the winner'' test_end))))"
    unfolding r(2) sum.case option.sel using toks l by (auto simp: reports_def intro!: passes_Get)
qed simp_all

lemma ConcurrentReserveOverExpired_passes:
  assumes "distinct order" "set order = {..<100}" "w = 1"
  shows "passes 0 Map.empty (ConcurrentReserveOverExpired order S b)"
  unfolding ConcurrentReserveOverExpired_def suite_helpers
  by (rule passes_Reserve, simp, rule passes_wait, simp_all add: assms(3) now_mono, rule race_won [OF assms(1,2)])
    (simp_all add: live_at_upd_Some short_gone assms(3))

lemma passes_empty: "passes 0 Map.empty test \<Longrightarrow> sinv s \<Longrightarrow> (\<And>t. sview t s = Map.empty) \<Longrightarrow> test 0 s = []"
  by (simp add: passes_def holds_def live_at_def fun_eq_iff)

lemma store_subtest_passes:
  assumes "distinct order" "set order = {..<100}" "n < 20" "w = store_waits n"
  shows "passes 0 Map.empty ((store_subtests order ! n) S b)"
proof -
  have "n \<in> {0, 1, 2, 3, 4, 5, 6, 7, 8, 9, 10, 11, 12, 13, 14, 15, 16, 17, 18, 19}" using assms(3) by (simp, arith)
  then show ?thesis
    using assms(4) unhurried_pass expiry_pass_1 expiry_pass_2
      ConcurrentReserveSingleWinner_passes [OF assms(1,2)] ConcurrentReserveOverExpired_passes [OF assms(1,2)]
    by (elim insertE emptyE) (simp_all add: store_subtests_def store_waits_def)
qed

end

subsection \<open>A bench for the in-memory store\<close>

text \<open>The test reads the clock once before it sleeps and once after, 300 ms later.\<close>

definition demo_bench :: "nat \<Rightarrow> (memstore, Time) bench" where
  "demo_bench w i n = (let t = (if i \<le> w then 0 else 3 * shortTTL) in \<lparr>at_between = id, at_deadline = t, at_store = t, at_check = t\<rparr>)"

interpretation mb: bench_run mem_Store mem_inv mem_view "\<lambda>now. now" "\<lambda>_. True"
  "\<lambda>_ r. LeaseExpiresAt r" "\<lambda>now ttl. now + ttl" "\<lambda>_ d. d" "\<lambda>_ d. d" "demo_bench w" w for w
  by unfold_locales (auto simp: demo_bench_def op_env_def now_before_def now_after_def validTTL_def shortTTL_def timeTolerance_def
      Second_def Millisecond_def Let_def split: if_splits)

subsection \<open>Properties\<close>

text \<open>
  (C29) Every store that keeps the contract passes the conformance suite, on every bench on which the
  valid deadlines outlast the test and the short ones have passed after the sleeps, and for
  every order in which the calls of the hundred goroutines of a concurrent subtest take effect.
\<close>

theorem conforming_stores_pass:
  assumes benches: "\<And>n. n < 20 \<Longrightarrow> bench_run S sinv sview sclock up grant keep rebuilt found (bs n) (store_waits n)"
    and empty: "\<And>n. sinv (newStore n)" "\<And>n t. sview t (newStore n) = Map.empty"
    and order: "distinct order" "set order = {..<100}"
  shows "RunStoreTests S order bs newStore = []"
proof -
  have "(store_subtests order ! n) S (bs n) 0 (newStore n) = []" if "n < 20" for n
    by (rule bench_run.passes_empty [OF benches [OF that] bench_run.store_subtest_passes [OF benches [OF that] order that refl]])
      (rule empty)+
  then show ?thesis by (auto simp: RunStoreTests_def)
qed

theorem conforming_stores_pass_witness:
  "RunStoreTests mem_Store [0..<100] (\<lambda>n. demo_bench (store_waits n)) (\<lambda>_. mem_New) = []"
  by (rule conforming_stores_pass [OF mb.bench_run_axioms]) (auto simp: mem_inv_New mem_view_New)

end
