(* ===== verification/State_Machine_Suite.thy ===== *)
theory State_Machine_Suite
  imports Store_Suite
begin

section \<open>The conformance suite for the state machine\<close>

text \<open>
  \<^verbatim>\<open>RunStateMachineTests\<close> of \<^verbatim>\<open>idemleasetest/statemachine.go\<close>: \<open>Begin\<close> and \<open>Finish\<close> over a store, subtest by
  subtest, in the language of \<open>Conformance_Bench\<close>. \<open>rnd\<close> yields the random bytes of each token.
\<close>

definition test_opts :: Options where
  "test_opts = \<lparr>LeaseTTL = validTTL, RecordTTL = validTTL\<rparr>"

definition shortLease :: Options where
  "shortLease = \<lparr>LeaseTTL = shortTTL, RecordTTL = validTTL\<rparr>"

definition shortRecord :: Options where
  "shortRecord = \<lparr>LeaseTTL = validTTL, RecordTTL = shortTTL\<rparr>"

text \<open>The test ends unless \<open>Begin\<close> returned the wanted action.\<close>

definition want :: "Action \<Rightarrow> string \<Rightarrow> gerror + Outcome \<Rightarrow> (Outcome \<Rightarrow> 's test) \<Rightarrow> 's test" where
  "want act msg res k = (case res of Inl err \<Rightarrow> Fatalf msg | Inr out \<Rightarrow> Fatalf_unless (Action out = act) msg (k out))"

definition mustProceed :: "('s, 'e) Store \<Rightarrow> ('s, 'e) bench \<Rightarrow> (nat \<Rightarrow> bytes) \<Rightarrow> string \<Rightarrow> bytes \<Rightarrow> Options \<Rightarrow>
    (Outcome \<Rightarrow> 's test) \<Rightarrow> 's test" where
  "mustProceed S b rnd key fp o' k = op_Begin S b rnd key fp o' (\<lambda>res. want Proceed ''Begin, want Proceed'' res k)"

definition ProceedPersistReplay :: "(nat \<Rightarrow> bytes) \<Rightarrow> ('s, 'e) Store \<Rightarrow> ('s, 'e) bench \<Rightarrow> 's test" where
  "ProceedPersistReplay rnd S b =
     (let payload = [CHR 0x7B, CHR 0x22] @ ''result'' @ [CHR 0x22] @ '':'' @ [CHR 0x22] @ ''ok'' @ [CHR 0x22, CHR 0x7D] in
     mustProceed S b rnd ''k'' ''fp'' test_opts (\<lambda>out.
     op_Finish S b ''k'' (OutToken out) Persist payload test_opts (\<lambda>leaseLost err.
     Fatalf_unless (err = None \<and> \<not> leaseLost) ''Finish, want (false, nil)'' (
     op_Begin S b rnd ''k'' ''fp'' test_opts (\<lambda>res. want Replay ''Begin after Persist, want Replay'' res (\<lambda>replay.
     Errorf_unless (OutPayload replay = payload) ''replayed payload'' (
     op_Begin S b rnd ''k'' ''other-fp'' test_opts (\<lambda>res2.
       want RejectFingerprintMismatch ''Begin with another fingerprint, want RejectFingerprintMismatch'' res2 (\<lambda>_.
     test_end)))))))))"

definition InFlightRejection :: "(nat \<Rightarrow> bytes) \<Rightarrow> ('s, 'e) Store \<Rightarrow> ('s, 'e) bench \<Rightarrow> 's test" where
  "InFlightRejection rnd S b =
     mustProceed S b rnd ''k'' ''fp'' test_opts (\<lambda>_.
     op_Begin S b rnd ''k'' ''fp'' test_opts (\<lambda>res. want RejectInFlight ''Begin during lease, want RejectInFlight'' res (\<lambda>same.
     Errorf_unless (\<not> (RetryAfter same \<le> 0 \<or> RetryAfter same > validTTL)) ''RetryAfter'' (
     op_Begin S b rnd ''k'' ''other-fp'' test_opts (\<lambda>res2. want RejectInFlight ''Begin with another fingerprint, want RejectInFlight'' res2 (\<lambda>_.
     test_end))))))"

definition DiscardAllowsReexecution :: "(nat \<Rightarrow> bytes) \<Rightarrow> ('s, 'e) Store \<Rightarrow> ('s, 'e) bench \<Rightarrow> 's test" where
  "DiscardAllowsReexecution rnd S b =
     mustProceed S b rnd ''k'' ''fp'' test_opts (\<lambda>out.
     op_Finish S b ''k'' (OutToken out) Discard [] test_opts (\<lambda>leaseLost err.
     Fatalf_unless (err = None \<and> \<not> leaseLost) ''Finish(Discard), want (false, nil)'' (
     mustProceed S b rnd ''k'' ''fp'' test_opts (\<lambda>again.
     Errorf_unless (OutToken again \<noteq> OutToken out) ''re-execution must hold a fresh token''
     test_end))))"

definition ProceedWithoutFinish :: "(nat \<Rightarrow> bytes) \<Rightarrow> ('s, 'e) Store \<Rightarrow> ('s, 'e) bench \<Rightarrow> 's test" where
  "ProceedWithoutFinish rnd S b =
     mustProceed S b rnd ''k'' ''fp'' shortLease (\<lambda>first.
     with_now b (\<lambda>now. waitUntilExpired b (time_Add now shortTTL) (
     mustProceed S b rnd ''k'' ''fp'' test_opts (\<lambda>again.
     Errorf_unless (OutToken again \<noteq> OutToken first) ''re-execution after lease expiry must hold a fresh token''
     test_end))))"

text \<open>The loop over the two decisions with which the survivor finishes late.\<close>

fun finish_late :: "('s, 'e) Store \<Rightarrow> ('s, 'e) bench \<Rightarrow> string \<Rightarrow> bytes \<Rightarrow> Decision list \<Rightarrow> 's test \<Rightarrow> 's test" where
  "finish_late S b token payload [] k = k"
| "finish_late S b token payload (d # ds) k =
     op_Finish S b ''k'' token d payload test_opts (\<lambda>leaseLost err.
       Fatalf_unless (err = None \<and> leaseLost) ''Finish(A), want (true, nil)'' (finish_late S b token payload ds k))"

definition LeaseExpirySurvivor :: "(nat \<Rightarrow> bytes) \<Rightarrow> ('s, 'e) Store \<Rightarrow> ('s, 'e) bench \<Rightarrow> 's test" where
  "LeaseExpirySurvivor rnd S b =
     mustProceed S b rnd ''k'' ''fp'' shortLease (\<lambda>outA.
     with_now b (\<lambda>now. waitUntilExpired b (time_Add now shortTTL) (
     mustProceed S b rnd ''k'' ''fp'' test_opts (\<lambda>outB.
     Fatalf_unless (OutToken outB \<noteq> OutToken outA) ''B must hold a distinct token'' (
     finish_late S b (OutToken outA) ''result-of-A'' [Persist, Discard] (
     op_Finish S b ''k'' (OutToken outB) Persist ''result-of-B'' test_opts (\<lambda>leaseLost err.
     Fatalf_unless (err = None \<and> \<not> leaseLost) ''Finish(B), want (false, nil)'' (
     op_Begin S b rnd ''k'' ''fp'' test_opts (\<lambda>res. want Replay ''Begin after B, want Replay'' res (\<lambda>replay.
     Fatalf_unless (OutPayload replay = ''result-of-B'') ''Begin after B, want the payload of B only''
     test_end))))))))))"

definition RecordTTLExpiryAllowsReexecution :: "(nat \<Rightarrow> bytes) \<Rightarrow> ('s, 'e) Store \<Rightarrow> ('s, 'e) bench \<Rightarrow> 's test" where
  "RecordTTLExpiryAllowsReexecution rnd S b =
     mustProceed S b rnd ''k'' ''fp'' shortRecord (\<lambda>out.
     op_Finish S b ''k'' (OutToken out) Persist ''v1'' shortRecord (\<lambda>_ err.
     Fatalf_unless (err = None) ''Finish'' (
     with_now b (\<lambda>now. waitUntilExpired b (time_Add now shortTTL) (
     mustProceed S b rnd ''k'' ''fp'' test_opts (\<lambda>_.
     test_end))))))"

type_synonym begin_results = "nat \<Rightarrow> Action \<times> gerror option"

fun begin_all :: "('s, 'e) Store \<Rightarrow> ('s, 'e) bench \<Rightarrow> (nat \<Rightarrow> bytes) \<Rightarrow> nat list \<Rightarrow> begin_results \<Rightarrow> (begin_results \<Rightarrow> 's test) \<Rightarrow> 's test" where
  "begin_all S b rnd [] res k = k res"
| "begin_all S b rnd (g # gs) res k = op_Begin S b rnd ''k'' ''fp'' test_opts (\<lambda>r. begin_all S b rnd gs
     (res(g := (case r of Inl err \<Rightarrow> (Proceed, Some err) | Inr out \<Rightarrow> (Action out, None)))) k)"

fun count_actions :: "begin_results \<Rightarrow> nat list \<Rightarrow> nat \<times> nat \<Rightarrow> string + nat \<times> nat" where
  "count_actions res [] c = Inr c"
| "count_actions res (i # is) (proceeds, inflights) =
     (if snd (res i) \<noteq> None then Inl ''Begin''
      else if fst (res i) = Proceed then count_actions res is (proceeds + 1, inflights)
      else if fst (res i) = RejectInFlight then count_actions res is (proceeds, inflights + 1)
      else Inl ''Begin: unexpected action'')"

definition ConcurrentBeginSingleWinner :: "nat list \<Rightarrow> (nat \<Rightarrow> bytes) \<Rightarrow> ('s, 'e) Store \<Rightarrow> ('s, 'e) bench \<Rightarrow> 's test" where
  "ConcurrentBeginSingleWinner order rnd S b =
     begin_all S b rnd order (\<lambda>_. (Proceed, None)) (\<lambda>res.
     (case count_actions res [0..<100] (0, 0) of
        Inl msg \<Rightarrow> Fatalf msg
      | Inr (proceeds, inflights) \<Rightarrow> Fatalf_unless (proceeds = 1 \<and> inflights = 99) ''want 1 proceed and 99 in flight''
     test_end))"

definition machine_subtests :: "nat list \<Rightarrow> (nat \<Rightarrow> bytes) \<Rightarrow> (('s, 'e) Store \<Rightarrow> ('s, 'e) bench \<Rightarrow> 's test) list" where
  "machine_subtests order rnd = [ProceedPersistReplay rnd, InFlightRejection rnd, DiscardAllowsReexecution rnd,
     ProceedWithoutFinish rnd, LeaseExpirySurvivor rnd, RecordTTLExpiryAllowsReexecution rnd, ConcurrentBeginSingleWinner order rnd]"

definition machine_waits :: "nat \<Rightarrow> nat" where
  "machine_waits n = [200, 200, 200, 1, 1, 2, 200] ! n"

definition RunStateMachineTests :: "('s, 'e) Store \<Rightarrow> nat list \<Rightarrow> (nat \<Rightarrow> bytes) \<Rightarrow> (nat \<Rightarrow> ('s, 'e) bench) \<Rightarrow> (nat \<Rightarrow> 's) \<Rightarrow> string list" where
  "RunStateMachineTests S order rnd bs newStore =
     concat (map (\<lambda>n. (machine_subtests order rnd ! n) S (bs n) 0 (newStore n)) [0..<7])"

subsection \<open>The subtests pass\<close>

lemma suite_ttls [simp]:
  "leaseTTL test_opts = validTTL" "recordTTL test_opts = validTTL" "leaseTTL shortLease = shortTTL" "leaseTTL shortRecord = validTTL"
  "recordTTL shortRecord = shortTTL"
  by (simp_all add: leaseTTL_def recordTTL_def test_opts_def shortLease_def shortRecord_def validTTL_def shortTTL_def Second_def Millisecond_def)

lemma want_Inr [simp]: "want act msg (Inr out) k = Fatalf_unless (Action out = act) msg (k out)"
  by (simp add: want_def)

lemma fresh_tokens: "inj (\<lambda>i. EncodeToString (rnd i)) \<Longrightarrow> EncodeToString (rnd i) = EncodeToString (rnd j) \<longleftrightarrow> i = j"
  by (auto dest: injD)

context bench_run
begin

lemma retry_after_bounds:
  assumes "i < j" "j \<le> 102" "leaseTTL o' = validTTL"
  shows "0 < time_Sub (rebuilt (op_env b j) (grant (op_env b i) (reservation_of key fp tok o' (now_before b i)))) (now_after b j)"
    "time_Sub (rebuilt (op_env b j) (grant (op_env b i) (reservation_of key fp tok o' (now_before b i)))) (now_after b j) \<le> validTTL"
  using begun_lives(2,3) [OF assms, of key fp tok] by (simp_all add: time_Sub_def validTTL_def Second_def)

lemmas machine_simps = suite_simps decide_def

lemma machine_pass:
  shows "passes 0 Map.empty (ProceedPersistReplay rnd S b)" "passes 0 Map.empty (InFlightRejection rnd S b)"
  unfolding ProceedPersistReplay_def InFlightRejection_def mustProceed_def Let_def
  by (rule passes_ops | simp add: machine_simps retry_after_bounds not_le not_less | intro allI impI conjI)+

lemma machine_pass_fresh:
  assumes "inj (\<lambda>i. EncodeToString (rnd i))"
  shows "passes 0 Map.empty (DiscardAllowsReexecution rnd S b)"
    "w = 1 \<Longrightarrow> passes 0 Map.empty (ProceedWithoutFinish rnd S b)"
    "w = 1 \<Longrightarrow> passes 0 Map.empty (LeaseExpirySurvivor rnd S b)"
    "w = 2 \<Longrightarrow> passes 0 Map.empty (RecordTTLExpiryAllowsReexecution rnd S b)"
  unfolding DiscardAllowsReexecution_def ProceedWithoutFinish_def LeaseExpirySurvivor_def RecordTTLExpiryAllowsReexecution_def
    mustProceed_def finish_late.simps time_Add_def
  by (rule passes_ops | simp add: machine_simps fresh_tokens [OF assms] | intro allI impI conjI)+

lemma begin_all_refused:
  assumes "\<And>j. i \<le> j \<Longrightarrow> j < i + length gs \<Longrightarrow> live j v ''k'' = Some l \<and> now_after b j < rebuilt (op_env b j) (l_deadline l)"
    and "l_state l = StateReserved"
    and "\<And>res'. \<forall>g\<in>set gs. res' g = (RejectInFlight, None) \<Longrightarrow> \<forall>g. g \<notin> set gs \<longrightarrow> res' g = res g \<Longrightarrow> passes (i + length gs) v (k res')"
  shows "passes i v (begin_all S b rnd gs res k)"
  using assms(1,3)
proof (induction gs arbitrary: i res)
  case (Cons g gs)
  have l: "live i v ''k'' = Some l" "now_after b i < rebuilt (op_env b i) (l_deadline l)" using Cons.prems(1) [of i] by simp_all
  have "passes (Suc i) v (begin_all S b rnd gs (res(g := (RejectInFlight, None))) k)"
  proof (rule Cons.IH)
    show "live j v ''k'' = Some l \<and> now_after b j < rebuilt (op_env b j) (l_deadline l)" if "Suc i \<le> j" "j < Suc i + length gs" for j
      using Cons.prems(1) [of j] that by simp
    show "passes (Suc i + length gs) v (k res')"
      if "\<forall>g\<in>set gs. res' g = (RejectInFlight, None)" "\<forall>h. h \<notin> set gs \<longrightarrow> res' h = (res(g := (RejectInFlight, None))) h" for res'
    proof -
      have "res' g = (RejectInFlight, None)" using that by (cases "g \<in> set gs") auto
      then show ?thesis using Cons.prems(2) [of res'] that by simp
    qed
  qed
  then show ?case using l assms(2) by (simp, intro passes_Begin) (simp add: decide_def)
qed simp

end

lemma count_actions_ok:
  assumes "distinct is" "\<And>i. i \<in> set is \<Longrightarrow> res i = (if i = g then (Proceed, None) else (RejectInFlight, None))"
  shows "count_actions res is (p, q) = Inr (p + (if g \<in> set is then 1 else 0), q + (length is - (if g \<in> set is then 1 else 0)))"
  using assms
proof (induction "is" arbitrary: p q)
  case (Cons i "is")
  have "length is \<ge> 1" if "g \<in> set is" using that by (cases "is") auto
  then show ?case using Cons.IH [of "p + 1" q] Cons.IH [of p "q + 1"] Cons.prems(1) Cons.prems(2) [of i] Cons.prems(2)
    by (cases "i = g") auto
qed simp

context bench_run
begin

lemma ConcurrentBeginSingleWinner_passes:
  assumes order: "distinct order" "set order = {..<100}"
  shows "passes 0 Map.empty (ConcurrentBeginSingleWinner order rnd S b)"
proof -
  have "length order = 100" using order distinct_card [OF order(1)] by simp
  then obtain g gs where gs: "order = g # gs" "length gs = 99" by (cases order) simp_all
  have g: "g < 100" "g \<notin> set gs" using order gs by auto
  let ?rc = "reservation_of ''k'' ''fp'' (EncodeToString (rnd 0)) test_opts (now_before b 0)"
  let ?l = "new_lease ?rc (grant (op_env b 0) ?rc)" and ?v = "Map.empty(''k'' := Some (new_lease ?rc (grant (op_env b 0) ?rc)))"
  let ?k = "\<lambda>res. case count_actions res [0..<100] (0, 0) of Inl msg \<Rightarrow> Fatalf msg
      | Inr (proceeds, inflights) \<Rightarrow> Fatalf_unless (proceeds = 1 \<and> inflights = 99) ''want 1 proceed and 99 in flight'' test_end"
  have "passes (Suc 0) ?v (begin_all S b rnd gs ((\<lambda>_. (Proceed, None))(g := (Proceed, None))) ?k)"
  proof (rule begin_all_refused [where l = ?l])
    show "live j ?v ''k'' = Some ?l \<and> now_after b j < rebuilt (op_env b j) (l_deadline ?l)" if "Suc 0 \<le> j" "j < Suc 0 + length gs" for j
      using that gs(2) by (simp add: live_at_upd_Some begun_lives(1,2))
    fix res :: begin_results
    assume r: "\<forall>h\<in>set gs. res h = (RejectInFlight, None)" "\<forall>h. h \<notin> set gs \<longrightarrow> res h = ((\<lambda>_. (Proceed, None))(g := (Proceed, None))) h"
    have "res i = (if i = g then (Proceed, None) else (RejectInFlight, None))" if "i \<in> set [0..<100]" for i
      using that r order(2) gs(1) g(2) by auto
    from count_actions_ok [OF distinct_upt this, where p = 0 and q = 0] g(1)
    show "passes (Suc 0 + length gs) ?v (?k res)" by simp
  qed simp
  then show ?thesis unfolding ConcurrentBeginSingleWinner_def gs(1) by (simp, intro passes_Begin) simp
qed

lemma machine_subtest_passes:
  assumes "distinct order" "set order = {..<100}" "inj (\<lambda>i. EncodeToString (rnd i))" "n < 7" "w = machine_waits n"
  shows "passes 0 Map.empty ((machine_subtests order rnd ! n) S b)"
proof -
  have "n \<in> {0, 1, 2, 3, 4, 5, 6}" using assms(4) by (simp, arith)
  then show ?thesis
    using assms(5) machine_pass machine_pass_fresh [OF assms(3)] ConcurrentBeginSingleWinner_passes [OF assms(1,2)]
    by (elim insertE emptyE) (simp_all add: machine_subtests_def machine_waits_def)
qed

end

subsection \<open>Properties\<close>

text \<open>
  (C30) Over every store that keeps the contract, \<open>Begin\<close> and \<open>Finish\<close> pass the suite of the state machine,
  on every bench as for the store suite, when no two tokens coincide.
\<close>

theorem conforming_machines_pass:
  assumes benches: "\<And>n. n < 7 \<Longrightarrow> bench_run S sinv sview sclock up grant keep rebuilt found (bs n) (machine_waits n)"
    and empty: "\<And>n. sinv (newStore n)" "\<And>n t. sview t (newStore n) = Map.empty"
    and order: "distinct order" "set order = {..<100}" and tokens: "inj (\<lambda>i. EncodeToString (rnd i))"
  shows "RunStateMachineTests S order rnd bs newStore = []"
proof -
  have "(machine_subtests order rnd ! n) S (bs n) 0 (newStore n) = []" if "n < 7" for n
    by (rule bench_run.passes_empty [OF benches [OF that] bench_run.machine_subtest_passes [OF benches [OF that] order tokens that refl]])
      (rule empty)+
  then show ?thesis by (auto simp: RunStateMachineTests_def)
qed

theorem conforming_machines_pass_witness:
  "RunStateMachineTests mem_Store [0..<100] (\<lambda>i. replicate i (CHR ''a'')) (\<lambda>n. demo_bench (machine_waits n)) (\<lambda>_. mem_New) = []"
proof (rule conforming_machines_pass [OF mb.bench_run_axioms])
  have len: "length (EncodeToString (replicate i (CHR ''a''))) = 2 * i" for i by (induction i) (simp_all add: EncodeToString_def)
  show "inj (\<lambda>i. EncodeToString (replicate i (CHR ''a'')))"
  proof (rule injI)
    fix i j assume "EncodeToString (replicate i (CHR ''a'')) = EncodeToString (replicate j (CHR ''a''))"
    from arg_cong [OF this, of length] show "i = j" by (simp add: len)
  qed
qed (auto simp: mem_inv_New mem_view_New)

end
