(* ===== verification/Flaky_Store.thy ===== *)
theory Flaky_Store
  imports Conformance_Bench Middleware_Lease
begin

section \<open>Stores around a store\<close>

text \<open>
  The \<^verbatim>\<open>flakyStore\<close> of \<^verbatim>\<open>httpidem/httpidemtest\<close>: a store with injectable failures around another one.
  Its mutex makes each access to the three errors atomic. A store that acts on one component
  of a larger state keeps the contract when the store it wraps does (\<open>lifted_store\<close>); this covers the
  flaky store while it is told not to fail, and the store beside which a running handler
  leaves what it has seen.
\<close>

record 's flakyStore =
  fs_inner :: 's
  reserveErr :: "gerror option"
  completeErr :: "gerror option"
  releaseErr :: "gerror option"

definition new_flaky :: "'s \<Rightarrow> 's flakyStore" where
  "new_flaky s = \<lparr>fs_inner = s, reserveErr = None, completeErr = None, releaseErr = None\<rparr>"

definition setErrs :: "gerror option \<Rightarrow> gerror option \<Rightarrow> gerror option \<Rightarrow> 's flakyStore \<Rightarrow> 's flakyStore" where
  "setErrs reserve' complete' release' f = f\<lparr>reserveErr := reserve', completeErr := complete', releaseErr := release'\<rparr>"

definition errs :: "'s flakyStore \<Rightarrow> gerror option \<times> gerror option \<times> gerror option" where
  "errs f = (reserveErr f, completeErr f, releaseErr f)"

definition flaky_Reserve :: "('s, 'e) Store \<Rightarrow> ('s flakyStore, 'e) reserve_op" where
  "flaky_Reserve S env rc f = (let (e, _, _) = errs f in case e of
       Some x \<Rightarrow> ((None, Some x), f)
     | None \<Rightarrow> let (res, s') = Reserve S env rc (fs_inner f) in (res, f\<lparr>fs_inner := s'\<rparr>))"

definition flaky_Complete :: "('s, 'e) Store \<Rightarrow> ('s flakyStore, 'e) complete_op" where
  "flaky_Complete S env key token payload ttl f = (let (_, e, _) = errs f in case e of
       Some x \<Rightarrow> (Some x, f)
     | None \<Rightarrow> let (res, s') = Complete S env key token payload ttl (fs_inner f) in (res, f\<lparr>fs_inner := s'\<rparr>))"

definition flaky_Release :: "('s, 'e) Store \<Rightarrow> ('s flakyStore, 'e) release_op" where
  "flaky_Release S env key token f = (let (_, _, e) = errs f in case e of
       Some x \<Rightarrow> (Some x, f)
     | None \<Rightarrow> let (res, s') = Release S env key token (fs_inner f) in (res, f\<lparr>fs_inner := s'\<rparr>))"

definition flaky_Get :: "('s, 'e) Store \<Rightarrow> ('s flakyStore, 'e) get_op" where
  "flaky_Get S env key f = (let (res, s') = Get S env key (fs_inner f) in (res, f\<lparr>fs_inner := s'\<rparr>))"

definition flaky_Store :: "('s, 'e) Store \<Rightarrow> ('s flakyStore, 'e) Store" where
  "flaky_Store S = \<lparr>Reserve = flaky_Reserve S, Complete = flaky_Complete S, Release = flaky_Release S, Get = flaky_Get S\<rparr>"

text \<open>A store beside which something else is kept.\<close>

definition beside :: "('s, 'e) Store \<Rightarrow> ('s \<times> 'x, 'e) Store" where
  "beside S = \<lparr>Reserve = (\<lambda>env rc (s, x). let (res, s') = Reserve S env rc s in (res, (s', x))),
     Complete = (\<lambda>env key token payload ttl (s, x). let (res, s') = Complete S env key token payload ttl s in (res, (s', x))),
     Release = (\<lambda>env key token (s, x). let (res, s') = Release S env key token s in (res, (s', x))),
     Get = (\<lambda>env key (s, x). let (res, s') = Get S env key s in (res, (s', x)))\<rparr>"

lemma flaky_Store_sel [simp]:
  "Reserve (flaky_Store S) = flaky_Reserve S" "Complete (flaky_Store S) = flaky_Complete S"
  "Release (flaky_Store S) = flaky_Release S" "Get (flaky_Store S) = flaky_Get S"
  by (simp_all add: flaky_Store_def)

lemma flaky_fails:
  "reserveErr f = Some x \<Longrightarrow> flaky_Reserve S env rc f = ((None, Some x), f)"
  "completeErr f = Some x \<Longrightarrow> flaky_Complete S env key token payload ttl f = (Some x, f)"
  "releaseErr f = Some x \<Longrightarrow> flaky_Release S env key token f = (Some x, f)"
  by (simp_all add: flaky_Reserve_def flaky_Complete_def flaky_Release_def errs_def)

lemma flaky_works:
  "reserveErr f = None \<Longrightarrow> flaky_Reserve S env rc f = map_prod id (\<lambda>s. f\<lparr>fs_inner := s\<rparr>) (Reserve S env rc (fs_inner f))"
  "completeErr f = None \<Longrightarrow> flaky_Complete S env key token payload ttl f =
     map_prod id (\<lambda>s. f\<lparr>fs_inner := s\<rparr>) (Complete S env key token payload ttl (fs_inner f))"
  "releaseErr f = None \<Longrightarrow> flaky_Release S env key token f = map_prod id (\<lambda>s. f\<lparr>fs_inner := s\<rparr>) (Release S env key token (fs_inner f))"
  by (simp_all add: flaky_Reserve_def flaky_Complete_def flaky_Release_def errs_def map_prod_def split: prod.splits)

lemma setErrs_sel [simp]:
  "fs_inner (setErrs a b c f) = fs_inner f" "reserveErr (setErrs a b c f) = a" "completeErr (setErrs a b c f) = b"
  "releaseErr (setErrs a b c f) = c" "setErrs a b c (setErrs a' b' c' f) = setErrs a b c f"
  by (simp_all add: setErrs_def)

lemma new_flaky_sel [simp]: "fs_inner (new_flaky s) = s"
  by (simp add: new_flaky_def)

definition working :: "'s flakyStore \<Rightarrow> bool" where
  "working f \<longleftrightarrow> reserveErr f = None \<and> completeErr f = None \<and> releaseErr f = None"

subsection \<open>Lifting the contract\<close>

context lease_store
begin

lemma lifted_store:
  assumes lens: "\<And>s u. get (put s u) = s" "\<And>s u. ok u \<Longrightarrow> ok (put s u)"
    and ops: "\<And>e r u. ok u \<Longrightarrow> Reserve T e r u = map_prod id (\<lambda>s. put s u) (Reserve S e r (get u))"
      "\<And>e k tok p ttl u. ok u \<Longrightarrow> Complete T e k tok p ttl u = map_prod id (\<lambda>s. put s u) (Complete S e k tok p ttl (get u))"
      "\<And>e k tok u. ok u \<Longrightarrow> Release T e k tok u = map_prod id (\<lambda>s. put s u) (Release S e k tok (get u))"
  shows "lease_store T (\<lambda>u. sinv (get u) \<and> ok u) (\<lambda>t u. sview t (get u)) sclock up grant keep rebuilt"
proof
  fix u :: 'a and e res u' t k tok p ttl err l r t'
  assume inv: "sinv (get u) \<and> ok u"
  show "known_state (l_state l) \<and> t < l_deadline l" if "sview t (get u) k = Some l" using view_known inv that by blast
  show "sview t' (get u) = live_at t' (sview t (get u))" if "t \<le> t'" using view_later inv that by blast
  show "sinv (get u') \<and> ok u'" if "is_reservation r" "Reserve T e r u = (res, u')"
    using reserve_inv [of "get u" r e] that ops(1) [of u e r] inv lens by (cases "Reserve S e r (get u)") auto
  show "sinv (get u') \<and> ok u'" if "Complete T e k tok p ttl u = (err, u')"
    using complete_inv [of "get u" e k tok p ttl] that ops(2) [of u e k tok p ttl] inv lens by (cases "Complete S e k tok p ttl (get u)") auto
  show "sinv (get u') \<and> ok u'" if "Release T e k tok u = (err, u')"
    using release_inv [of "get u" e k tok] that ops(3) [of u e k tok] inv lens by (cases "Release S e k tok (get u)") auto
next
  fix u :: 'a and e res u' t r
  assume inv: "sinv (get u) \<and> ok u" and "up e" "is_reservation r" "Reserve T e r u = (res, u')" "sclock e \<le> t"
  then obtain s' where s': "Reserve S e r (get u) = (res, s')" "u' = put s' u"
    using ops(1) [of u e r] by (cases "Reserve S e r (get u)") auto
  show "res = (None, None) \<and> sview t (get u') = live_at t ((sview (sclock e) (get u))(Key r := Some (new_lease r (grant e r))))"
    if "sview (sclock e) (get u) (Key r) = None"
    using reserve_claims [OF _ \<open>up e\<close> \<open>is_reservation r\<close> that s'(1) \<open>sclock e \<le> t\<close>] inv s'(2) lens(1) by simp
  show "(\<exists>x err. res = (Some x, Some err) \<and> errors_Is err ErrAlreadyExists \<and> reports x (Key r) l \<and>
      active_deadline x = rebuilt e (l_deadline l)) \<and> sview t (get u') = sview t (get u)"
    if "sview (sclock e) (get u) (Key r) = Some l" for l
    using reserve_refuses [OF _ \<open>up e\<close> \<open>is_reservation r\<close> that s'(1) \<open>sclock e \<le> t\<close>] inv s'(2) lens(1) by simp
next
  fix u :: 'a and e err u' t k tok p ttl
  assume inv: "sinv (get u) \<and> ok u" and "up e" "Complete T e k tok p ttl u = (err, u')" "sclock e \<le> t"
  then obtain s' where s': "Complete S e k tok p ttl (get u) = (err, s')" "u' = put s' u"
    using ops(2) [of u e k tok p ttl] by (cases "Complete S e k tok p ttl (get u)") auto
  show "err = None \<and> sview t (get u') = live_at t ((sview (sclock e) (get u))(k := Some (completed_lease l p (keep e ttl))))"
    if "held_by (sview (sclock e) (get u)) k tok l" for l
    using complete_stores [OF _ \<open>up e\<close> that s'(1) \<open>sclock e \<le> t\<close>] inv s'(2) lens(1) by simp
  show "lost_error err \<and> sview t (get u') = sview t (get u)" if "\<nexists>l. held_by (sview (sclock e) (get u)) k tok l"
    using complete_lost [OF _ \<open>up e\<close> that s'(1) \<open>sclock e \<le> t\<close>] inv s'(2) lens(1) by simp
next
  fix u :: 'a and e err u' t k tok
  assume inv: "sinv (get u) \<and> ok u" and "up e" "Release T e k tok u = (err, u')" "sclock e \<le> t"
  then obtain s' where s': "Release S e k tok (get u) = (err, s')" "u' = put s' u"
    using ops(3) [of u e k tok] by (cases "Release S e k tok (get u)") auto
  show "err = None \<and> sview t (get u') = (sview t (get u))(k := None)" if "held_by (sview (sclock e) (get u)) k tok l" for l
    using release_frees [OF _ \<open>up e\<close> that s'(1) \<open>sclock e \<le> t\<close>] inv s'(2) lens(1) by simp
  show "lost_error err \<and> sview t (get u') = sview t (get u)" if "\<nexists>l. held_by (sview (sclock e) (get u)) k tok l"
    using release_lost [OF _ \<open>up e\<close> that s'(1) \<open>sclock e \<le> t\<close>] inv s'(2) lens(1) by simp
qed

lemma flaky_contract:
  "lease_store (flaky_Store S) (\<lambda>f. sinv (fs_inner f) \<and> working f) (\<lambda>t f. sview t (fs_inner f)) sclock up grant keep rebuilt"
  by (rule lifted_store [where put = "\<lambda>s f. f\<lparr>fs_inner := s\<rparr>"]) (simp_all add: working_def flaky_works)

lemma beside_contract:
  "lease_store (beside S) (\<lambda>u. sinv (fst u)) (\<lambda>t u. sview t (fst u)) sclock up grant keep rebuilt"
  by (rule lifted_store [where put = "\<lambda>s u. (s, snd u)" and ok = "\<lambda>_. True", simplified]) (auto simp: beside_def map_prod_def split: prod.splits)

end

end
