(* ===== verification/Http_Bench.thy ===== *)
theory Http_Bench
  imports Flaky_Store
begin

section \<open>Requests of the middleware's conformance suite\<close>

text \<open>
  \<^verbatim>\<open>do\<close> of \<^verbatim>\<open>httpidem/httpidemtest\<close> and what a request to the middleware does on a quiet connection: the
  client is a \<^verbatim>\<open>httptest.ResponseRecorder\<close> (the \<open>rw\<close> of \<open>Response_Writer\<close>, without \<^verbatim>\<open>Hijack\<close>), and
  nobody else uses the store between the steps of the call. The lemmas give, over any store
  that keeps the contract, the response the recorder holds and the view of the store afterwards.
\<close>

definition NewRequest :: "string \<Rightarrow> string \<Rightarrow> bytes \<Rightarrow> Request" where
  "NewRequest meth target body = \<lparr>Method = meth, ReqURL = \<lparr>EscapedPath = takeWhile (\<lambda>c. c \<noteq> CHR ''?'') target,
     RawQuery = drop 1 (dropWhile (\<lambda>c. c \<noteq> CHR ''?'') target)\<rparr>, ReqHeader = [],
     ReqBody = Some \<lparr>body_bytes = body, body_err = None\<rparr>, ContentLength = int (length body)\<rparr>"

definition recorder :: rw where
  "recorder = new_rw None (Some (Sentinel ErrNotSupported))"

definition Code :: "rw \<Rightarrow> int" where
  "Code rr = (case rw_sent rr of None \<Rightarrow> StatusOK | Some (code, _) \<Rightarrow> code)"

definition Header_Get :: "Header \<Rightarrow> string \<Rightarrow> string" where
  "Header_Get h name = (case hdr_Values h name of [] \<Rightarrow> [] | v # _ \<Rightarrow> v)"

definition do_request :: "string \<Rightarrow> string \<Rightarrow> string \<Rightarrow> bytes \<Rightarrow> (Request \<Rightarrow> Request) list \<Rightarrow> Request" where
  "do_request meth target key body mutate =
     (let req = NewRequest meth target body;
          req1 = (if key \<noteq> [] then req\<lparr>ReqHeader := hdr_Set (ReqHeader req) HeaderIdempotencyKey key\<rparr> else req)
      in foldl (\<lambda>r m. m r) req1 mutate)"

text \<open>
  The readings of a call: \<open>Begin\<close> takes slot \<open>i\<close> of the bench, \<open>Finish\<close> slot \<open>j\<close>, a further release the slot
  after it. A call yields whether it panicked, the recorder, the number of executions
  of the handler, the log, and the store.
\<close>

definition quiet_env :: "('x, 'e) bench \<Rightarrow> bytes \<Rightarrow> nat \<Rightarrow> nat \<Rightarrow> ('s, 'e) call_env" where
  "quiet_env b rnd i j = \<lparr>ce_rnd = Inr rnd,
     ce_begin = (\<lambda>_. \<lparr>at_between = id, at_deadline = now_before b i, at_store = op_env b i, at_check = now_after b i\<rparr>),
     ce_before_finish = id, ce_finish = op_env b j, ce_before_release = id, ce_release = op_env b (Suc j)\<rparr>"

definition http_do :: "(bytes \<Rightarrow> bytes) \<Rightarrow> ('s, 'e) Store \<Rightarrow> config \<Rightarrow> 's handler \<Rightarrow> ('s, 'e) call_env \<Rightarrow> Request \<Rightarrow> logline list \<Rightarrow>
    's \<Rightarrow> (bool \<times> rw \<times> nat \<times> logline list) \<times> 's" where
  "http_do sha256 S cfg h env req log s =
     (let (p, wd) = ServeHTTP sha256 S cfg h env req background \<lparr>wd_w = recorder, wd_store = s, wd_log = log, wd_calls = []\<rparr>
      in ((p, wd_w wd, length (wd_calls wd), wd_log wd), wd_store wd))"

lemma quiet_env_sel [simp]:
  "ce_rnd (quiet_env b rnd i j) = Inr rnd" "ce_before_finish (quiet_env b rnd i j) = id" "ce_finish (quiet_env b rnd i j) = op_env b j"
  "ce_before_release (quiet_env b rnd i j) = id" "ce_release (quiet_env b rnd i j) = op_env b (Suc j)"
  "ce_begin (quiet_env b rnd i j) = (\<lambda>_. \<lparr>at_between = id, at_deadline = now_before b i, at_store = op_env b i, at_check = now_after b i\<rparr>)"
  by (simp_all add: quiet_env_def)

lemma fresh_recorder [simp]: "fresh_rw recorder"
  by (simp add: recorder_def fresh_rw_def new_rw_def)

subsection \<open>Handlers that answer at once\<close>

text \<open>The recorder after a response, and the capture of it.\<close>

definition response :: "Header \<Rightarrow> int \<Rightarrow> bytes \<Rightarrow> rw" where
  "response hdr code bs = recorder\<lparr>rw_header := hdr, rw_sent := Some (code, hdr), rw_body := bs\<rparr>"

definition done_cw :: "config \<Rightarrow> Header \<Rightarrow> int \<Rightarrow> bytes \<Rightarrow> captureWriter" where
  "done_cw cfg hdr code bs = \<lparr>cw_w = response hdr code bs,
     cw_rec = (NewRecorder (maxResponseBody cfg) (storeHeaders cfg))\<lparr>rec_status := code,
       rec_header := Some (snapshot hdr [] (allow_names [] (storeHeaders cfg))), rec_body := bs\<rparr>, wroteHeader = True\<rparr>"

definition responds :: "config \<Rightarrow> 's prog \<Rightarrow> Header \<Rightarrow> int \<Rightarrow> bytes \<Rightarrow> ('s \<Rightarrow> 's) \<Rightarrow> bool" where
  "responds cfg p hdr code bs g \<longleftrightarrow> (\<forall>c s. run_cap p \<lparr>cp_cw = \<lparr>cw_w = recorder,
     cw_rec = NewRecorder (maxResponseBody cfg) (storeHeaders cfg), wroteHeader = False\<rparr>, cp_ctx = c, cp_store = s\<rparr> =
     (False, \<lparr>cp_cw = done_cw cfg hdr code bs, cp_ctx = c, cp_store = g s\<rparr>))"

definition status_prog :: "int \<Rightarrow> 's prog" where
  "status_prog code = Do (WriteHeader code) (\<lambda>_. Done)"

definition body_prog :: "int \<Rightarrow> bytes \<Rightarrow> 's prog" where
  "body_prog code bs = Do (WriteHeader code) (\<lambda>_. Do (Write bs) (\<lambda>_. Done))"

definition json_prog :: "int \<Rightarrow> bytes \<Rightarrow> 's prog" where
  "json_prog code bs = Do (SetHeader ''Content-Type'' [''application/json'']) (\<lambda>_. body_prog code bs)"

lemmas capture_steps = cap_step_def cw_WriteHeader_def cw_Write_def RecordStatus_def RecordBody_def NewRecorder_def
  rw_WriteHeader_def rw_Write_def rw_implicit_eq rw_set_def recorder_def new_rw_def response_def done_cw_def hdr_put_def Let_def

lemma responds_status: "200 \<le> code \<Longrightarrow> code \<le> 999 \<Longrightarrow> responds cfg (status_prog code) [] code [] id"
  by (simp add: responds_def status_prog_def capture_steps)

lemma responds_body:
  "200 \<le> code \<Longrightarrow> code \<le> 999 \<Longrightarrow> bodyAllowed code \<Longrightarrow> bs \<noteq> [] \<Longrightarrow> int (length bs) \<le> maxResponseBody cfg \<Longrightarrow>
    responds cfg (body_prog code bs) [] code bs id"
  by (simp add: responds_def body_prog_def capture_steps)

lemma responds_json:
  "200 \<le> code \<Longrightarrow> code \<le> 999 \<Longrightarrow> bodyAllowed code \<Longrightarrow> bs \<noteq> [] \<Longrightarrow> int (length bs) \<le> maxResponseBody cfg \<Longrightarrow>
    responds cfg (json_prog code bs) [(''Content-Type'', [''application/json''])] code bs id"
  by (simp add: responds_def json_prog_def body_prog_def capture_steps)

lemma responds_after: "responds cfg p hdr code bs id \<Longrightarrow> responds cfg (Do (StoreOp f) (\<lambda>_. p)) hdr code bs (\<lambda>s. snd (f s))"
  by (simp add: responds_def cap_step_def split: prod.splits)


subsection \<open>One request\<close>

text \<open>The configurations of the suite differ from the default in scope, lease and fail-open only.\<close>

definition suite_config :: "config \<Rightarrow> bool" where
  "suite_config cfg \<longleftrightarrow> maxResponseBody cfg = maxResponseBody default_config \<and> storeHeaders cfg = storeHeaders default_config \<and>
     policy cfg = defaultDecide \<and> errorWriter cfg = problemWriter \<and> replayedHeader cfg"

definition stored :: "Header \<Rightarrow> int \<Rightarrow> bytes \<Rightarrow> StoredResponse" where
  "stored hdr code bs = \<lparr>StatusCode = code, SRHeader = hdr, SRBody = bs\<rparr>"

text \<open>A response that is captured as it is, persisted and replayed.\<close>

definition replayable :: "Header \<Rightarrow> int \<Rightarrow> bytes \<Rightarrow> bool" where
  "replayable hdr code bs \<longleftrightarrow> snapshot hdr [] (allow_names [] (storeHeaders default_config)) = hdr \<and> 200 \<le> code \<and> code < 429 \<and>
     storable (stored hdr code bs) \<and> sorted_header hdr = hdr \<and> (bs = [] \<or> bodyAllowed code) \<and>
     int (length (MarshalBinary (stored hdr code bs))) \<le> wrap64 (maxResponseBody default_config + maxStoredResponseOverhead)"

lemma finalize_done [simp]: "cw_finalize (done_cw cfg hdr code bs) = done_cw cfg hdr code bs"
  by (simp add: cw_finalize_def done_cw_def)

lemma done_status [simp]: "code \<noteq> 0 \<Longrightarrow> Status (cw_rec (done_cw cfg hdr code bs)) = code"
  by (simp add: done_cw_def Status_def)

lemma done_captured:
  "suite_config cfg \<Longrightarrow> replayable hdr code bs \<Longrightarrow> StoredResponse_of (cw_rec (done_cw cfg hdr code bs)) = (stored hdr code bs, True)"
  by (simp add: StoredResponse_of_def done_cw_def NewRecorder_def stored_def Status_def suite_config_def replayable_def)

lemma done_w [simp]: "cw_w (done_cw cfg hdr code bs) = response hdr code bs"
  by (simp add: done_cw_def)

lemma handlerErr_lease_ctx [simp]: "handlerErr (lease_ctx k t opts c) = None"
  by (simp add: handlerErr_def lease_ctx_def FinishChannel_def ContextWithReservation_def ErrorChannel_def errBox_get_def)

lemma lease_ctx_unfinished [simp]: "\<not> finished (lease_ctx k t opts c)"
  by (simp add: finished_def lease_ctx_def FinishChannel_def finishedBox_done_def)

lemma responds_run:
  "responds cfg (h r c) hdr code bs g \<Longrightarrow> run_under_lease cfg h r c recorder s =
     (False, \<lparr>cp_cw = done_cw cfg hdr code bs, cp_ctx = c, cp_store = g s\<rparr>)"
  by (simp add: responds_def run_under_lease_def)

text \<open>What the client of a replay holds.\<close>

definition replay_response :: "Header \<Rightarrow> int \<Rightarrow> bytes \<Rightarrow> rw" where
  "replay_response hdr code bs =
     response (rw_header (put_all hdr (recorder\<lparr>rw_header := hdr_Set [] HeaderIdempotencyReplayed ''true''\<rparr>))) code bs"

lemma put_all_body: "put_all hdr w = w\<lparr>rw_header := rw_header (put_all hdr w)\<rparr>"
proof (induction hdr arbitrary: w)
  case (Cons p hdr)
  obtain n vs where "p = (n, vs)" by force
  then show ?case using Cons.IH [of "rw_set n vs w"] by (simp add: rw_set_def)
qed simp

lemma WriteStored_recorder:
  assumes "200 \<le> code" "code \<le> 999" "bs = [] \<or> bodyAllowed code"
  shows "WriteStored (stored hdr code bs) (recorder\<lparr>rw_header := h\<rparr>) =
    (Reply None, response (rw_header (put_all hdr (recorder\<lparr>rw_header := h\<rparr>))) code bs)"
proof -
  obtain hh where "put_all hdr (recorder\<lparr>rw_header := h\<rparr>) = recorder\<lparr>rw_header := hh\<rparr>"
    using put_all_body [of hdr "recorder\<lparr>rw_header := h\<rparr>"] by (metis rw.update_convs(1) rw.fold_congs(1) rw.surjective)
  then show ?thesis
    using assms by (auto simp: WriteStored_def stored_def rw_WriteHeader_def rw_Write_def rw_implicit_eq recorder_def new_rw_def response_def Let_def)
qed

lemma writeReplay_recorder:
  assumes "suite_config cfg" "replayable hdr code bs"
  shows "writeReplay sha256 cfg r sc key (MarshalBinary (stored hdr code bs)) \<lparr>wd_w = recorder, wd_store = s, wd_log = log, wd_calls = cs\<rparr> =
    (False, \<lparr>wd_w = replay_response hdr code bs, wd_store = s, wd_log = log, wd_calls = cs\<rparr>)"
proof -
  have "UnmarshalBinary (MarshalBinary (stored hdr code bs)) = Inr (stored hdr code bs)"
    using Unmarshal_Marshal [of "stored hdr code bs"] assms(2) by (simp add: replayable_def stored_def)
  moreover have "rw_header recorder = []" by (simp add: recorder_def new_rw_def)
  ultimately show ?thesis
    using assms WriteStored_recorder [of code bs hdr "hdr_Set [] HeaderIdempotencyReplayed ''true''"]
    by (simp add: writeReplay_def suite_config_def replayable_def replay_response_def Let_def)
qed

text \<open>What the client of a refusal holds.\<close>

lemma WriteError_recorder:
  assumes "suite_config cfg" "400 \<le> code" "code \<le> 999"
  shows "\<exists>bs. WriteError cfg r code e \<lparr>wd_w = recorder\<lparr>rw_header := h\<rparr>, wd_store = s, wd_log = log, wd_calls = cs\<rparr> =
    (False, \<lparr>wd_w = response (hdr_Set h ''Content-Type'' ''application/problem+json'') code bs, wd_store = s, wd_log = log, wd_calls = cs\<rparr>)"
  using assms
  by (simp add: WriteError_def suite_config_def problemWriter_def rw_WriteHeader_def rw_Write_def rw_implicit_eq bodyAllowed_def
      recorder_def new_rw_def response_def Let_def)


text \<open>A call up to the moment at which its handler has returned, and the refusals, whatever the store.\<close>

lemma do_runs:
  assumes acc: "accepted cfg r key body"
    and k: "k = scoped_key (scope_of cfg (rebuffer r body)) key" and fp: "fp = Fingerprint_of sha256 (Method r) (ReqURL r) body"
    and B: "Begin S (Inr rnd) (ce_begin (quiet_env b rnd i j)) k fp (lease_options cfg) s = (Inr (proceed_outcome (EncodeToString rnd)), s1)"
    and run: "\<And>r c. responds cfg (h r c) hdr code bs g"
  shows "ServeHTTP sha256 S cfg h (quiet_env b rnd i j) r background \<lparr>wd_w = recorder, wd_store = s, wd_log = log, wd_calls = []\<rparr> =
    (False, settle S cfg (quiet_env b rnd i j) (keyAttrs sha256 cfg (scope_of cfg (rebuffer r body)) key) k (EncodeToString rnd)
      (lease_options cfg) (cw_rec (done_cw cfg hdr code bs)) None
      \<lparr>wd_w = response hdr code bs, wd_store = g s1, wd_log = log,
        wd_calls = [(rebuffer r body, lease_ctx k (EncodeToString rnd) (lease_options cfg) background)]\<rparr>)"
proof -
  have "serve_keyed sha256 S cfg h (quiet_env b rnd i j) key body (rebuffer r body) background \<lparr>wd_w = recorder, wd_store = s, wd_log = log, wd_calls = []\<rparr> =
      serve_proceed S cfg h (quiet_env b rnd i j) (keyAttrs sha256 cfg (scope_of cfg (rebuffer r body)) key) k (EncodeToString rnd)
        (lease_options cfg) (rebuffer r body) background \<lparr>wd_w = recorder, wd_store = s1, wd_log = log, wd_calls = []\<rparr>"
    using B k fp by (subst serve_keyed_proceeds [where out = "proceed_outcome (EncodeToString rnd)" and s' = s1]) simp_all
  then show ?thesis by (simp add: ServeHTTP_accepted [OF acc] serve_proceed_def responds_run [OF run])
qed

lemma retryAfterSeconds_number: "\<exists>secs. ParseInt (retryAfterSeconds d) = Some secs \<and> 1 \<le> secs"
proof -
  let ?y = "wrap64 (wrap64 (d + Second) - 1)"
  let ?x = "quot ?y Second"
  have y: "?y \<le> 2 ^ 63 - 1" using in_int64_wrap64 [of "wrap64 (d + Second) - 1"] unfolding in_int64_def by simp
  have "?x \<le> 2 ^ 63 - 1"
  proof (cases "0 \<le> ?y")
    case True
    then have "?x = ?y div Second" by (simp add: quot_nonneg Second_def)
    also have "\<dots> \<le> ?y" using True by (simp add: Second_def)
    finally show ?thesis using y by simp
  next
    case False
    then have "?x \<le> 0" by (subst quot_nonpos) (simp_all add: Second_def pos_imp_zdiv_nonneg_iff)
    then show ?thesis by simp
  qed
  then have "in_int64 (if ?x < 1 then 1 else ?x)" by (auto simp: in_int64_def)
  then show ?thesis by (auto simp: retryAfterSeconds_def Let_def ParseInt_FormatInt)
qed

definition conflict :: "rw \<Rightarrow> bool" where
  "conflict rr \<longleftrightarrow> Code rr = 409 \<and> (\<exists>secs. ParseInt (Header_Get (rw_header rr) ''Retry-After'') = Some secs \<and> 1 \<le> secs)"

lemma Code_response [simp]: "Code (response hdr code bs) = code"
  by (simp add: Code_def response_def)

lemma answer_in_flight:
  assumes "suite_config cfg"
  shows "\<exists>rr. conflict rr \<and> answer sha256 cfg r sc key (in_flight_outcome d) \<lparr>wd_w = recorder, wd_store = s, wd_log = log, wd_calls = []\<rparr> =
    (False, \<lparr>wd_w = rr, wd_store = s, wd_log = log, wd_calls = []\<rparr>)"
proof -
  let ?h = "hdr_Set [] ''Retry-After'' (retryAfterSeconds d)"
  obtain bs where W: "WriteError cfg r 409 (Sentinel ErrInFlight) \<lparr>wd_w = recorder\<lparr>rw_header := ?h\<rparr>, wd_store = s, wd_log = log, wd_calls = []\<rparr> =
      (False, \<lparr>wd_w = response (hdr_Set ?h ''Content-Type'' ''application/problem+json'') 409 bs, wd_store = s, wd_log = log, wd_calls = []\<rparr>)"
    using WriteError_recorder [OF assms, of 409] by fastforce
  have canon: "CanonicalMIMEHeaderKey ''Retry-After'' = ''Retry-After''" "CanonicalMIMEHeaderKey ''Content-Type'' = ''Content-Type''" by code_simp+
  have "conflict (response (hdr_Set ?h ''Content-Type'' ''application/problem+json'') 409 bs)"
    using retryAfterSeconds_number [of d] by (simp add: conflict_def response_def Code_def Header_Get_def hdr_Values_def hdr_Set_def canon)
  moreover have "rw_header recorder = []" by (simp add: recorder_def new_rw_def)
  ultimately show ?thesis using W by (auto simp: answer_def)
qed

lemma answer_mismatch:
  assumes "suite_config cfg"
  shows "\<exists>rr. Code rr = 422 \<and> answer sha256 cfg r sc key mismatch_outcome \<lparr>wd_w = recorder, wd_store = s, wd_log = log, wd_calls = []\<rparr> =
    (False, \<lparr>wd_w = rr, wd_store = s, wd_log = log, wd_calls = []\<rparr>)"
  using WriteError_recorder [OF assms, of 422 r "Sentinel ErrFingerprintMismatch" "rw_header recorder" s log "[]"] by (auto simp: answer_def)

context lease_client
begin

text \<open>The store after \<open>Begin\<close> has claimed a free key.\<close>

lemma begun:
  assumes "sinv s" "up (op_env b i)" "sview (sclock (op_env b i)) s k = None"
    and "s1 = snd (Begin S (Inr rnd) (ce_begin (quiet_env b rnd i j)) k fp opts s)"
    and "rc = reservation_of k fp (EncodeToString rnd) opts (now_before b i)" "sclock (op_env b i) \<le> t"
  shows "sinv s1" "sview t s1 = live_at t ((sview (sclock (op_env b i)) s)(k := Some (new_lease rc (grant (op_env b i) rc))))"
proof -
  obtain res where B: "Begin S (Inr rnd) (ce_begin (quiet_env b rnd i j)) k fp opts s = (res, s1)"
    using assms(4) by (metis prod.collapse)
  from Begin_first [where env = "ce_begin (quiet_env b rnd i j)", OF _ _ _ _ B, of t] assms
  show "sinv s1" "sview t s1 = live_at t ((sview (sclock (op_env b i)) s)(k := Some (new_lease rc (grant (op_env b i) rc))))"
    by simp_all
qed

lemma begun_Begin:
  assumes "sinv s" "up (op_env b i)" "sview (sclock (op_env b i)) s k = None"
    and "s1 = snd (Begin S (Inr rnd) (ce_begin (quiet_env b rnd i j)) k fp opts s)"
  shows "Begin S (Inr rnd) (ce_begin (quiet_env b rnd i j)) k fp opts s = (Inr (proceed_outcome (EncodeToString rnd)), s1)"
proof -
  obtain res where B: "Begin S (Inr rnd) (ce_begin (quiet_env b rnd i j)) k fp opts s = (res, s1)"
    using assms(4) by (metis prod.collapse)
  from Begin_first [where env = "ce_begin (quiet_env b rnd i j)", OF _ _ _ _ B, of "sclock (op_env b i)"] assms(1-3) B show ?thesis by simp
qed

lemma do_persists:
  assumes cfg: "suite_config cfg" "replayable hdr code bs" and acc: "accepted cfg r key body"
    and k: "k = scoped_key (scope_of cfg (rebuffer r body)) key" and fp: "fp = Fingerprint_of sha256 (Method r) (ReqURL r) body"
    and free: "sinv s" "up (op_env b i)" "sview (sclock (op_env b i)) s k = None"
    and run: "\<And>r c. responds cfg (h r c) hdr code bs g"
    and s1: "s1 = snd (Begin S (Inr rnd) (ce_begin (quiet_env b rnd i j)) k fp (lease_options cfg) s)"
    and fin: "sinv (g s1)" "up (op_env b j)" "held_by (sview (sclock (op_env b j)) (g s1)) k (EncodeToString rnd) l"
  obtains s' where "http_do sha256 S cfg h (quiet_env b rnd i j) r log s = ((False, response hdr code bs, 1, log), s')" "sinv s'"
    "\<forall>t. sclock (op_env b j) \<le> t \<longrightarrow> sview t s' = live_at t ((sview (sclock (op_env b j)) (g s1))
      (k := Some (completed_lease l (MarshalBinary (stored hdr code bs)) (keep (op_env b j) (recordTTL (lease_options cfg))))))"
proof -
  let ?env = "quiet_env b rnd i j" and ?wd = "\<lparr>wd_w = recorder, wd_store = s, wd_log = log, wd_calls = []\<rparr>"
  let ?c = "lease_ctx k (EncodeToString rnd) (lease_options cfg) background"
  let ?st = "\<lparr>cp_cw = done_cw cfg hdr code bs, cp_ctx = ?c, cp_store = g s1\<rparr>"
  let ?served = "\<lambda>s'. ServeHTTP sha256 S cfg h ?env r background ?wd =
      (False, ?wd\<lparr>wd_w := response hdr code bs, wd_store := s', wd_calls := [(rebuffer r body, ?c)]\<rparr>)"
  have E: "\<exists>s'. ?served s' \<and> sinv s' \<and> sview t s' = live_at t ((sview (sclock (op_env b j)) (g s1))
      (k := Some (completed_lease l (MarshalBinary (stored hdr code bs)) (keep (op_env b j) (recordTTL (lease_options cfg))))))"
    if "sclock (op_env b j) \<le> t" for t
  proof (rule first_request [where env = ?env and wd = ?wd and st = ?st and h = h and t = t and k = k and body = body and key = key and r = r
        and fp = fp and c = background and b = rnd and l = l and sr = "stored hdr code bs" and cfg = cfg])
    show "run_under_lease cfg h (rebuffer r body) ?c (wd_w ?wd) (snd (Begin S (ce_rnd ?env) (ce_begin ?env) k fp (lease_options cfg) (wd_store ?wd))) = (False, ?st)"
      using s1 by (simp add: responds_run [OF run])
    show "policy cfg (Status (cw_rec (cw_finalize (cp_cw ?st)))) (handlerErr (cp_ctx ?st)) = Persist"
      using cfg by (simp add: suite_config_def replayable_def defaultDecide_def)
  qed (use acc k fp free fin that done_captured [OF cfg] in auto)
  obtain s' where s': "?served s'" "sinv s'" using E [OF order_refl] by blast
  have same: "s'' = s'" if "?served s''" for s'' using that s'(1) by simp
  show thesis
  proof (rule that)
    show "http_do sha256 S cfg h ?env r log s = ((False, response hdr code bs, 1, log), s')" using s'(1) by (simp add: http_do_def)
    show "\<forall>t. sclock (op_env b j) \<le> t \<longrightarrow> sview t s' = live_at t ((sview (sclock (op_env b j)) (g s1))
      (k := Some (completed_lease l (MarshalBinary (stored hdr code bs)) (keep (op_env b j) (recordTTL (lease_options cfg))))))"
      using E same by blast
  qed (rule s'(2))
qed

lemma do_lost:
  assumes cfg: "suite_config cfg" "replayable hdr code bs" and acc: "accepted cfg r key body"
    and k: "k = scoped_key (scope_of cfg (rebuffer r body)) key" and fp: "fp = Fingerprint_of sha256 (Method r) (ReqURL r) body"
    and free: "sinv s" "up (op_env b i)" "sview (sclock (op_env b i)) s k = None"
    and run: "\<And>r c. responds cfg (h r c) hdr code bs g"
    and s1: "s1 = snd (Begin S (Inr rnd) (ce_begin (quiet_env b rnd i j)) k fp (lease_options cfg) s)"
    and fin: "sinv (g s1)" "up (op_env b j)" "\<nexists>l. held_by (sview (sclock (op_env b j)) (g s1)) k (EncodeToString rnd) l"
  obtains s' lg where "http_do sha256 S cfg h (quiet_env b rnd i j) r log s = ((False, response hdr code bs, 1, log @ [lg]), s')"
    "(''event'', ''lease_lost'') \<in> set (lg_attrs lg)" "sinv s'" "\<forall>t. sclock (op_env b j) \<le> t \<longrightarrow> sview t s' = sview t (g s1)"
proof -
  let ?p = "MarshalBinary (stored hdr code bs)"
  note B = begun_Begin [OF free s1]
  obtain res s' where F: "Finish S (op_env b j) k (EncodeToString rnd) Persist ?p (lease_options cfg) (g s1) = (res, s')" by (meson surj_pair)
  note lost = finish_lost [OF fin _ disjI1 [OF refl] F]
  have view: "\<forall>t. sclock (op_env b j) \<le> t \<longrightarrow> sview t s' = sview t (g s1)" using lost(2) by blast
  have inv: "sinv s'" using Finish_inv [OF fin(1), of "op_env b j" k "EncodeToString rnd" Persist ?p "lease_options cfg"] F by simp
  have res: "res = (True, None)" by (rule lost(1) [OF order_refl])
  have code: "code \<noteq> 0" "defaultDecide code None = Persist" using cfg(2) by (simp_all add: replayable_def defaultDecide_def)
  have "\<not> abandoned (cw_rec (done_cw cfg hdr code bs))" "\<not> overflowed (cw_rec (done_cw cfg hdr code bs))"
    by (simp_all add: done_cw_def NewRecorder_def)
  with code F res cfg(1) done_captured [OF cfg] show thesis
    by (intro that [OF _ _ inv view, of "\<lparr>lg_level = ''WARN'', lg_msg = ''httpidem: lease lost during execution; response returned but not stored for replay'',
        lg_attrs = keyAttrs sha256 cfg (scope_of cfg (rebuffer r body)) key @ [(''event'', ''lease_lost'')]\<rparr>"])
      (simp_all add: http_do_def do_runs [OF acc k fp B run] settle_def final_decision_def suite_config_def store_do_def warn_def)
qed

text \<open>A request that meets a live record.\<close>

lemma do_answered:
  assumes cfg: "suite_config cfg" and acc: "accepted cfg r key body"
    and k: "k = scoped_key (scope_of cfg (rebuffer r body)) key" and fp: "fp = Fingerprint_of sha256 (Method r) (ReqURL r) body"
    and live: "sinv s" "up (op_env b i)" "sview (sclock (op_env b i)) s k = Some l" "now_after b i < rebuilt (op_env b i) (l_deadline l)"
  obtains s' where "ServeHTTP sha256 S cfg h (quiet_env b rnd i j) r background \<lparr>wd_w = recorder, wd_store = s, wd_log = log, wd_calls = []\<rparr> =
      answer sha256 cfg (rebuffer r body) (scope_of cfg (rebuffer r body)) key
        (decide l fp (time_Sub (rebuilt (op_env b i) (l_deadline l)) (now_after b i)))
        \<lparr>wd_w = recorder, wd_store = s', wd_log = log, wd_calls = []\<rparr>"
    "sinv s'" "\<forall>t. sclock (op_env b i) \<le> t \<longrightarrow> sview t s' = sview t s"
proof -
  let ?env = "quiet_env b rnd i j" and ?wd = "\<lambda>s. \<lparr>wd_w = recorder, wd_store = s, wd_log = log, wd_calls = []\<rparr>"
  let ?out = "decide l fp (time_Sub (rebuilt (op_env b i) (l_deadline l)) (now_after b i))"
  let ?ans = "\<lambda>s'. answer sha256 cfg (rebuffer r body) (scope_of cfg (rebuffer r body)) key ?out (?wd s')"
  define s' where "s' = wd_store (snd (ServeHTTP sha256 S cfg h ?env r background (?wd s)))"
  have "ServeHTTP sha256 S cfg h ?env r background (?wd s) = ?ans s' \<and> sinv s' \<and> sview t s' = sview t s" if "sclock (op_env b i) \<le> t" for t
  proof (rule serve_answered [where env = ?env and wd = "?wd s" and l = l and t = t and h = h and c = background and b = rnd, OF acc])
    fix s2 assume A: "ServeHTTP sha256 S cfg h ?env r background (?wd s) = answer sha256 cfg (rebuffer r body) (scope_of cfg (rebuffer r body)) key
        (decide l (Fingerprint_of sha256 (Method r) (ReqURL r) body)
          (time_Sub (rebuilt (at_store (ce_begin ?env 1)) (l_deadline l)) (at_check (ce_begin ?env 1)))) (?wd s\<lparr>wd_store := s2\<rparr>)"
      "sinv s2" "sview t s2 = sview t (at_between (ce_begin ?env 1) (wd_store (?wd s)))"
    then have E: "ServeHTTP sha256 S cfg h ?env r background (?wd s) = ?ans s2" using fp by simp
    have "s' = s2" unfolding s'_def E using answer_keeps(2) [of sha256 cfg "rebuffer r body" "scope_of cfg (rebuffer r body)" key ?out "?wd s2"]
      by (metis prod.collapse world.select_convs(2))
    with E A(2,3) show ?thesis by simp
  qed (use live that k in simp_all)
  then show thesis using that by blast
qed

lemma do_conflicts:
  assumes cfg: "suite_config cfg" and acc: "accepted cfg r key body"
    and k: "k = scoped_key (scope_of cfg (rebuffer r body)) key"
    and live: "sinv s" "up (op_env b i)" "sview (sclock (op_env b i)) s k = Some l" "now_after b i < rebuilt (op_env b i) (l_deadline l)"
    and l: "l_state l = StateReserved"
  obtains rr s' where "http_do sha256 S cfg h (quiet_env b rnd i j) r log s = ((False, rr, 0, log), s')" "conflict rr"
    "sinv s'" "\<forall>t. sclock (op_env b i) \<le> t \<longrightarrow> sview t s' = sview t s"
proof -
  obtain s' where s': "ServeHTTP sha256 S cfg h (quiet_env b rnd i j) r background \<lparr>wd_w = recorder, wd_store = s, wd_log = log, wd_calls = []\<rparr> =
      answer sha256 cfg (rebuffer r body) (scope_of cfg (rebuffer r body)) key
        (decide l (Fingerprint_of sha256 (Method r) (ReqURL r) body) (time_Sub (rebuilt (op_env b i) (l_deadline l)) (now_after b i)))
        \<lparr>wd_w = recorder, wd_store = s', wd_log = log, wd_calls = []\<rparr>" "sinv s'" "\<forall>t. sclock (op_env b i) \<le> t \<longrightarrow> sview t s' = sview t s"
    by (rule do_answered [OF cfg acc k refl live, of sha256 h rnd j log]) blast
  obtain rr where "conflict rr" "answer sha256 cfg (rebuffer r body) (scope_of cfg (rebuffer r body)) key
        (decide l (Fingerprint_of sha256 (Method r) (ReqURL r) body) (time_Sub (rebuilt (op_env b i) (l_deadline l)) (now_after b i)))
        \<lparr>wd_w = recorder, wd_store = s', wd_log = log, wd_calls = []\<rparr> = (False, \<lparr>wd_w = rr, wd_store = s', wd_log = log, wd_calls = []\<rparr>)"
    using answer_in_flight [OF cfg] l by (fastforce simp: decide_def)
  with s' that show thesis by (simp add: http_do_def)
qed

lemma do_mismatches:
  assumes cfg: "suite_config cfg" and acc: "accepted cfg r key body"
    and k: "k = scoped_key (scope_of cfg (rebuffer r body)) key"
    and live: "sinv s" "up (op_env b i)" "sview (sclock (op_env b i)) s k = Some l" "now_after b i < rebuilt (op_env b i) (l_deadline l)"
    and l: "l_state l = StateCompleted" "l_fp l \<noteq> Fingerprint_of sha256 (Method r) (ReqURL r) body"
  obtains rr s' where "http_do sha256 S cfg h (quiet_env b rnd i j) r log s = ((False, rr, 0, log), s')" "Code rr = 422"
    "sinv s'" "\<forall>t. sclock (op_env b i) \<le> t \<longrightarrow> sview t s' = sview t s"
proof -
  obtain s' where s': "ServeHTTP sha256 S cfg h (quiet_env b rnd i j) r background \<lparr>wd_w = recorder, wd_store = s, wd_log = log, wd_calls = []\<rparr> =
      answer sha256 cfg (rebuffer r body) (scope_of cfg (rebuffer r body)) key mismatch_outcome
        \<lparr>wd_w = recorder, wd_store = s', wd_log = log, wd_calls = []\<rparr>" "sinv s'" "\<forall>t. sclock (op_env b i) \<le> t \<longrightarrow> sview t s' = sview t s"
    by (rule do_answered [OF cfg acc k refl live, of sha256 h rnd j log]) (use l in \<open>auto simp: decide_def\<close>)
  obtain rr where "Code rr = 422" "answer sha256 cfg (rebuffer r body) (scope_of cfg (rebuffer r body)) key mismatch_outcome
        \<lparr>wd_w = recorder, wd_store = s', wd_log = log, wd_calls = []\<rparr> = (False, \<lparr>wd_w = rr, wd_store = s', wd_log = log, wd_calls = []\<rparr>)"
    using answer_mismatch [OF cfg, of sha256 "rebuffer r body" "scope_of cfg (rebuffer r body)" key s' log] by blast
  with s' that show thesis by (simp add: http_do_def)
qed

lemma do_replays:
  assumes cfg: "suite_config cfg" "replayable hdr code bs" and acc: "accepted cfg r key body"
    and k: "k = scoped_key (scope_of cfg (rebuffer r body)) key"
    and live: "sinv s" "up (op_env b i)" "sview (sclock (op_env b i)) s k = Some l" "now_after b i < rebuilt (op_env b i) (l_deadline l)"
    and l: "l_state l = StateCompleted" "l_fp l = Fingerprint_of sha256 (Method r) (ReqURL r) body" "l_payload l = MarshalBinary (stored hdr code bs)"
  obtains s' where "http_do sha256 S cfg h (quiet_env b rnd i j) r log s = ((False, replay_response hdr code bs, 0, log), s')"
    "sinv s'" "\<forall>t. sclock (op_env b i) \<le> t \<longrightarrow> sview t s' = sview t s"
proof -
  obtain s' where s': "ServeHTTP sha256 S cfg h (quiet_env b rnd i j) r background \<lparr>wd_w = recorder, wd_store = s, wd_log = log, wd_calls = []\<rparr> =
      answer sha256 cfg (rebuffer r body) (scope_of cfg (rebuffer r body)) key (replay_outcome (MarshalBinary (stored hdr code bs)))
        \<lparr>wd_w = recorder, wd_store = s', wd_log = log, wd_calls = []\<rparr>" "sinv s'" "\<forall>t. sclock (op_env b i) \<le> t \<longrightarrow> sview t s' = sview t s"
    by (rule do_answered [OF cfg(1) acc k refl live, of sha256 h rnd j log]) (use l in \<open>auto simp: decide_def\<close>)
  then show thesis
    using that [of s'] writeReplay_recorder [OF cfg, of sha256 "rebuffer r body" "scope_of cfg (rebuffer r body)" key s' log "[]"]
    by (simp add: http_do_def answer_def)
qed

end

end
