(* ===== verification/Http_Suite.thy ===== *)
theory Http_Suite
  imports Http_Bench
begin

section \<open>The conformance suite of the middleware\<close>

text \<open>
  \<^verbatim>\<open>RunHTTPTests\<close> of \<^verbatim>\<open>httpidem/httpidemtest/httpidemtest.go\<close>, subtest by subtest. A test runs on a bed: the
  store, the handler's counter and the log. Requests take three slots of the bench
  (\<open>Begin\<close>, \<open>Finish\<close>, a release). A request whose handler waits on a channel is \<open>op_blocked\<close>: what the test
  does until it closes the channel happens while the handler runs, and what it saw is kept
  beside the store.
\<close>

record 's bed =
  bd_store :: 's
  bd_count :: nat
  bd_log :: "logline list"

definition new_bed :: "'s \<Rightarrow> 's bed" where
  "new_bed s = \<lparr>bd_store = s, bd_count = 0, bd_log = []\<rparr>"

type_synonym 'e readings = "(unit, 'e) bench"

definition op_do :: "(bytes \<Rightarrow> bytes) \<Rightarrow> ('s, 'e) Store \<Rightarrow> 'e readings \<Rightarrow> (nat \<Rightarrow> bytes) \<Rightarrow> config \<Rightarrow> 's handler \<Rightarrow> Request \<Rightarrow>
    (rw \<Rightarrow> 's bed test) \<Rightarrow> 's bed test" where
  "op_do sha256 S b rnd cfg h req k i bd =
     (let ((p, rr, n, log), s') = http_do sha256 S cfg h (quiet_env b (rnd i) i (Suc i)) req (bd_log bd) (bd_store bd)
      in if p then [''panic''] else k rr (i + 3) \<lparr>bd_store = s', bd_count = bd_count bd + n, bd_log = log\<rparr>)"

definition op_blocked :: "(bytes \<Rightarrow> bytes) \<Rightarrow> ('s, 'e) Store \<Rightarrow> 'e readings \<Rightarrow> (nat \<Rightarrow> bytes) \<Rightarrow> config \<Rightarrow> ('s \<Rightarrow> 'r \<times> 's) \<Rightarrow>
    ('s \<times> 'r option) handler \<Rightarrow> Request \<Rightarrow> nat \<Rightarrow> (rw \<Rightarrow> 'r \<Rightarrow> 's bed test) \<Rightarrow> 's bed test" where
  "op_blocked sha256 S b rnd cfg mid h req j k i bd =
     (let waiting = (\<lambda>r c. Do (StoreOp (\<lambda>(s, _). let (x, s') = mid s in (None, (s', Some x)))) (\<lambda>_. h r c));
          ((p, rr, n, log), (s', seen)) = http_do sha256 (beside S) cfg waiting (quiet_env b (rnd i) i j) req (bd_log bd) (bd_store bd, None)
      in if p then [''panic'']
         else case seen of
             None \<Rightarrow> [''the handler was not entered'']
           | Some x \<Rightarrow> k rr x (j + 2) \<lparr>bd_store = s', bd_count = bd_count bd + n, bd_log = log\<rparr>)"

definition with_count :: "(nat \<Rightarrow> 's bed test) \<Rightarrow> 's bed test" where
  "with_count k i bd = k (bd_count bd) i bd"

definition with_log :: "(logline list \<Rightarrow> 's bed test) \<Rightarrow> 's bed test" where
  "with_log k i bd = k (bd_log bd) i bd"

definition add_count :: "nat \<Rightarrow> 's bed test \<Rightarrow> 's bed test" where
  "add_count n k i bd = k i (bd\<lparr>bd_count := bd_count bd + n\<rparr>)"

definition on_store :: "('s \<Rightarrow> 's) \<Rightarrow> 's bed test \<Rightarrow> 's bed test" where
  "on_store f k i bd = k i (bd\<lparr>bd_store := f (bd_store bd)\<rparr>)"

text \<open>Failures seen while a handler was blocked end the test.\<close>

definition report :: "string list \<Rightarrow> 's bed test \<Rightarrow> 's bed test" where
  "report fails k = (if fails = [] then k else (\<lambda>i bd. fails))"

definition Replayed :: "rw \<Rightarrow> string" where
  "Replayed rr = Header_Get (rw_header rr) HeaderIdempotencyReplayed"

definition json_id :: bytes where
  "json_id = [CHR 0x7B, CHR 0x22] @ ''id'' @ [CHR 0x22] @ '':1}''"

definition json_n :: "char \<Rightarrow> bytes" where
  "json_n c = [CHR 0x7B, CHR 0x22] @ ''n'' @ [CHR 0x22] @ '':'' @ [c] @ ''}''"

subsection \<open>Subtests without failures\<close>

definition ReplayScenario :: "(bytes \<Rightarrow> bytes) \<Rightarrow> ('s, 'e) Store \<Rightarrow> 'e readings \<Rightarrow> (nat \<Rightarrow> bytes) \<Rightarrow> 's bed test" where
  "ReplayScenario sha256 S b rnd =
     (let h = (\<lambda>r c. json_prog 201 json_id); post = do_request ''POST'' ''/orders'' ''k'' (json_n CHR ''1'') [] in
     op_do sha256 S b rnd (New []) h post (\<lambda>first.
     Fatalf_unless (Code first = 201 \<and> Replayed first = []) ''first request, want a fresh 201'' (
     op_do sha256 S b rnd (New []) h post (\<lambda>replay.
     Fatalf_unless (Code replay = 201 \<and> rw_body replay = json_id) ''replay, want the stored 201 body'' (
     Fatalf_unless (Replayed replay = ''true'') ''replay must carry Idempotency-Replayed: true'' (
     Fatalf_unless (Header_Get (rw_header replay) ''Content-Type'' = ''application/json'') ''allowlisted headers must be replayed'' (
     with_count (\<lambda>n. Fatalf_unless (n = 1) ''handler runs, want 1''
     test_end))))))))"

definition CompletedFingerprintMismatch422 :: "(bytes \<Rightarrow> bytes) \<Rightarrow> ('s, 'e) Store \<Rightarrow> 'e readings \<Rightarrow> (nat \<Rightarrow> bytes) \<Rightarrow> 's bed test" where
  "CompletedFingerprintMismatch422 sha256 S b rnd =
     (let h = (\<lambda>r c. status_prog 201) in
     op_do sha256 S b rnd (New []) h (do_request ''POST'' ''/orders'' ''k'' (json_n CHR ''1'') []) (\<lambda>rr.
     Fatalf_unless (Code rr = 201) ''first request, want 201'' (
     op_do sha256 S b rnd (New []) h (do_request ''POST'' ''/orders'' ''k'' (json_n CHR ''2'') []) (\<lambda>rr2.
     Fatalf_unless (Code rr2 = 422) ''same key with a different payload, want 422'' (
     with_count (\<lambda>n. Fatalf_unless (n = 1) ''handler runs, want 1''
     test_end))))))"

text \<open>What the test of a request in flight does while the first request's handler is blocked. A second execution would wait for
  the channel the test has not closed yet.\<close>

definition in_flight_requests :: "(bytes \<Rightarrow> bytes) \<Rightarrow> ('s, 'e) Store \<Rightarrow> 'e readings \<Rightarrow> (nat \<Rightarrow> bytes) \<Rightarrow> nat \<Rightarrow> 's \<Rightarrow> (string list \<times> nat) \<times> 's" where
  "in_flight_requests sha256 S b rnd i s =
     (let hangs = (\<lambda>r c. Panic);
          ((p, same, n, _), s1) = http_do sha256 S (New []) hangs (quiet_env b (rnd i) i (i + 1)) (do_request ''POST'' ''/x'' ''k'' ''body'' []) [] s
      in if p then (([''blocked''], n), s1)
         else if Code same \<noteq> 409 then (([''in-flight same fingerprint, want 409''], n), s1)
         else if (case ParseInt (Header_Get (rw_header same) ''Retry-After'') of None \<Rightarrow> True | Some ra \<Rightarrow> ra < 1)
         then (([''Retry-After, want an integer of at least 1''], n), s1)
         else
           let ((p', diff, n', _), s2) = http_do sha256 S (New []) hangs (quiet_env b (rnd (i + 3)) (i + 3) (i + 4))
                 (do_request ''POST'' ''/x'' ''k'' ''OTHER-BODY'' []) [] s1
           in ((if p' then [''blocked''] else if Code diff \<noteq> 409 then [''in-flight different fingerprint, want 409''] else [], n + n'), s2))"

definition InFlight409 :: "(bytes \<Rightarrow> bytes) \<Rightarrow> ('s, 'e) Store \<Rightarrow> 'e readings \<Rightarrow> (nat \<Rightarrow> bytes) \<Rightarrow> 's bed test" where
  "InFlight409 sha256 S b rnd =
     (let post = do_request ''POST'' ''/x'' ''k'' ''body'' [] in
     op_blocked sha256 S b rnd (New []) (in_flight_requests sha256 S b rnd 1) (\<lambda>r c. status_prog 201) post 7 (\<lambda>first (fails, n).
     report fails (add_count n (
     Fatalf_unless (Code first = 201) ''first request, want 201'' (
     op_do sha256 S b rnd (New []) (\<lambda>r c. status_prog 201) post (\<lambda>replay.
     Fatalf_unless (Replayed replay = ''true'') ''after completion the key must replay'' (
     with_count (\<lambda>n. Fatalf_unless (n = 1) ''handler runs, want 1''
     test_end))))))))"

definition tenant :: "string \<Rightarrow> Request \<Rightarrow> Request" where
  "tenant id' r = r\<lparr>ReqHeader := hdr_Set (ReqHeader r) ''X-Tenant'' id'\<rparr>"

definition KeyScopeIsolation :: "(bytes \<Rightarrow> bytes) \<Rightarrow> ('s, 'e) Store \<Rightarrow> 'e readings \<Rightarrow> (nat \<Rightarrow> bytes) \<Rightarrow> 's bed test" where
  "KeyScopeIsolation sha256 S b rnd =
     (let cfg = New [opt_KeyScope (\<lambda>r. Header_Get (ReqHeader r) ''X-Tenant'')]; h = (\<lambda>r c. status_prog 201);
          post = (\<lambda>id'. do_request ''POST'' ''/x'' ''k'' ''same-body'' [tenant id']) in
     op_do sha256 S b rnd cfg h (post ''A'') (\<lambda>rr.
     Fatalf_unless (Code rr = 201) ''tenant A first request, want 201'' (
     op_do sha256 S b rnd cfg h (post ''B'') (\<lambda>rr2.
     Fatalf_unless (Code rr2 = 201 \<and> Replayed rr2 = []) ''tenant B must execute independently'' (
     with_count (\<lambda>n. Fatalf_unless (n = 2) ''handler runs, want 2 (one per scope)'' (
     op_do sha256 S b rnd cfg h (post ''A'') (\<lambda>rr3.
     Fatalf_unless (Replayed rr3 = ''true'') ''within one scope the key must replay normally'' (
     with_count (\<lambda>n. Fatalf_unless (n = 2) ''handler runs, want still 2''
     test_end))))))))))"


subsection \<open>Subtests on a failing store\<close>

definition boom :: "string \<Rightarrow> gerror option" where
  "boom m = Some (Opaque m)"

definition FailClosed503 :: "(bytes \<Rightarrow> bytes) \<Rightarrow> ('s, 'e) Store \<Rightarrow> 'e readings \<Rightarrow> (nat \<Rightarrow> bytes) \<Rightarrow> 's flakyStore bed test" where
  "FailClosed503 sha256 S b rnd =
     on_store (setErrs (boom ''store down'') None None) (
     op_do sha256 (flaky_Store S) b rnd (New []) (\<lambda>r c. Done) (do_request ''POST'' ''/x'' ''k'' ''b'' []) (\<lambda>rr.
     with_count (\<lambda>n. Fatalf_unless (Code rr = 503 \<and> n = 0) ''want 503 and no execution''
     test_end)))"

definition FailOpenPassesThrough :: "(bytes \<Rightarrow> bytes) \<Rightarrow> ('s, 'e) Store \<Rightarrow> 'e readings \<Rightarrow> (nat \<Rightarrow> bytes) \<Rightarrow> 's flakyStore bed test" where
  "FailOpenPassesThrough sha256 S b rnd =
     (let cfg = New [opt_FailOpen True]; h = (\<lambda>r c. status_prog 201); post = do_request ''POST'' ''/x'' ''k'' ''b'' [] in
     on_store (setErrs (boom ''store down'') None None) (
     op_do sha256 (flaky_Store S) b rnd cfg h post (\<lambda>rr.
     with_count (\<lambda>n. Fatalf_unless (Code rr = 201 \<and> n = 1) ''want the handler to run without idempotency'' (
     on_store (setErrs None None None) (
     op_do sha256 (flaky_Store S) b rnd cfg h post (\<lambda>_.
     with_count (\<lambda>n. Fatalf_unless (n = 2) ''fail-open responses must not be stored''
     test_end))))))))"

definition ResponseReturnedAndReleased :: "(bytes \<Rightarrow> bytes) \<Rightarrow> ('s, 'e) Store \<Rightarrow> 'e readings \<Rightarrow> (nat \<Rightarrow> bytes) \<Rightarrow> 's flakyStore bed test" where
  "ResponseReturnedAndReleased sha256 S b rnd =
     (let h = (\<lambda>r c. body_prog 201 ''work-done''); post = do_request ''POST'' ''/x'' ''k'' ''b'' [] in
     on_store (setErrs None (boom ''boom'') None) (
     op_do sha256 (flaky_Store S) b rnd (New []) h post (\<lambda>rr.
     Fatalf_unless (Code rr = 201 \<and> rw_body rr = ''work-done'') ''the captured response must reach the client despite the Complete failure'' (
     on_store (setErrs None None None) (
     op_do sha256 (flaky_Store S) b rnd (New []) h post (\<lambda>_.
     with_count (\<lambda>n. Fatalf_unless (n = 2) ''the best-effort Release must make the key re-executable''
     test_end)))))))"

definition ReleaseAlsoFailsKeepsReservation :: "(bytes \<Rightarrow> bytes) \<Rightarrow> ('s, 'e) Store \<Rightarrow> 'e readings \<Rightarrow> (nat \<Rightarrow> bytes) \<Rightarrow> 's flakyStore bed test" where
  "ReleaseAlsoFailsKeepsReservation sha256 S b rnd =
     (let h = (\<lambda>r c. status_prog 201); post = do_request ''POST'' ''/x'' ''k'' ''b'' [] in
     on_store (setErrs None (boom ''boom'') (boom ''boom2'')) (
     op_do sha256 (flaky_Store S) b rnd (New []) h post (\<lambda>rr.
     Fatalf_unless (Code rr = 201) ''want 201'' (
     op_do sha256 (flaky_Store S) b rnd (New []) h post (\<lambda>rr2.
     Fatalf_unless (Code rr2 = 409) ''retry while still reserved, want 409 until lease expiry''
     test_end)))))"

definition StoreFailureOnRelease :: "(bytes \<Rightarrow> bytes) \<Rightarrow> ('s, 'e) Store \<Rightarrow> 'e readings \<Rightarrow> (nat \<Rightarrow> bytes) \<Rightarrow> 's flakyStore bed test" where
  "StoreFailureOnRelease sha256 S b rnd =
     (let h = (\<lambda>r c. status_prog 500); post = do_request ''POST'' ''/x'' ''k'' ''b'' [] in
     on_store (setErrs None None (boom ''boom'')) (
     op_do sha256 (flaky_Store S) b rnd (New []) h post (\<lambda>rr.
     Fatalf_unless (Code rr = 500) ''want the 500 of the handler'' (
     op_do sha256 (flaky_Store S) b rnd (New []) h post (\<lambda>rr2.
     Fatalf_unless (Code rr2 = 409) ''retry while still reserved, want 409 until lease expiry''
     test_end)))))"

subsection \<open>A lease that expires under its holder\<close>

definition suite_leaseTTL :: Duration where
  "suite_leaseTTL = 500 * Millisecond"

definition survivor_cfg :: config where
  "survivor_cfg = New [opt_LeaseTTL suite_leaseTTL]"

text \<open>Until the test lets A's handler go on, it sleeps past A's lease and sends B.\<close>

definition second_owner :: "(bytes \<Rightarrow> bytes) \<Rightarrow> ('s, 'e) Store \<Rightarrow> 'e readings \<Rightarrow> (nat \<Rightarrow> bytes) \<Rightarrow> Time \<Rightarrow> nat \<Rightarrow> 's \<Rightarrow>
    (string list \<times> nat \<times> logline list) \<times> 's" where
  "second_owner sha256 S b rnd t0 i s =
     (if \<not> time_Add t0 (suite_leaseTTL + 150 * Millisecond) \<le> now_before b i then (([''woke up early''], 0, []), s)
      else
        let ((p, rr, n, log), s') = http_do sha256 S survivor_cfg (\<lambda>r c. body_prog 201 ''result-of-B'') (quiet_env b (rnd i) i (i + 1))
              (do_request ''POST'' ''/x'' ''k'' ''body'' []) [] s
        in ((if p then [''panic'']
             else if \<not> (Code rr = 201 \<and> rw_body rr = ''result-of-B'') then [''B, want a fresh execution'']
             else if Replayed rr \<noteq> [] then [''B must be a fresh execution, not a replay''] else [], n, log), s'))"

definition op_now :: "'e readings \<Rightarrow> (Time \<Rightarrow> 's bed test) \<Rightarrow> 's bed test" where
  "op_now b k i bd = k (now_before b i) (Suc i) bd"

definition op_Get_store :: "('s, 'e) Store \<Rightarrow> 'e readings \<Rightarrow> string \<Rightarrow> (Record option \<Rightarrow> gerror option \<Rightarrow> 's bed test) \<Rightarrow> 's bed test" where
  "op_Get_store S b key k i bd =
     (let ((got, err), s') = Get S (op_env b i) key (bd_store bd) in k got err (Suc i) (bd\<lparr>bd_store := s'\<rparr>))"

definition http_LeaseExpirySurvivor :: "(bytes \<Rightarrow> bytes) \<Rightarrow> ('s, 'e) Store \<Rightarrow> 'e readings \<Rightarrow> (nat \<Rightarrow> bytes) \<Rightarrow> 's bed test" where
  "http_LeaseExpirySurvivor sha256 S b rnd =
     (let post = do_request ''POST'' ''/x'' ''k'' ''body'' [] in
     op_now b (\<lambda>t0.
     op_blocked sha256 S b rnd survivor_cfg (second_owner sha256 S b rnd t0 2) (\<lambda>r c. body_prog 201 ''result-of-A'') post 5 (\<lambda>outA (fails, n, log).
     report fails (add_count n (
     Fatalf_unless (Code outA = 201 \<and> rw_body outA = ''result-of-A'') ''A, want the completed work of A returned'' (
     with_log (\<lambda>logA. Fatalf_unless (list_ex (\<lambda>l. list_ex (\<lambda>(_, v). v = ''lease_lost'') (lg_attrs l)) (log @ logA)) ''expected a lease_lost warning in the logs'' (
     op_do sha256 S b rnd survivor_cfg (\<lambda>r c. body_prog 201 ''result-of-B'') post (\<lambda>replay.
     Fatalf_unless (Replayed replay = ''true'' \<and> rw_body replay = ''result-of-B'') ''replay, want only the result of B stored'' (
     op_Get_store S b ''k'' (\<lambda>rec err.
     Fatalf_unless (err = None \<and> rec \<noteq> None \<and> State (the rec) = StateCompleted) ''Get, want a completed record'' (
     (case UnmarshalBinary (Payload (the rec)) of
        Inl _ \<Rightarrow> Fatalf ''decoding stored payload''
      | Inr sr \<Rightarrow> Fatalf_unless (SRBody sr = ''result-of-B'') ''stored body, want the result of B only'' (
     with_count (\<lambda>n. Fatalf_unless (n = 2) ''handler runs, want 2''
     test_end)))))))))))))))"

subsection \<open>A hundred requests at once\<close>

text \<open>
  The calls of the goroutines: the first in the order claims the key; some of the others (\<open>m\<close>)
  reach the store before the first has finished, the rest after it.
\<close>

type_synonym results = "nat \<Rightarrow> rw option"

fun serve_all :: "(bytes \<Rightarrow> bytes) \<Rightarrow> ('s, 'e) Store \<Rightarrow> 'e readings \<Rightarrow> (nat \<Rightarrow> bytes) \<Rightarrow> nat list \<Rightarrow> nat \<Rightarrow> results \<Rightarrow> nat \<Rightarrow> 's \<Rightarrow>
    (results \<times> nat) \<times> 's" where
  "serve_all sha256 S b rnd [] i res n s = ((res, n), s)"
| "serve_all sha256 S b rnd (g # gs) i res n s =
     (let ((p, rr, n', _), s') = http_do sha256 S (New []) (\<lambda>r c. body_prog 201 ''winner'') (quiet_env b (rnd i) i (i + 1))
            (do_request ''POST'' ''/x'' ''same-key'' ''same-body'' []) [] s
      in serve_all sha256 S b rnd gs (i + 3) (res(g := if p then None else Some rr)) (n + n') s')"

definition op_serve_all :: "(bytes \<Rightarrow> bytes) \<Rightarrow> ('s, 'e) Store \<Rightarrow> 'e readings \<Rightarrow> (nat \<Rightarrow> bytes) \<Rightarrow> nat list \<Rightarrow> results \<Rightarrow>
    (results \<Rightarrow> 's bed test) \<Rightarrow> 's bed test" where
  "op_serve_all sha256 S b rnd gs res k i bd =
     (let ((res', n), s') = serve_all sha256 S b rnd gs i res 0 (bd_store bd)
      in k res' (i + 3 * length gs) (bd\<lparr>bd_store := s', bd_count := bd_count bd + n\<rparr>))"

fun tally :: "results \<Rightarrow> nat list \<Rightarrow> nat \<times> nat \<times> nat \<Rightarrow> string + nat \<times> nat \<times> nat" where
  "tally res [] c = Inr c"
| "tally res (i # is) (fresh, replayed, conflicts) = (case res i of
       None \<Rightarrow> Inl ''panic''
     | Some rr \<Rightarrow>
         if Code rr = 201 \<and> Replayed rr = ''true'' then tally res is (fresh, replayed + 1, conflicts)
         else if Code rr = 201 then tally res is (fresh + 1, replayed, conflicts)
         else if Code rr = 409 then tally res is (fresh, replayed, conflicts + 1)
         else Inl ''unexpected status'')"

definition check_results :: "results \<Rightarrow> 's bed test" where
  "check_results results =
     with_count (\<lambda>got. Fatalf_unless (got = 1) ''handler runs, want exactly 1 within the lease'' (
     (case tally results [0..<100] (0, 0, 0) of
        Inl msg \<Rightarrow> Fatalf msg
      | Inr (fresh, replayed, conflicts) \<Rightarrow> Fatalf_unless (fresh = 1) ''fresh executions, want exactly 1''
     test_end)))"

definition ConcurrentSingleExecution :: "nat list \<Rightarrow> nat \<Rightarrow> (bytes \<Rightarrow> bytes) \<Rightarrow> ('s, 'e) Store \<Rightarrow> 'e readings \<Rightarrow> (nat \<Rightarrow> bytes) \<Rightarrow> 's bed test" where
  "ConcurrentSingleExecution order m sha256 S b rnd =
     op_blocked sha256 S b rnd (New []) (serve_all sha256 S b rnd (take m (tl order)) 1 (\<lambda>_. None) 0) (\<lambda>r c. body_prog 201 ''winner'')
       (do_request ''POST'' ''/x'' ''same-key'' ''same-body'' []) (1 + 3 * m) (\<lambda>rr (res, n).
     add_count n (op_serve_all sha256 S b rnd (drop m (tl order)) (res(hd order := Some rr)) check_results))"

definition RunHTTPTests :: "(bytes \<Rightarrow> bytes) \<Rightarrow> ('s, 'e) Store \<Rightarrow> nat list \<Rightarrow> nat \<Rightarrow> (nat \<Rightarrow> bytes) \<Rightarrow> (nat \<Rightarrow> 'e readings) \<Rightarrow> (nat \<Rightarrow> 's) \<Rightarrow> string list" where
  "RunHTTPTests sha256 S order m rnd bs newStore =
     (let bed = (\<lambda>n. new_bed (newStore n)); flaky = (\<lambda>n. new_bed (new_flaky (newStore n))) in
     ReplayScenario sha256 S (bs 0) rnd 0 (bed 0) @
     CompletedFingerprintMismatch422 sha256 S (bs 1) rnd 0 (bed 1) @
     InFlight409 sha256 S (bs 2) rnd 0 (bed 2) @
     KeyScopeIsolation sha256 S (bs 3) rnd 0 (bed 3) @
     FailClosed503 sha256 S (bs 4) rnd 0 (flaky 4) @
     FailOpenPassesThrough sha256 S (bs 5) rnd 0 (flaky 5) @
     ResponseReturnedAndReleased sha256 S (bs 6) rnd 0 (flaky 6) @
     ReleaseAlsoFailsKeepsReservation sha256 S (bs 7) rnd 0 (flaky 7) @
     StoreFailureOnRelease sha256 S (bs 8) rnd 0 (flaky 8) @
     http_LeaseExpirySurvivor sha256 S (bs 9) rnd 0 (bed 9) @
     ConcurrentSingleExecution order m sha256 S (bs 10) rnd 0 (bed 10))"

end
