(* ===== verification/Http_Conformance.thy ===== *)
theory Http_Conformance
  imports Http_Suite
begin

section \<open>Every conforming store passes the suite of the middleware\<close>

text \<open>
  The locale \<open>http_bench\<close> states what the suite needs of its clocks: leases of the default length and stored
  records outlast the test. Its rules push the view of the store through one request after
  another; the subtests follow by them.
\<close>

locale http_bench = lease_client S sinv sview sclock up grant keep rebuilt
  for S :: "('s, 'e) Store" and sinv sview sclock up grant keep rebuilt +
  fixes b :: "'e readings"
  assumes works: "up (op_env b i)"
    and clock_mono: "i \<le> j \<Longrightarrow> sclock (op_env b i) \<le> sclock (op_env b j)"
    and lease_lives: "\<lbrakk>i < j; j \<le> 400; is_reservation r; LeaseExpiresAt r = now_before b i + DefaultLeaseTTL\<rbrakk> \<Longrightarrow>
        sclock (op_env b j) < grant (op_env b i) r \<and> now_after b j < rebuilt (op_env b j) (grant (op_env b i) r)"
    and record_lives: "\<lbrakk>i < j; j \<le> 400\<rbrakk> \<Longrightarrow>
        sclock (op_env b j) < keep (op_env b i) DefaultRecordTTL \<and> now_after b j < rebuilt (op_env b j) (keep (op_env b i) DefaultRecordTTL)"
begin

definition holds :: "nat \<Rightarrow> view \<Rightarrow> 's \<Rightarrow> bool" where
  "holds i v s \<longleftrightarrow> sinv s \<and> (\<forall>t. sclock (op_env b i) \<le> t \<longrightarrow> sview t s = live_at t v)"

text \<open>A lease that is in progress, and one whose response is stored, at the slots from \<open>m\<close> to \<open>e\<close>.\<close>

definition lives :: "nat \<Rightarrow> lease \<Rightarrow> bool" where
  "lives m l \<longleftrightarrow> (\<forall>j. m \<le> j \<longrightarrow> j \<le> 400 \<longrightarrow> sclock (op_env b j) < l_deadline l \<and> now_after b j < rebuilt (op_env b j) (l_deadline l))"

definition in_progress :: "nat \<Rightarrow> string \<Rightarrow> lease \<Rightarrow> bool" where
  "in_progress m tok l \<longleftrightarrow> l_state l = StateReserved \<and> l_token l = tok \<and> lives m l"

definition settled :: "nat \<Rightarrow> bytes \<Rightarrow> Header \<Rightarrow> int \<Rightarrow> bytes \<Rightarrow> lease \<Rightarrow> bool" where
  "settled m fp hdr code bs l \<longleftrightarrow> l_state l = StateCompleted \<and> l_fp l = fp \<and> l_payload l = MarshalBinary (stored hdr code bs) \<and> lives m l"

lemma holds_later: "holds i v s \<Longrightarrow> i \<le> j \<Longrightarrow> holds j v s"
  using clock_mono [of i j] by (auto simp: holds_def)

lemma holds_same: "holds i v s \<Longrightarrow> sinv s' \<Longrightarrow> \<forall>t. sclock (op_env b j) \<le> t \<longrightarrow> sview t s' = sview t s \<Longrightarrow> i \<le> j \<Longrightarrow> holds j v s'"
  using clock_mono [of i j] by (auto simp: holds_def)

lemma holds_live:
  assumes "holds i v s" "v k = Some l" "lives m l" "m \<le> i" "i \<le> 400"
  shows "sinv s" "sview (sclock (op_env b i)) s k = Some l" "now_after b i < rebuilt (op_env b i) (l_deadline l)"
  using assms by (auto simp: holds_def lives_def live_at_def)

lemma holds_free:
  assumes "holds i v s" "v k = None"
  shows "sinv s" "sview (sclock (op_env b i)) s k = None"
  using assms by (auto simp: holds_def live_at_def)

lemma live_upd: "sclock (op_env b i) \<le> t \<Longrightarrow> live_at t ((live_at (sclock (op_env b i)) v)(k := Some l)) = live_at t (v(k := Some l))"
  by (auto simp: live_at_def fun_eq_iff split: option.splits)

text \<open>The store after \<open>Begin\<close>.\<close>

lemma holds_begun:
  assumes h: "holds i v s" "v k = None" and opts: "leaseTTL opts = DefaultLeaseTTL"
    and s1: "s1 = snd (Begin S (Inr rnd) (ce_begin (quiet_env b rnd i j)) k fp opts s)"
  obtains l where "holds i (v(k := Some l)) s1" "in_progress (Suc i) (EncodeToString rnd) l" "l_fp l = fp"
proof -
  let ?rc = "reservation_of k fp (EncodeToString rnd) opts (now_before b i)"
  let ?l = "new_lease ?rc (grant (op_env b i) ?rc)"
  note beg = begun [OF holds_free(1) [OF h] works holds_free(2) [OF h] s1 refl]
  have view: "sview (sclock (op_env b i)) s = live_at (sclock (op_env b i)) v" using h by (simp add: holds_def)
  have "holds i (v(k := Some ?l)) s1" using beg unfolding view by (auto simp: holds_def live_upd)
  moreover have "in_progress (Suc i) (EncodeToString rnd) ?l"
    using lease_lives [of i _ ?rc] opts by (auto simp: in_progress_def lives_def Suc_le_eq)
  ultimately show thesis by (rule that) simp
qed

lemma holds_finished:
  assumes "holds i v s" "v k = Some l" "i \<le> j" "sinv s'"
    and "\<forall>t. sclock (op_env b j) \<le> t \<longrightarrow> sview t s' = live_at t ((sview (sclock (op_env b j)) s)(k := Some l'))"
  shows "holds j (v(k := Some l')) s'"
proof -
  have "sview (sclock (op_env b j)) s = live_at (sclock (op_env b j)) v" using assms(1) clock_mono [OF assms(3)] by (simp add: holds_def)
  with assms(4,5) show ?thesis by (auto simp: holds_def live_upd)
qed

lemma do_holds_persists:
  assumes cfg: "suite_config cfg" "replayable hdr code bs" "lease_options cfg = \<lparr>LeaseTTL = 0, RecordTTL = 0\<rparr>" and acc: "accepted cfg r key body"
    and k: "k = scoped_key (scope_of cfg (rebuffer r body)) key" and fp: "fp = Fingerprint_of sha256 (Method r) (ReqURL r) body"
    and h: "holds i v s" "v k = None" and run: "\<And>r c. responds cfg (h r c) hdr code bs g"
    and s1: "s1 = snd (Begin S (Inr rnd) (ce_begin (quiet_env b rnd i j)) k fp (lease_options cfg) s)"
    and g: "\<And>l. holds i (v(k := Some l)) s1 \<Longrightarrow> in_progress (Suc i) (EncodeToString rnd) l \<Longrightarrow> holds j (v(k := Some l)) (g s1)"
    and j: "i < j" "j \<le> 400"
  obtains s' l where "http_do sha256 S cfg h (quiet_env b rnd i j) r log s = ((False, response hdr code bs, 1, log), s')"
    "holds (Suc j) (v(k := Some l)) s'" "settled (Suc j) fp hdr code bs l"
proof -
  have opts: "leaseTTL (lease_options cfg) = DefaultLeaseTTL" "recordTTL (lease_options cfg) = DefaultRecordTTL"
    using cfg(3) by (simp_all add: leaseTTL_def recordTTL_def)
  obtain l where l: "holds i (v(k := Some l)) s1" "in_progress (Suc i) (EncodeToString rnd) l" "l_fp l = fp"
    by (rule holds_begun [OF h opts(1) s1])
  have hg: "holds j (v(k := Some l)) (g s1)" by (rule g [OF l(1,2)])
  note live = holds_live [OF hg, of k l "Suc i"]
  have held: "held_by (sview (sclock (op_env b j)) (g s1)) k (EncodeToString rnd) l"
    using live l(2) j by (simp add: held_by_def in_progress_def)
  let ?l' = "completed_lease l (MarshalBinary (stored hdr code bs)) (keep (op_env b j) DefaultRecordTTL)"
  obtain s' where s': "http_do sha256 S cfg h (quiet_env b rnd i j) r log s = ((False, response hdr code bs, 1, log), s')" "sinv s'"
    "\<forall>t. sclock (op_env b j) \<le> t \<longrightarrow> sview t s' = live_at t ((sview (sclock (op_env b j)) (g s1)) (k := Some ?l'))"
    by (rule do_persists [where log = log, OF cfg(1,2) acc k fp holds_free(1) [OF h] works holds_free(2) [OF h] run s1 _ works held, unfolded opts(2)])
      (use hg in \<open>auto simp: holds_def\<close>)
  have "holds j (v(k := Some ?l')) s'" using holds_finished [OF hg _ order_refl s'(2,3)] by simp
  moreover have "settled (Suc j) fp hdr code bs ?l'" using l(3) record_lives [of j] by (auto simp: settled_def lives_def Suc_le_eq)
  ultimately show thesis using that [OF s'(1)] holds_later by (metis le_add2 plus_1_eq_Suc)
qed

lemma do_holds_replays:
  assumes cfg: "suite_config cfg" "replayable hdr code bs" and acc: "accepted cfg r key body"
    and h: "holds i v s" "v (scoped_key (scope_of cfg (rebuffer r body)) key) = Some l" and i: "m \<le> i" "i \<le> 400"
    and l: "settled m (Fingerprint_of sha256 (Method r) (ReqURL r) body) hdr code bs l"
  obtains s' where "http_do sha256 S cfg h (quiet_env b rnd i j) r log s = ((False, replay_response hdr code bs, 0, log), s')" "holds i v s'"
proof -
  have li: "lives m l" using l by (simp add: settled_def)
  note live = holds_live [OF h li i]
  obtain s' where "http_do sha256 S cfg h (quiet_env b rnd i j) r log s = ((False, replay_response hdr code bs, 0, log), s')"
    "sinv s'" "\<forall>t. sclock (op_env b i) \<le> t \<longrightarrow> sview t s' = sview t s"
    by (rule do_replays [OF cfg acc refl live(1) works live(2,3), of sha256 h rnd j log]) (use l in \<open>auto simp: settled_def\<close>)
  then show thesis using that holds_same [OF h(1)] by blast
qed

lemma do_holds_mismatches:
  assumes cfg: "suite_config cfg" and acc: "accepted cfg r key body"
    and h: "holds i v s" "v (scoped_key (scope_of cfg (rebuffer r body)) key) = Some l" and i: "m \<le> i" "i \<le> 400"
    and l: "settled m fp hdr code bs l" "fp \<noteq> Fingerprint_of sha256 (Method r) (ReqURL r) body"
  obtains rr s' where "http_do sha256 S cfg h (quiet_env b rnd i j) r log s = ((False, rr, 0, log), s')" "Code rr = 422" "holds i v s'"
proof -
  have li: "lives m l" using l by (simp add: settled_def)
  note live = holds_live [OF h li i]
  obtain rr s' where "http_do sha256 S cfg h (quiet_env b rnd i j) r log s = ((False, rr, 0, log), s')" "Code rr = 422"
    "sinv s'" "\<forall>t. sclock (op_env b i) \<le> t \<longrightarrow> sview t s' = sview t s"
    by (rule do_mismatches [OF cfg acc refl live(1) works live(2,3), of sha256 h rnd j log]) (use l in \<open>auto simp: settled_def\<close>)
  then show thesis using that holds_same [OF h(1)] by blast
qed

lemma do_holds_conflicts:
  assumes cfg: "suite_config cfg" and acc: "accepted cfg r key body"
    and h: "holds i v s" "v (scoped_key (scope_of cfg (rebuffer r body)) key) = Some l" and i: "m \<le> i" "i \<le> 400"
    and l: "in_progress m tok l"
  obtains rr s' where "http_do sha256 S cfg h (quiet_env b rnd i j) r log s = ((False, rr, 0, log), s')" "conflict rr" "holds i v s'"
proof -
  have li: "lives m l" using l by (simp add: in_progress_def)
  note live = holds_live [OF h li i]
  obtain rr s' where "http_do sha256 S cfg h (quiet_env b rnd i j) r log s = ((False, rr, 0, log), s')" "conflict rr"
    "sinv s'" "\<forall>t. sclock (op_env b i) \<le> t \<longrightarrow> sview t s' = sview t s"
    by (rule do_conflicts [OF cfg acc refl live(1) works live(2,3), of sha256 h rnd j log]) (use l in \<open>auto simp: in_progress_def\<close>)
  then show thesis using that holds_same [OF h(1)] by blast
qed

subsection \<open>Rules\<close>

definition passes :: "nat \<Rightarrow> view \<Rightarrow> nat \<Rightarrow> 's bed test \<Rightarrow> bool" where
  "passes i v n test \<longleftrightarrow> (\<forall>bd. holds i v (bd_store bd) \<longrightarrow> bd_count bd = n \<longrightarrow> test i bd = [])"

lemma passes_end [simp]: "passes i v n test_end"
  by (simp add: passes_def test_end_def)

lemma passes_check [simp]: "ok \<Longrightarrow> passes i v n (Fatalf_unless ok msg k) = passes i v n k"
  by (simp add: Fatalf_unless_def)

lemma passes_count [simp]: "passes i v n (with_count k) = passes i v n (k n)"
  by (auto simp: passes_def with_count_def)

lemma passes_add_count: "passes i v (n + c) k \<Longrightarrow> passes i v n (add_count c k)"
  by (simp add: passes_def add_count_def)

lemma passes_execute:
  assumes cfg: "suite_config cfg" "replayable hdr code bs" "lease_options cfg = \<lparr>LeaseTTL = 0, RecordTTL = 0\<rparr>" and acc: "accepted cfg r key body"
    and v: "v (scoped_key (scope_of cfg (rebuffer r body)) key) = None" and run: "\<And>r c. responds cfg (h r c) hdr code bs id" and i: "i < 400"
    and k: "\<And>l. settled (i + 2) (Fingerprint_of sha256 (Method r) (ReqURL r) body) hdr code bs l \<Longrightarrow>
      passes (i + 3) (v(scoped_key (scope_of cfg (rebuffer r body)) key := Some l)) (Suc n) (k (response hdr code bs))"
  shows "passes i v n (op_do sha256 S b rnd cfg h r k)"
  unfolding passes_def
proof (intro allI impI)
  fix bd :: "'s bed" assume h: "holds i v (bd_store bd)" and n: "bd_count bd = n"
  obtain s' l where s': "http_do sha256 S cfg h (quiet_env b (rnd i) i (Suc i)) r (bd_log bd) (bd_store bd) =
      ((False, response hdr code bs, 1, bd_log bd), s')"
    "holds (Suc (Suc i)) (v(scoped_key (scope_of cfg (rebuffer r body)) key := Some l)) s'"
    "settled (Suc (Suc i)) (Fingerprint_of sha256 (Method r) (ReqURL r) body) hdr code bs l"
    by (rule do_holds_persists [where log = "bd_log bd" and j = "Suc i", OF cfg acc refl refl h v run refl])
      (use i holds_later [of i _ _ "Suc i"] in simp_all)
  have "holds (i + 3) (v(scoped_key (scope_of cfg (rebuffer r body)) key := Some l)) s'" by (rule holds_later [OF s'(2)]) simp
  with s' n k [of l] show "op_do sha256 S b rnd cfg h r k i bd = []" by (simp add: op_do_def passes_def)
qed

lemma passes_replay:
  assumes "suite_config cfg" "replayable hdr code bs" "accepted cfg r key body"
    and v: "v (scoped_key (scope_of cfg (rebuffer r body)) key) = Some l" and i: "m \<le> i" "i \<le> 400"
    and l: "settled m (Fingerprint_of sha256 (Method r) (ReqURL r) body) hdr code bs l"
    and k: "passes (i + 3) v n (k (replay_response hdr code bs))"
  shows "passes i v n (op_do sha256 S b rnd cfg h r k)"
  unfolding passes_def
proof (intro allI impI)
  fix bd :: "'s bed" assume h: "holds i v (bd_store bd)" and n: "bd_count bd = n"
  obtain s' where s': "http_do sha256 S cfg h (quiet_env b (rnd i) i (Suc i)) r (bd_log bd) (bd_store bd) =
      ((False, replay_response hdr code bs, 0, bd_log bd), s')" "holds i v s'"
    by (rule do_holds_replays [where log = "bd_log bd" and j = "Suc i", OF assms(1-3) h v i l])
  with n k holds_later [OF s'(2), of "i + 3"] show "op_do sha256 S b rnd cfg h r k i bd = []" by (simp add: op_do_def passes_def)
qed

lemma passes_mismatch:
  assumes "suite_config cfg" "accepted cfg r key body"
    and v: "v (scoped_key (scope_of cfg (rebuffer r body)) key) = Some l" and i: "m \<le> i" "i \<le> 400"
    and l: "settled m fp hdr code bs l" "fp \<noteq> Fingerprint_of sha256 (Method r) (ReqURL r) body"
    and k: "\<And>rr. Code rr = 422 \<Longrightarrow> passes (i + 3) v n (k rr)"
  shows "passes i v n (op_do sha256 S b rnd cfg h r k)"
  unfolding passes_def
proof (intro allI impI)
  fix bd :: "'s bed" assume h: "holds i v (bd_store bd)" and n: "bd_count bd = n"
  obtain rr s' where s': "http_do sha256 S cfg h (quiet_env b (rnd i) i (Suc i)) r (bd_log bd) (bd_store bd) = ((False, rr, 0, bd_log bd), s')"
    "Code rr = 422" "holds i v s'"
    by (rule do_holds_mismatches [where log = "bd_log bd" and j = "Suc i", OF assms(1,2) h v i l])
  with n k holds_later [OF s'(3), of "i + 3"] show "op_do sha256 S b rnd cfg h r k i bd = []" by (simp add: op_do_def passes_def)
qed

end

subsection \<open>The requests and responses of the suite\<close>

lemma suite_configs [simp]:
  "suite_config (New [])" "suite_config (New [opt_FailOpen v])" "suite_config (New [opt_KeyScope f])" "suite_config survivor_cfg"
  by (simp_all add: suite_config_def New_def default_config_def opt_FailOpen_def opt_KeyScope_def opt_LeaseTTL_def survivor_cfg_def)

lemma suite_options [simp]:
  "lease_options (New []) = \<lparr>LeaseTTL = 0, RecordTTL = 0\<rparr>" "lease_options (New [opt_FailOpen v]) = \<lparr>LeaseTTL = 0, RecordTTL = 0\<rparr>"
  "lease_options (New [opt_KeyScope f]) = \<lparr>LeaseTTL = 0, RecordTTL = 0\<rparr>"
  "lease_options survivor_cfg = \<lparr>LeaseTTL = suite_leaseTTL, RecordTTL = 0\<rparr>"
  by (simp_all add: lease_options_def New_def default_config_def opt_FailOpen_def opt_KeyScope_def opt_LeaseTTL_def survivor_cfg_def)

lemma suite_limits [simp]:
  "maxResponseBody (New []) = 1048576" "maxResponseBody survivor_cfg = 1048576"
  by (simp_all add: New_def default_config_def opt_LeaseTTL_def survivor_cfg_def DefaultMaxResponseBody_def)

lemma suite_snapshots:
  "snapshot [] [] (allow_names [] (storeHeaders default_config)) = []"
  "snapshot [(''Content-Type'', [''application/json''])] [] (allow_names [] (storeHeaders default_config)) = [(''Content-Type'', [''application/json''])]"
  by code_simp+

lemma suite_sizes:
  "int (length (MarshalBinary (stored [] 201 []))) \<le> 100" "int (length (MarshalBinary (stored [] 201 ''winner''))) \<le> 100"
  "int (length (MarshalBinary (stored [] 201 ''work-done''))) \<le> 100" "int (length (MarshalBinary (stored [] 201 ''result-of-A''))) \<le> 100"
  "int (length (MarshalBinary (stored [] 201 ''result-of-B''))) \<le> 100"
  "int (length (MarshalBinary (stored [(''Content-Type'', [''application/json''])] 201 json_id))) \<le> 100"
  by code_simp+

lemma suite_limit: "wrap64 (maxResponseBody default_config + maxStoredResponseOverhead) = 1114112"
  by code_simp

lemma replayableI:
  assumes "hdr = [] \<or> hdr = [(''Content-Type'', [''application/json''])]" "int (length (MarshalBinary (stored hdr 201 bs))) \<le> 100" "length bs < 100"
  shows "replayable hdr 201 bs"
  using assms suite_snapshots
  by (auto simp: replayable_def suite_limit storable_def stored_def in_int64_def wf_header_def ok_entry_def maxHeaderNames_def
      maxHeaderValues_def sorted_header_def hdr_index_def bodyAllowed_def)

lemma suite_responses:
  "replayable [] 201 []" "replayable [] 201 ''winner''" "replayable [] 201 ''work-done''" "replayable [] 201 ''result-of-A''"
  "replayable [] 201 ''result-of-B''" "replayable [(''Content-Type'', [''application/json''])] 201 json_id"
  using suite_sizes by (auto intro!: replayableI simp: json_id_def)


definition order_body :: "bytes \<Rightarrow> bool" where
  "order_body body \<longleftrightarrow> length body < 100"

lemma suite_accepted:
  assumes "methods cfg ''POST''" "keyValidator cfg = None" "maxRequestBody cfg = DefaultMaxRequestBody" "order_body body" "KeyFromHeader h = Inr key"
    and "Method r = ''POST''" "ReqHeader r = h" "ReqBody r = Some \<lparr>body_bytes = body, body_err = None\<rparr>"
  shows "accepted cfg r key body"
proof -
  have "ToUpper ''POST'' = ''POST''" by code_simp
  with assms show ?thesis
    by (simp add: accepted_def readBody_def ReadAll_limited_def DefaultMaxRequestBody_def order_body_def in_int64_def)
qed

lemma suite_methods [simp]:
  "methods (New []) ''POST''" "methods (New [opt_FailOpen v]) ''POST''" "methods (New [opt_KeyScope f]) ''POST''" "methods survivor_cfg ''POST''"
  "keyValidator (New []) = None" "keyValidator (New [opt_FailOpen v]) = None" "keyValidator (New [opt_KeyScope f]) = None" "keyValidator survivor_cfg = None"
  "maxRequestBody (New []) = DefaultMaxRequestBody" "maxRequestBody (New [opt_FailOpen v]) = DefaultMaxRequestBody"
  "maxRequestBody (New [opt_KeyScope f]) = DefaultMaxRequestBody" "maxRequestBody survivor_cfg = DefaultMaxRequestBody"
  "scope_of (New []) r = []" "scope_of (New [opt_FailOpen v]) r = []" "scope_of survivor_cfg r = []" "scope_of (New [opt_KeyScope f]) r = f r"
  by (simp_all add: New_def default_config_def opt_FailOpen_def opt_KeyScope_def opt_LeaseTTL_def survivor_cfg_def scope_of_def)

lemma suite_keys:
  "KeyFromHeader [(''Idempotency-Key'', [''k''])] = Inr ''k''" "KeyFromHeader [(''Idempotency-Key'', [''same-key''])] = Inr ''same-key''"
  "KeyFromHeader [(''Idempotency-Key'', [''k'']), (''X-Tenant'', [x])] = Inr ''k''"
proof -
  show "KeyFromHeader [(''Idempotency-Key'', [''k''])] = Inr ''k''" "KeyFromHeader [(''Idempotency-Key'', [''same-key''])] = Inr ''same-key''"
    by code_simp+
  then show "KeyFromHeader [(''Idempotency-Key'', [''k'']), (''X-Tenant'', [x])] = Inr ''k''"
    by (simp add: KeyFromHeader_def hdr_Values_def split: list.splits if_splits option.splits)
qed

lemma canonical_names:
  "CanonicalMIMEHeaderKey ''Idempotency-Key'' = ''Idempotency-Key''" "CanonicalMIMEHeaderKey ''Idempotency-Replayed'' = ''Idempotency-Replayed''"
  "CanonicalMIMEHeaderKey ''Content-Type'' = ''Content-Type''" "CanonicalMIMEHeaderKey ''X-Tenant'' = ''X-Tenant''"
  by code_simp+

lemma do_request_sel [simp]:
  "Method (do_request meth target key body []) = meth" "Method (do_request meth target key body [tenant x]) = meth"
  "ReqBody (do_request meth target key body []) = Some \<lparr>body_bytes = body, body_err = None\<rparr>"
  "ReqBody (do_request meth target key body [tenant x]) = Some \<lparr>body_bytes = body, body_err = None\<rparr>"
  "ReqURL (do_request meth target key body [tenant x]) = ReqURL (do_request meth target key body [])"
  "ReqURL (do_request meth target key body []) = ReqURL (NewRequest meth target [])"
  "key \<noteq> [] \<Longrightarrow> ReqHeader (do_request meth target key body []) = [(''Idempotency-Key'', [key])]"
  "key \<noteq> [] \<Longrightarrow> ReqHeader (do_request meth target key body [tenant x]) = [(''Idempotency-Key'', [key]), (''X-Tenant'', [x])]"
  by (simp_all add: do_request_def NewRequest_def tenant_def hdr_Set_def hdr_put_def HeaderIdempotencyKey_def canonical_names Let_def)

lemma order_bodies [simp]: "order_body (json_n c)" "order_body ''body''" "order_body ''OTHER-BODY''" "order_body ''b''" "order_body ''same-body''"
  by (simp_all add: order_body_def json_n_def)

lemma suite_requests [simp]:
  assumes "order_body body"
  shows "accepted (New []) (do_request ''POST'' target ''k'' body []) ''k'' body"
    "accepted (New []) (do_request ''POST'' target ''same-key'' body []) ''same-key'' body"
    "accepted (New [opt_FailOpen v]) (do_request ''POST'' target ''k'' body []) ''k'' body"
    "accepted survivor_cfg (do_request ''POST'' target ''k'' body []) ''k'' body"
    "accepted (New [opt_KeyScope f]) (do_request ''POST'' target ''k'' body [tenant x]) ''k'' body"
  using assms by (simp_all add: suite_accepted [OF _ _ _ _ suite_keys(1)] suite_accepted [OF _ _ _ _ suite_keys(2)] suite_accepted [OF _ _ _ _ suite_keys(3)])

lemma suite_headers [simp]:
  "Replayed (response [] code bs) = []" "Replayed (response [(''Content-Type'', v)] code bs) = []"
  "Replayed (replay_response [] code bs) = ''true''" "Replayed (replay_response [(''Content-Type'', v)] code bs) = ''true''"
  "Header_Get (rw_header (replay_response [(''Content-Type'', [x])] code bs)) ''Content-Type'' = x"
  "Code (replay_response hdr code bs) = code" "rw_body (replay_response hdr code bs) = bs" "rw_body (response hdr code bs) = bs"
  by (simp_all add: Replayed_def Header_Get_def response_def replay_response_def hdr_Values_def HeaderIdempotencyReplayed_def canonical_names
      hdr_Set_def hdr_put_def rw_set_def Code_def)

lemma suite_programs:
  "responds (New []) (json_prog 201 json_id) [(''Content-Type'', [''application/json''])] 201 json_id id"
  "responds cfg (status_prog 201) [] 201 [] id" "responds cfg (status_prog 500) [] 500 [] id"
  "responds (New []) (body_prog 201 ''work-done'') [] 201 ''work-done'' id" "responds (New []) (body_prog 201 ''winner'') [] 201 ''winner'' id"
  "responds survivor_cfg (body_prog 201 ''result-of-A'') [] 201 ''result-of-A'' id"
  "responds survivor_cfg (body_prog 201 ''result-of-B'') [] 201 ''result-of-B'' id"
  by (simp_all add: responds_json responds_body responds_status bodyAllowed_def json_id_def)

text \<open>SHA-256 tells the two bodies of the mismatch test apart.\<close>

definition tells_apart :: "(bytes \<Rightarrow> bytes) \<Rightarrow> bool" where
  "tells_apart sha256 \<longleftrightarrow> Fingerprint_of sha256 ''POST'' (ReqURL (NewRequest ''POST'' ''/orders'' [])) (json_n CHR ''1'') \<noteq>
     Fingerprint_of sha256 ''POST'' (ReqURL (NewRequest ''POST'' ''/orders'' [])) (json_n CHR ''2'')"

context http_bench
begin

lemma ReplayScenario_passes: "passes 0 Map.empty 0 (ReplayScenario sha256 S b rnd)"
  unfolding ReplayScenario_def Let_def
  by (rule passes_execute [OF _ suite_responses(6) _ suite_requests(1) _ suite_programs(1)];
      simp add: scoped_key_def; rule passes_replay [OF _ suite_responses(6) suite_requests(1)]; simp add: scoped_key_def)

lemma CompletedFingerprintMismatch422_passes:
  "tells_apart sha256 \<Longrightarrow> passes 0 Map.empty 0 (CompletedFingerprintMismatch422 sha256 S b rnd)"
  unfolding CompletedFingerprintMismatch422_def Let_def
  by (rule passes_execute [OF _ suite_responses(1) _ suite_requests(1) _ suite_programs(2)];
      simp add: scoped_key_def; rule passes_mismatch [OF _ suite_requests(1)]; simp add: scoped_key_def tells_apart_def)

lemma KeyScopeIsolation_passes: "passes 0 Map.empty 0 (KeyScopeIsolation sha256 S b rnd)"
  unfolding KeyScopeIsolation_def Let_def
  by (rule passes_execute [OF _ suite_responses(1) _ suite_requests(5) _ suite_programs(2)];
      simp add: scoped_key_def Header_Get_def hdr_Values_def canonical_names;
      rule passes_execute [OF _ suite_responses(1) _ suite_requests(5) _ suite_programs(2)];
      simp add: scoped_key_def;
      rule passes_replay [OF _ suite_responses(1) suite_requests(5)]; simp add: scoped_key_def)

end

subsection \<open>Requests on a failing store\<close>

lemma Begin_down:
  "reserveErr f = Some (Opaque m) \<Longrightarrow> at_between (env 1) = id \<Longrightarrow> Begin (flaky_Store S) (Inr rnd) env k fp opts f = (Inl (Opaque m), f)"
  by (simp add: Begin_def newToken_def begin_loop.simps begin_attempt_def flaky_fails)

lemma do_down:
  assumes "suite_config cfg" "accepted cfg r key body" "\<not> failOpen cfg" "reserveErr f = Some (Opaque m)"
  obtains rr where "http_do sha256 (flaky_Store S) cfg h (quiet_env b rnd i j) r log f = ((False, rr, 0, log), f)" "Code rr = 503"
proof -
  have "rw_header recorder = []" by (simp add: recorder_def new_rw_def)
  then have "recorder\<lparr>rw_header := []\<rparr> = recorder" by simp
  then obtain bs where "WriteError cfg (rebuffer r body) 503
      (Wrap (sentinel_text ErrStoreUnavailable @ '': '' @ Error (Opaque m)) [Sentinel ErrStoreUnavailable, Opaque m])
      \<lparr>wd_w = recorder, wd_store = f, wd_log = log, wd_calls = []\<rparr> =
    (False, \<lparr>wd_w = response (hdr_Set [] ''Content-Type'' ''application/problem+json'') 503 bs, wd_store = f, wd_log = log, wd_calls = []\<rparr>)"
    using WriteError_recorder [OF assms(1), of 503 "rebuffer r body" _ "[]" f log "[]"] by fastforce
  then show thesis
    using that assms(3,4) by (simp add: http_do_def ServeHTTP_accepted [OF assms(2)] serve_keyed_def store_do_def Begin_down Let_def)
qed

lemma do_open:
  assumes "accepted cfg r key body" "failOpen cfg" "reserveErr f = Some (Opaque m)"
  obtains log' where "http_do sha256 (flaky_Store S) cfg (\<lambda>r c. status_prog 201) (quiet_env b rnd i j) r log f = ((False, response [] 201 [], 1, log'), f)"
  using that assms(2,3)
  by (simp add: http_do_def ServeHTTP_accepted [OF assms(1)] serve_keyed_def store_do_def Begin_down Let_def next_ServeHTTP_def status_prog_def
      raw_step_def rw_WriteHeader_def recorder_def new_rw_def response_def warn_def)

context http_bench
begin

lemma flaky_bench:
  "http_bench (flaky_Store S) (\<lambda>f. sinv (fs_inner f) \<and> working f) (\<lambda>t f. sview t (fs_inner f)) sclock up grant keep rebuilt b"
  by (intro http_bench.intro lease_client.intro flaky_contract http_bench_axioms.intro works clock_mono lease_lives record_lives)

lemma flaky_begins:
  assumes f: "reserveErr f = None" and h: "holds i v (fs_inner f)" "v k = None" and opts: "leaseTTL opts = DefaultLeaseTTL"
  obtains s1 l where "Begin (flaky_Store S) (Inr rnd) (ce_begin (quiet_env b rnd i j)) k fp opts f =
      (Inr (proceed_outcome (EncodeToString rnd)), f\<lparr>fs_inner := s1\<rparr>)"
    "holds i (v(k := Some l)) s1" "in_progress (Suc i) (EncodeToString rnd) l"
proof -
  let ?rc = "reservation_of k fp (EncodeToString rnd) opts (now_before b i)"
  obtain res s1 where R: "Reserve S (op_env b i) ?rc (fs_inner f) = (res, s1)" by (meson surj_pair)
  have "res = (None, None)" using reserve_claims [OF holds_free(1) [OF h] works _ _ R order_refl] holds_free(2) [OF h] by simp
  with R have "Begin (flaky_Store S) (Inr rnd) (ce_begin (quiet_env b rnd i j)) k fp opts f =
      (Inr (proceed_outcome (EncodeToString rnd)), f\<lparr>fs_inner := s1\<rparr>)"
    "s1 = snd (Begin S (Inr rnd) (ce_begin (quiet_env b rnd i j)) k fp opts (fs_inner f))"
    by (simp_all add: Begin_def newToken_def begin_loop.simps begin_attempt_def flaky_works(1) [OF f])
  then show thesis using that holds_begun [OF h opts] by metis
qed

lemma flaky_conflicts:
  assumes cfg: "suite_config cfg" and acc: "accepted cfg r key body" and f: "reserveErr f = None"
    and h: "holds i v (fs_inner f)" "v (scoped_key (scope_of cfg (rebuffer r body)) key) = Some l" and i: "m \<le> i" "i \<le> 400"
    and l: "in_progress m tok l"
  obtains rr f' where "http_do sha256 (flaky_Store S) cfg h (quiet_env b rnd i j) r log f = ((False, rr, 0, log), f')" "conflict rr"
proof -
  let ?k = "scoped_key (scope_of cfg (rebuffer r body)) key" and ?fp = "Fingerprint_of sha256 (Method r) (ReqURL r) body"
  let ?rc = "reservation_of ?k ?fp (EncodeToString rnd) (lease_options cfg) (now_before b i)"
  have li: "lives m l" and res: "l_state l = StateReserved" using l by (simp_all add: in_progress_def)
  note live = holds_live [OF h li i]
  obtain res s1 where R: "Reserve S (op_env b i) ?rc (fs_inner f) = (res, s1)" by (meson surj_pair)
  obtain x err where x: "res = (Some x, Some err)" "errors_Is err ErrAlreadyExists" "reports x ?k l" "active_deadline x = rebuilt (op_env b i) (l_deadline l)"
    using reserve_refuses [OF live(1) works _ _ R order_refl] live(2) by auto
  have "on_existing x ?fp (now_after b i) 1 = Return (Inr (in_flight_outcome (time_Sub (rebuilt (op_env b i) (l_deadline l)) (now_after b i))))"
    using on_existing_live [OF x(3) _ x(4), of ?fp "now_after b i" 1] live(3) res by (simp add: known_state_def decide_def)
  then have B: "Begin (flaky_Store S) (Inr rnd) (ce_begin (quiet_env b rnd i j)) ?k ?fp (lease_options cfg) f =
      (Inr (in_flight_outcome (time_Sub (rebuilt (op_env b i) (l_deadline l)) (now_after b i))), f\<lparr>fs_inner := s1\<rparr>)"
    using R x(1,2) by (simp add: Begin_def newToken_def begin_loop.simps begin_attempt_def flaky_works(1) [OF f])
  have "serve_keyed sha256 (flaky_Store S) cfg h (quiet_env b rnd i j) key body (rebuffer r body) background
      \<lparr>wd_w = recorder, wd_store = f, wd_log = log, wd_calls = []\<rparr> =
    answer sha256 cfg (rebuffer r body) (scope_of cfg (rebuffer r body)) key (in_flight_outcome (time_Sub (rebuilt (op_env b i) (l_deadline l)) (now_after b i)))
      \<lparr>wd_w = recorder, wd_store = f\<lparr>fs_inner := s1\<rparr>, wd_log = log, wd_calls = []\<rparr>"
    using B by (subst serve_keyed_answers) simp_all
  moreover obtain rr where "conflict rr" "answer sha256 cfg (rebuffer r body) (scope_of cfg (rebuffer r body)) key
      (in_flight_outcome (time_Sub (rebuilt (op_env b i) (l_deadline l)) (now_after b i)))
      \<lparr>wd_w = recorder, wd_store = f\<lparr>fs_inner := s1\<rparr>, wd_log = log, wd_calls = []\<rparr> =
    (False, \<lparr>wd_w = rr, wd_store = f\<lparr>fs_inner := s1\<rparr>, wd_log = log, wd_calls = []\<rparr>)"
    using answer_in_flight [OF cfg, of sha256 "rebuffer r body" "scope_of cfg (rebuffer r body)" key
        "time_Sub (rebuilt (op_env b i) (l_deadline l)) (now_after b i)" "f\<lparr>fs_inner := s1\<rparr>" log] by blast
  ultimately show thesis by (intro that) (simp_all add: http_do_def ServeHTTP_accepted [OF acc])
qed

lemmas flaky_passes_def = http_bench.passes_def [OF flaky_bench] and flaky_holds_def = http_bench.holds_def [OF flaky_bench]

text \<open>Once the store works again, a request with a free key is executed.\<close>

lemma flaky_recovers:
  assumes cfg: "suite_config cfg" "replayable hdr code bs" "lease_options cfg = \<lparr>LeaseTTL = 0, RecordTTL = 0\<rparr>" and acc: "accepted cfg r key body"
    and h: "holds i v (fs_inner (bd_store bd))" "working (bd_store bd)" "v (scoped_key (scope_of cfg (rebuffer r body)) key) = None"
    and run: "\<And>r c. responds cfg (h r c) hdr code bs id" and i: "i < 400" and n: "Suc (bd_count bd) = n"
  shows "op_do sha256 (flaky_Store S) b rnd cfg h r (\<lambda>_. with_count (\<lambda>m. Fatalf_unless (m = n) msg test_end)) i bd = []"
proof -
  note fl = flaky_bench
  have "http_bench.passes (\<lambda>f. sinv (fs_inner f) \<and> working f) (\<lambda>t f. sview t (fs_inner f)) sclock b i v (bd_count bd)
      (op_do sha256 (flaky_Store S) b rnd cfg h r (\<lambda>_. with_count (\<lambda>m. Fatalf_unless (m = n) msg test_end)))"
    by (rule http_bench.passes_execute [where v = v and h = h and n = "bd_count bd", OF fl cfg acc h(3) run i])
      (use n in \<open>simp add: http_bench.passes_count [OF fl] http_bench.passes_check [OF fl] http_bench.passes_end [OF fl]\<close>)
  then show ?thesis using h by (simp add: flaky_passes_def flaky_holds_def holds_def)
qed

lemma flaky_runs:
  assumes acc: "accepted cfg r key body" and k: "k = scoped_key (scope_of cfg (rebuffer r body)) key" and f: "reserveErr f = None"
    and h: "holds i v (fs_inner f)" "v k = None" and opts: "leaseTTL (lease_options cfg) = DefaultLeaseTTL"
    and run: "\<And>r c. responds cfg (h r c) hdr code bs id"
  obtains s1 l where "holds i (v(k := Some l)) s1" "in_progress (Suc i) (EncodeToString rnd) l"
    "ServeHTTP sha256 (flaky_Store S) cfg h (quiet_env b rnd i j) r background \<lparr>wd_w = recorder, wd_store = f, wd_log = log, wd_calls = []\<rparr> =
    (False, settle (flaky_Store S) cfg (quiet_env b rnd i j) (keyAttrs sha256 cfg (scope_of cfg (rebuffer r body)) key) k (EncodeToString rnd)
      (lease_options cfg) (cw_rec (done_cw cfg hdr code bs)) None
      \<lparr>wd_w = response hdr code bs, wd_store = f\<lparr>fs_inner := s1\<rparr>, wd_log = log,
        wd_calls = [(rebuffer r body, lease_ctx k (EncodeToString rnd) (lease_options cfg) background)]\<rparr>)"
proof -
  obtain s1 l where B: "Begin (flaky_Store S) (Inr rnd) (ce_begin (quiet_env b rnd i j)) k (Fingerprint_of sha256 (Method r) (ReqURL r) body) (lease_options cfg) f =
      (Inr (proceed_outcome (EncodeToString rnd)), f\<lparr>fs_inner := s1\<rparr>)"
    and l: "holds i (v(k := Some l)) s1" "in_progress (Suc i) (EncodeToString rnd) l"
    by (rule flaky_begins [OF f h opts])
  show thesis by (rule that [OF l]) (use do_runs [OF acc k refl B run] in simp)
qed

lemma Finish_flaky:
  "completeErr f = Some (Opaque m) \<Longrightarrow> Finish (flaky_Store S) e k tok Persist p opts f = ((False, Some (Opaque m)), f)"
  "releaseErr f = Some (Opaque m) \<Longrightarrow> Finish (flaky_Store S) e k tok Discard p opts f = ((False, Some (Opaque m)), f)"
  "releaseErr f = None \<Longrightarrow> Finish (flaky_Store S) e k tok Discard p opts f =
    map_prod id (\<lambda>s. f\<lparr>fs_inner := s\<rparr>) (Finish S e k tok Discard p opts (fs_inner f))"
  by (auto simp: Finish_def flaky_fails flaky_works split: prod.splits option.splits)

lemma done_kept [simp]: "\<not> abandoned (cw_rec (done_cw cfg hdr code bs))" "\<not> overflowed (cw_rec (done_cw cfg hdr code bs))"
  by (simp_all add: done_cw_def NewRecorder_def)

text \<open>\<open>Complete\<close> fails and the release works: the key is free again.\<close>

lemma flaky_released:
  assumes cfg: "suite_config cfg" "replayable hdr code bs" "lease_options cfg = \<lparr>LeaseTTL = 0, RecordTTL = 0\<rparr>" and acc: "accepted cfg r key body"
    and k: "k = scoped_key (scope_of cfg (rebuffer r body)) key"
    and f: "reserveErr f = None" "completeErr f = Some (Opaque m)" "releaseErr f = None"
    and h: "holds i v (fs_inner f)" "v k = None" and run: "\<And>r c. responds cfg (h r c) hdr code bs id" and i: "i < 300"
  obtains s' log' where "http_do sha256 (flaky_Store S) cfg h (quiet_env b rnd i (Suc i)) r log f = ((False, response hdr code bs, 1, log'), f\<lparr>fs_inner := s'\<rparr>)"
    "holds (i + 3) v s'"
proof -
  have opts: "leaseTTL (lease_options cfg) = DefaultLeaseTTL" using cfg(3) by (simp add: leaseTTL_def)
  obtain s1 l where l: "holds i (v(k := Some l)) s1" "in_progress (Suc i) (EncodeToString rnd) l"
    and served: "ServeHTTP sha256 (flaky_Store S) cfg h (quiet_env b rnd i (Suc i)) r background \<lparr>wd_w = recorder, wd_store = f, wd_log = log, wd_calls = []\<rparr> =
      (False, settle (flaky_Store S) cfg (quiet_env b rnd i (Suc i)) (keyAttrs sha256 cfg (scope_of cfg (rebuffer r body)) key) k (EncodeToString rnd)
        (lease_options cfg) (cw_rec (done_cw cfg hdr code bs)) None
        \<lparr>wd_w = response hdr code bs, wd_store = f\<lparr>fs_inner := s1\<rparr>, wd_log = log,
          wd_calls = [(rebuffer r body, lease_ctx k (EncodeToString rnd) (lease_options cfg) background)]\<rparr>)"
    by (rule flaky_runs [OF acc k f(1) h opts run])
  let ?e = "op_env b (Suc (Suc i))"
  have hs: "holds (Suc (Suc i)) (v(k := Some l)) s1" by (rule holds_later [OF l(1)]) simp
  have held: "held_by (sview (sclock ?e) s1) k (EncodeToString rnd) l"
    using holds_live [OF hs _ _ _ _, of k l "Suc i"] l(2) i by (simp add: in_progress_def held_by_def)
  obtain res s' where F: "Finish S ?e k (EncodeToString rnd) Discard [] (lease_options cfg) s1 = (res, s')" by (meson surj_pair)
  have s1: "sinv s1" using hs by (simp add: holds_def)
  have fin: "res = (False, None)" "sinv s'" "\<And>t. sclock ?e \<le> t \<Longrightarrow> sview t s' = (sview t s1)(k := None)"
    using finish_discards [OF s1 works held order_refl F] finish_discards(3) [OF s1 works held _ F] by blast+
  have vk: "v(k := None) = v" using h(2) by auto
  have "holds (Suc (Suc i)) v s'" using fin(2,3) hs vk by (auto simp: holds_def) (metis fun_upd_triv fun_upd_upd live_at_upd_None)
  then have "holds (i + 3) v s'" by (rule holds_later) simp
  moreover have "code \<noteq> 0" "defaultDecide code None = Persist" using cfg(2) by (simp_all add: replayable_def defaultDecide_def)
  ultimately show thesis
    using that served F fin(1) f(2,3) cfg(1) done_captured [OF cfg(1,2)]
    by (simp add: http_do_def settle_def final_decision_def suite_config_def store_do_def warn_def Finish_flaky)
qed

text \<open>The key stays reserved when the store fails to finish in any way.\<close>

lemma flaky_stuck:
  assumes cfg: "suite_config cfg" "200 \<le> code" "lease_options cfg = \<lparr>LeaseTTL = 0, RecordTTL = 0\<rparr>" and acc: "accepted cfg r key body"
    and k: "k = scoped_key (scope_of cfg (rebuffer r body)) key"
    and f: "reserveErr f = None" "releaseErr f = Some (Opaque m')" "500 \<le> code \<or> completeErr f = Some (Opaque m)"
    and h: "holds i v (fs_inner f)" "v k = None" and run: "\<And>r c. responds cfg (h r c) hdr code bs id"
  obtains s' log' l where "http_do sha256 (flaky_Store S) cfg h (quiet_env b rnd i (Suc i)) r log f = ((False, response hdr code bs, 1, log'), f\<lparr>fs_inner := s'\<rparr>)"
    "holds (i + 3) (v(k := Some l)) s'" "in_progress (Suc i) (EncodeToString rnd) l"
proof -
  have opts: "leaseTTL (lease_options cfg) = DefaultLeaseTTL" using cfg(3) by (simp add: leaseTTL_def)
  obtain s1 l where l: "holds i (v(k := Some l)) s1" "in_progress (Suc i) (EncodeToString rnd) l"
    and served: "ServeHTTP sha256 (flaky_Store S) cfg h (quiet_env b rnd i (Suc i)) r background \<lparr>wd_w = recorder, wd_store = f, wd_log = log, wd_calls = []\<rparr> =
      (False, settle (flaky_Store S) cfg (quiet_env b rnd i (Suc i)) (keyAttrs sha256 cfg (scope_of cfg (rebuffer r body)) key) k (EncodeToString rnd)
        (lease_options cfg) (cw_rec (done_cw cfg hdr code bs)) None
        \<lparr>wd_w = response hdr code bs, wd_store = f\<lparr>fs_inner := s1\<rparr>, wd_log = log,
          wd_calls = [(rebuffer r body, lease_ctx k (EncodeToString rnd) (lease_options cfg) background)]\<rparr>)"
    by (rule flaky_runs [OF acc k f(1) h opts run])
  have "holds (i + 3) (v(k := Some l)) s1" by (rule holds_later [OF l(1)]) simp
  moreover have "code \<noteq> 0" using cfg(2) by simp
  moreover have "defaultDecide code None = Discard \<or> defaultDecide code None = Persist \<and> completeErr f = Some (Opaque m)"
    using f(3) by (auto simp: defaultDecide_def)
  ultimately show thesis
    using that [of _ s1 l] served l(2) f(2) cfg(1)
    by (auto simp: http_do_def settle_def final_decision_def suite_config_def store_do_def warn_def Finish_flaky)
qed

lemma FailClosed503_passes: "FailClosed503 sha256 S b rnd 0 (new_bed (new_flaky s)) = []"
proof -
  let ?f = "setErrs (boom ''store down'') None None (new_flaky s)"
  have closed: "\<not> failOpen (New [])" and down: "reserveErr ?f = Some (Opaque ''store down'')" by (simp_all add: New_def default_config_def boom_def)
  obtain rr where "http_do sha256 (flaky_Store S) (New []) (\<lambda>r c. Done) (quiet_env b (rnd 0) 0 (Suc 0)) (do_request ''POST'' ''/x'' ''k'' ''b'' []) [] ?f =
      ((False, rr, 0, []), ?f)" "Code rr = 503"
    by (rule do_down [OF suite_configs(1) suite_requests(1) [OF order_bodies(4)] closed down])
  then show ?thesis by (simp add: FailClosed503_def on_store_def op_do_def new_bed_def with_count_def Fatalf_unless_def test_end_def)
qed

lemma FailOpenPassesThrough_passes:
  assumes "holds 0 Map.empty s"
  shows "FailOpenPassesThrough sha256 S b rnd 0 (new_bed (new_flaky s)) = []"
proof -
  let ?f = "setErrs (boom ''store down'') None None (new_flaky s)" and ?post = "do_request ''POST'' ''/x'' ''k'' ''b'' []"
  have opened: "failOpen (New [opt_FailOpen True])" and down: "reserveErr ?f = Some (Opaque ''store down'')" by (simp_all add: New_def opt_FailOpen_def boom_def)
  obtain log' where first: "http_do sha256 (flaky_Store S) (New [opt_FailOpen True]) (\<lambda>r c. status_prog 201) (quiet_env b (rnd 0) 0 (Suc 0)) ?post [] ?f =
      ((False, response [] 201 [], 1, log'), ?f)"
    by (rule do_open [OF suite_requests(3) [OF order_bodies(4)] opened down])
  let ?bd = "\<lparr>bd_store = setErrs None None None (new_flaky s), bd_count = 1, bd_log = log'\<rparr>"
  have "op_do sha256 (flaky_Store S) b rnd (New [opt_FailOpen True]) (\<lambda>r c. status_prog 201) ?post
      (\<lambda>_. with_count (\<lambda>n. Fatalf_unless (n = 2) ''fail-open responses must not be stored'' test_end)) 3 ?bd = []"
    by (rule flaky_recovers [where v = Map.empty, OF suite_configs(2) suite_responses(1) suite_options(2) suite_requests(3) _ _ _ suite_programs(2)])
      (use holds_later [OF assms, of 3] in \<open>simp_all add: working_def\<close>)
  with first show ?thesis
    by (simp add: FailOpenPassesThrough_def Let_def on_store_def op_do_def [of _ _ _ _ _ _ _ _ 0] new_bed_def with_count_def [of _ 3] Fatalf_unless_def [of "_ \<and> _"])
qed

lemma ResponseReturnedAndReleased_passes:
  assumes "holds 0 Map.empty s"
  shows "ResponseReturnedAndReleased sha256 S b rnd 0 (new_bed (new_flaky s)) = []"
proof -
  let ?f = "setErrs None (boom ''boom'') None (new_flaky s)" and ?post = "do_request ''POST'' ''/x'' ''k'' ''b'' []"
  have f: "reserveErr ?f = None" "completeErr ?f = Some (Opaque ''boom'')" "releaseErr ?f = None" "holds 0 Map.empty (fs_inner ?f)"
    "Map.empty (scoped_key (scope_of (New []) (rebuffer ?post ''b'')) ''k'') = None" "(0::nat) < 300"
    using assms by (simp_all add: boom_def)
  obtain s' log' where first: "http_do sha256 (flaky_Store S) (New []) (\<lambda>r c. body_prog 201 ''work-done'') (quiet_env b (rnd 0) 0 (Suc 0)) ?post [] ?f =
      ((False, response [] 201 ''work-done'', 1, log'), ?f\<lparr>fs_inner := s'\<rparr>)" "holds (0 + 3) Map.empty s'"
    by (rule flaky_released [where log = "[]" and v = Map.empty, OF suite_configs(1) suite_responses(3) suite_options(1)
          suite_requests(1) [OF order_bodies(4)] refl f(1-5) suite_programs(4) f(6)])
  let ?bd = "\<lparr>bd_store = setErrs None None None (?f\<lparr>fs_inner := s'\<rparr>), bd_count = 1, bd_log = log'\<rparr>"
  have "op_do sha256 (flaky_Store S) b rnd (New []) (\<lambda>r c. body_prog 201 ''work-done'') ?post
      (\<lambda>_. with_count (\<lambda>n. Fatalf_unless (n = 2) ''the best-effort Release must make the key re-executable'' test_end)) 3 ?bd = []"
    by (rule flaky_recovers [where v = Map.empty, OF suite_configs(1) suite_responses(3) suite_options(1) suite_requests(1) _ _ _ suite_programs(4)])
      (use first(2) in \<open>simp_all add: working_def\<close>)
  with first(1) show ?thesis
    by (simp add: ResponseReturnedAndReleased_def Let_def on_store_def op_do_def [of _ _ _ _ _ _ _ _ 0] new_bed_def Fatalf_unless_def [of "_ \<and> _"])
qed

text \<open>The two subtests after which the key stays reserved.\<close>

lemma stuck_passes:
  assumes "holds 0 Map.empty s" "f = setErrs None cerr (boom m') (new_flaky s)" "500 \<le> code \<or> cerr = boom m" "200 \<le> code" "code \<le> 999"
  shows "op_do sha256 (flaky_Store S) b rnd (New []) (\<lambda>r c. status_prog code) (do_request ''POST'' ''/x'' ''k'' ''b'' []) (\<lambda>rr.
     Fatalf_unless (Code rr = code) msg (
     op_do sha256 (flaky_Store S) b rnd (New []) (\<lambda>r c. status_prog code) (do_request ''POST'' ''/x'' ''k'' ''b'' []) (\<lambda>rr2.
     Fatalf_unless (Code rr2 = 409) msg2 test_end))) 0 \<lparr>bd_store = f, bd_count = 0, bd_log = []\<rparr> = []"
proof -
  let ?post = "do_request ''POST'' ''/x'' ''k'' ''b'' []"
  have f: "reserveErr f = None" "releaseErr f = Some (Opaque m')" "500 \<le> code \<or> completeErr f = Some (Opaque m)" "holds 0 Map.empty (fs_inner f)"
    "Map.empty ''k'' = None" "''k'' = scoped_key (scope_of (New []) (rebuffer ?post ''b'')) ''k''"
    using assms(1-3) by (auto simp: boom_def scoped_key_def)
  obtain s' log' l where first: "http_do sha256 (flaky_Store S) (New []) (\<lambda>r c. status_prog code) (quiet_env b (rnd 0) 0 (Suc 0)) ?post [] f =
      ((False, response [] code [], 1, log'), f\<lparr>fs_inner := s'\<rparr>)" "holds (0 + 3) (Map.empty(''k'' := Some l)) s'"
      "in_progress (Suc 0) (EncodeToString (rnd 0)) l"
    by (rule flaky_stuck [where log = "[]" and v = Map.empty, OF suite_configs(1) assms(4) suite_options(1)
          suite_requests(1) [OF order_bodies(4)] f(6,1-5) responds_status [OF assms(4,5)]])
  have g: "reserveErr (f\<lparr>fs_inner := s'\<rparr>) = None" "holds 3 (Map.empty(''k'' := Some l)) (fs_inner (f\<lparr>fs_inner := s'\<rparr>))"
    "(Map.empty(''k'' := Some l)) (scoped_key (scope_of (New []) (rebuffer ?post ''b'')) ''k'') = Some l" "Suc 0 \<le> 3" "(3::nat) \<le> 400"
    using first(2) f(1) by (simp_all add: scoped_key_def)
  obtain rr f' where "http_do sha256 (flaky_Store S) (New []) (\<lambda>r c. status_prog code) (quiet_env b (rnd 3) 3 (Suc 3)) ?post log' (f\<lparr>fs_inner := s'\<rparr>) =
      ((False, rr, 0, log'), f')" "conflict rr"
    by (rule flaky_conflicts [OF suite_configs(1) suite_requests(1) [OF order_bodies(4)] g first(3)])
  with first(1) show ?thesis by (simp add: op_do_def Fatalf_unless_def conflict_def test_end_def)
qed

lemma ReleaseAlsoFailsKeepsReservation_passes:
  "holds 0 Map.empty s \<Longrightarrow> ReleaseAlsoFailsKeepsReservation sha256 S b rnd 0 (new_bed (new_flaky s)) = []"
  unfolding ReleaseAlsoFailsKeepsReservation_def Let_def on_store_def new_bed_def by (simp, rule stuck_passes) simp_all

lemma StoreFailureOnRelease_passes:
  "holds 0 Map.empty s \<Longrightarrow> StoreFailureOnRelease sha256 S b rnd 0 (new_bed (new_flaky s)) = []"
  unfolding StoreFailureOnRelease_def Let_def on_store_def new_bed_def by (simp, rule stuck_passes) simp_all

end

end
