(* ===== verification/Http_Concurrency.thy ===== *)
theory Http_Concurrency
  imports Http_Conformance
begin

section \<open>The subtests with several requests at once\<close>

text \<open>
  A request whose handler waits while the test sends others: the rules for \<open>op_blocked\<close>, and the three
  subtests that use it.
\<close>

lemma Finish_beside: "snd (snd (Finish (beside S) e k tok d p opts u)) = snd u"
  by (auto simp: Finish_def beside_def Let_def split: prod.splits option.splits)

lemma settle_beside: "snd (wd_store (settle (beside S) cfg (quiet_env b rnd i j) attrs k tok opts rec herr wd)) = snd (wd_store wd)"
proof -
  obtain d wd1 where D: "final_decision cfg attrs rec herr wd = (d, wd1)" by force
  have 1: "wd_store wd1 = wd_store wd" using D by (auto simp: final_decision_def warn_def Let_def split: if_splits)
  have fin: "snd (wd_store (snd (store_do (Finish (beside S) e k tok d' p opts) w))) = snd (wd_store w)" for e d' p w
    using Finish_beside [of S e k tok d' p opts "wd_store w"] by (simp add: store_do_def split_beta)
  have warned: "snd (wd_store (warn m a w)) = snd (wd_store w)" for m a w by (simp add: warn_def)
  show ?thesis
    unfolding settle_def D Let_def case_prod_beta quiet_env_sel fst_conv snd_conv
    by (simp add: fin warned 1 split: option.splits)
qed

lemma beside_seen:
  assumes "accepted cfg r key body" "k = scoped_key (scope_of cfg (rebuffer r body)) key" "fp = Fingerprint_of sha256 (Method r) (ReqURL r) body"
    and "Begin (beside S) (Inr rnd) (ce_begin (quiet_env b rnd i j)) k fp (lease_options cfg) u = (Inr (proceed_outcome (EncodeToString rnd)), u1)"
    and "\<And>r c. responds cfg (h r c) hdr code bs g"
    and "http_do sha256 (beside S) cfg h (quiet_env b rnd i j) r log u = (out, u')"
  shows "snd u' = snd (g u1)"
  using do_runs [where log = log, OF assms(1-5)] assms(6) by (auto simp: http_do_def settle_beside)

context http_bench
begin

lemma beside_bench:
  "http_bench (beside S) (\<lambda>u. sinv (fst u)) (\<lambda>t u. sview t (fst u)) sclock up grant keep rebuilt b"
  by (intro http_bench.intro lease_client.intro beside_contract http_bench_axioms.intro works clock_mono lease_lives record_lives)

lemma beside_holds: "http_bench.holds (\<lambda>u. sinv (fst u)) (\<lambda>t u. sview t (fst u)) sclock b i v u \<longleftrightarrow> holds i v (fst u)"
  by (simp add: http_bench.holds_def [OF beside_bench] holds_def)

text \<open>The handler that waits, and what it leaves behind.\<close>

definition waiting :: "('s \<Rightarrow> 'r \<times> 's) \<Rightarrow> ('s \<times> 'r option) handler \<Rightarrow> ('s \<times> 'r option) handler" where
  "waiting mid h = (\<lambda>r c. Do (StoreOp (\<lambda>(s, _). let (x, s') = mid s in (None, (s', Some x)))) (\<lambda>_. h r c))"

definition waited :: "('s \<Rightarrow> 'r \<times> 's) \<Rightarrow> 's \<times> 'r option \<Rightarrow> 's \<times> 'r option" where
  "waited mid u = (snd (mid (fst u)), Some (fst (mid (fst u))))"

lemma responds_waiting: "(\<And>r c. responds cfg (h r c) hdr code bs id) \<Longrightarrow> responds cfg (waiting mid h r c) hdr code bs (waited mid)"
proof -
  assume h: "\<And>r c. responds cfg (h r c) hdr code bs id"
  have "(\<lambda>(s, _). let (x, s') = mid s in (None :: gerror option, (s', Some x))) = (\<lambda>u. (None, waited mid u))"
    by (auto simp: fun_eq_iff waited_def Let_def split_beta)
  with responds_after [OF h, of "\<lambda>u. (None, waited mid u)" r c] show ?thesis by (simp add: waiting_def)
qed

lemma op_blocked_waiting:
  "op_blocked sha256 S b rnd cfg mid h req j k i bd =
     (let ((p, rr, n, log), (s', seen)) = http_do sha256 (beside S) cfg (waiting mid h) (quiet_env b (rnd i) i j) req (bd_log bd) (bd_store bd, None)
      in if p then [''panic'']
         else case seen of
             None \<Rightarrow> [''the handler was not entered'']
           | Some x \<Rightarrow> k rr x (j + 2) \<lparr>bd_store = s', bd_count = bd_count bd + n, bd_log = log\<rparr>)"
  by (simp add: op_blocked_def waiting_def)

lemma passes_blocked:
  fixes mid :: "'s \<Rightarrow> 'r \<times> 's"
  assumes cfg: "suite_config cfg" "replayable hdr code bs" "lease_options cfg = \<lparr>LeaseTTL = 0, RecordTTL = 0\<rparr>" and acc: "accepted cfg r key body"
    and k: "k = scoped_key (scope_of cfg (rebuffer r body)) key" and v: "v k = None" and run: "\<And>r c. responds cfg (h r c) hdr code bs id"
    and mid: "\<And>s l. holds i (v(k := Some l)) s \<Longrightarrow> in_progress (Suc i) (EncodeToString (rnd i)) l \<Longrightarrow>
      holds j (v(k := Some l)) (snd (mid s)) \<and> Q (fst (mid s))"
    and j: "i < j" "j \<le> 400"
    and rest: "\<And>l x. settled (Suc j) (Fingerprint_of sha256 (Method r) (ReqURL r) body) hdr code bs l \<Longrightarrow> Q x \<Longrightarrow>
      passes (j + 2) (v(k := Some l)) (Suc n) (kt (response hdr code bs) x)"
  shows "passes i v n (op_blocked sha256 S b rnd cfg mid h r j kt)"
  unfolding passes_def
proof (intro allI impI)
  fix bd :: "'s bed" assume h: "holds i v (bd_store bd)" and n: "bd_count bd = n"
  let ?env = "quiet_env b (rnd i) i j" and ?u = "(bd_store bd, None :: 'r option)" and ?fp = "Fingerprint_of sha256 (Method r) (ReqURL r) body"
  define u1 where "u1 = snd (Begin (beside S) (Inr (rnd i)) (ce_begin ?env) k ?fp (lease_options cfg) ?u)"
  note bb = beside_bench
  have runs: "\<And>r c. responds cfg (waiting mid h r c) hdr code bs (waited mid)" by (rule responds_waiting) (rule run)
  have hb: "http_bench.holds (\<lambda>u. sinv (fst u)) (\<lambda>t u. sview t (fst u)) sclock b i v ?u" using h by (simp add: beside_holds)
  have opts: "leaseTTL (lease_options cfg) = DefaultLeaseTTL" using cfg(3) by (simp add: leaseTTL_def)
  obtain l1 where l1: "holds i (v(k := Some l1)) (fst u1)" "in_progress (Suc i) (EncodeToString (rnd i)) l1"
    using http_bench.holds_begun [OF bb hb v opts u1_def] unfolding beside_holds by blast
  have B: "Begin (beside S) (Inr (rnd i)) (ce_begin ?env) k ?fp (lease_options cfg) ?u = (Inr (proceed_outcome (EncodeToString (rnd i))), u1)"
    by (rule lease_client.begun_Begin [OF http_bench.axioms(1) [OF bb] _ _ _ u1_def])
      (use h v holds_free [OF h v] works in simp_all)
  obtain u' l where fin: "http_do sha256 (beside S) cfg (waiting mid h) ?env r (bd_log bd) ?u = ((False, response hdr code bs, 1, bd_log bd), u')"
    "holds (Suc j) (v(k := Some l)) (fst u')" "settled (Suc j) ?fp hdr code bs l"
    by (rule http_bench.do_holds_persists [where log = "bd_log bd", OF bb cfg acc k refl hb v runs u1_def _ j, unfolded beside_holds])
      (use mid in \<open>simp add: waited_def\<close>)
  have "snd u' = Some (fst (mid (fst u1)))" using beside_seen [OF acc k refl B runs fin(1)] by (simp add: waited_def)
  moreover have "Q (fst (mid (fst u1)))" using mid [OF l1] by simp
  moreover have "holds (j + 2) (v(k := Some l)) (fst u')" by (rule holds_later [OF fin(2)]) simp
  ultimately have K: "kt (response hdr code bs) (fst (mid (fst u1))) (j + 2) \<lparr>bd_store = fst u', bd_count = bd_count bd + 1, bd_log = bd_log bd\<rparr> = []"
    and seen: "u' = (fst u', Some (fst (mid (fst u1))))"
    using rest [OF fin(3), of "fst (mid (fst u1))"] n by (simp_all add: passes_def prod_eq_iff)
  show "op_blocked sha256 S b rnd cfg mid h r j kt i bd = []"
    unfolding op_blocked_waiting fin(1) by (subst seen) (use K in simp)
qed

subsection \<open>Requests in flight\<close>

lemma in_flight_refused:
  assumes h: "holds i v s" "v ''k'' = Some l" and l: "in_progress m tok l" "m \<le> i" "i < 300"
  shows "fst (in_flight_requests sha256 S b rnd i s) = ([], 0) \<and> holds (i + 6) v (snd (in_flight_requests sha256 S b rnd i s))"
proof -
  have req: "accepted (New []) (do_request ''POST'' ''/x'' ''k'' ''body'' []) ''k'' ''body''"
    "accepted (New []) (do_request ''POST'' ''/x'' ''k'' ''OTHER-BODY'' []) ''k'' ''OTHER-BODY''" by simp_all
  have key: "v (scoped_key (scope_of (New []) r) ''k'') = Some l" for r using h(2) by (simp add: scoped_key_def)
  obtain rr1 s1 where 1: "http_do sha256 S (New []) (\<lambda>r c. Panic) (quiet_env b (rnd i) i (i + 1)) (do_request ''POST'' ''/x'' ''k'' ''body'' []) [] s =
      ((False, rr1, 0, []), s1)" "conflict rr1" "holds i v s1"
    by (rule do_holds_conflicts [OF suite_configs(1) req(1) h(1) key l(2) _ l(1)]) (use l(3) in simp)
  have h1: "holds (i + 3) v s1" by (rule holds_later [OF 1(3)]) simp
  obtain rr2 s2 where 2: "http_do sha256 S (New []) (\<lambda>r c. Panic) (quiet_env b (rnd (i + 3)) (i + 3) (i + 4)) (do_request ''POST'' ''/x'' ''k'' ''OTHER-BODY'' []) [] s1 =
      ((False, rr2, 0, []), s2)" "conflict rr2" "holds (i + 3) v s2"
    by (rule do_holds_conflicts [OF suite_configs(1) req(2) h1 key _ _ l(1)]) (use l(2,3) in simp_all)
  have "holds (i + 6) v s2" by (rule holds_later [OF 2(3)]) simp
  then show ?thesis using 1(1,2) 2(1,2) by (auto simp: in_flight_requests_def conflict_def)
qed

lemma InFlight409_passes: "passes 0 Map.empty 0 (InFlight409 sha256 S b rnd)"
  unfolding InFlight409_def Let_def
proof (rule passes_blocked [where k = "''k''" and Q = "\<lambda>x. x = ([], 0)",
      OF suite_configs(1) suite_responses(1) suite_options(1) suite_requests(1) [OF order_bodies(2)] _ _ suite_programs(2)])
  fix s l assume h: "holds 0 (Map.empty(''k'' := Some l)) s" and l: "in_progress (Suc 0) (EncodeToString (rnd 0)) l"
  have "holds 1 (Map.empty(''k'' := Some l)) s" by (rule holds_later [OF h]) simp
  from in_flight_refused [OF this _ l]
  show "holds 7 (Map.empty(''k'' := Some l)) (snd (in_flight_requests sha256 S b rnd 1 s)) \<and> fst (in_flight_requests sha256 S b rnd 1 s) = ([], 0)" by simp
next
  fix l and x :: "string list \<times> nat"
  assume l: "settled (Suc 7) (Fingerprint_of sha256 (Method (do_request ''POST'' ''/x'' ''k'' ''body'' [])) (ReqURL (do_request ''POST'' ''/x'' ''k'' ''body'' [])) ''body'') [] 201 [] l"
    and x: "x = ([], 0)"
  have "passes 9 (Map.empty(''k'' := Some l)) (Suc 0) (op_do sha256 S b rnd (New []) (\<lambda>r c. status_prog 201) (do_request ''POST'' ''/x'' ''k'' ''body'' []) (\<lambda>replay.
     Fatalf_unless (Replayed replay = ''true'') ''after completion the key must replay'' (
     with_count (\<lambda>n. Fatalf_unless (n = 1) ''handler runs, want 1'' test_end))))"
    by (rule passes_replay [OF suite_configs(1) suite_responses(1) suite_requests(1) [OF order_bodies(2)] _ _ _ l]) (simp_all add: scoped_key_def)
  with x show "passes (7 + 2) (Map.empty(''k'' := Some l)) (Suc 0) (case x of (fails, n) \<Rightarrow> report fails (add_count n (
     Fatalf_unless (Code (response [] 201 []) = 201) ''first request, want 201'' (
     op_do sha256 S b rnd (New []) (\<lambda>r c. status_prog 201) (do_request ''POST'' ''/x'' ''k'' ''body'' []) (\<lambda>replay.
     Fatalf_unless (Replayed replay = ''true'') ''after completion the key must replay'' (
     with_count (\<lambda>n. Fatalf_unless (n = 1) ''handler runs, want 1'' test_end)))))))"
    by (simp add: report_def passes_add_count)
qed (simp_all add: scoped_key_def)

subsection \<open>A hundred requests\<close>

lemma serve_all_conflicts:
  assumes "holds i v s" "v ''same-key'' = Some l" "in_progress m tok l" "m \<le> i" "i + 3 * length gs \<le> 400" "distinct gs"
  shows "\<exists>res' s'. serve_all sha256 S b rnd gs i res n s = ((res', n), s') \<and> holds (i + 3 * length gs) v s' \<and>
    (\<forall>g\<in>set gs. \<exists>rr. res' g = Some rr \<and> conflict rr) \<and> (\<forall>g. g \<notin> set gs \<longrightarrow> res' g = res g)"
  using assms
proof (induction gs arbitrary: i res s)
  case (Cons g gs)
  have key: "v (scoped_key (scope_of (New []) r) ''same-key'') = Some l" for r using Cons.prems(2) by (simp add: scoped_key_def)
  obtain rr s1 where 1: "http_do sha256 S (New []) (\<lambda>r c. body_prog 201 ''winner'') (quiet_env b (rnd i) i (i + 1))
      (do_request ''POST'' ''/x'' ''same-key'' ''same-body'' []) [] s = ((False, rr, 0, []), s1)" "conflict rr" "holds i v s1"
    by (rule do_holds_conflicts [OF suite_configs(1) suite_requests(2) [OF order_bodies(5)] Cons.prems(1) key Cons.prems(4) _ Cons.prems(3)])
      (use Cons.prems(5) in simp)
  have h: "holds (i + 3) v s1" by (rule holds_later [OF 1(3)]) simp
  have "m \<le> i + 3" "i + 3 + 3 * length gs \<le> 400" "distinct gs" using Cons.prems(4-6) by simp_all
  from Cons.IH [OF h Cons.prems(2,3) this, of "res(g := Some rr)"]
  obtain res' s' where 2: "serve_all sha256 S b rnd gs (i + 3) (res(g := Some rr)) n s1 = ((res', n), s')" "holds (i + 3 + 3 * length gs) v s'"
    "\<forall>g\<in>set gs. \<exists>rr. res' g = Some rr \<and> conflict rr" "\<forall>h. h \<notin> set gs \<longrightarrow> res' h = (res(g := Some rr)) h" by blast
  then show ?case using 1(1,2) Cons.prems(6) by (auto simp: algebra_simps)
qed simp

lemma serve_all_replays:
  assumes "holds i v s" "v ''same-key'' = Some l" "m \<le> i" "i + 3 * length gs \<le> 400" "distinct gs"
    and l: "settled m (Fingerprint_of sha256 ''POST'' (ReqURL (NewRequest ''POST'' ''/x'' [])) ''same-body'') [] 201 ''winner'' l"
  shows "\<exists>res' s'. serve_all sha256 S b rnd gs i res n s = ((res', n), s') \<and> holds (i + 3 * length gs) v s' \<and>
    (\<forall>g\<in>set gs. res' g = Some (replay_response [] 201 ''winner'')) \<and> (\<forall>g. g \<notin> set gs \<longrightarrow> res' g = res g)"
  using assms(1-5)
proof (induction gs arbitrary: i res s)
  case (Cons g gs)
  let ?r = "do_request ''POST'' ''/x'' ''same-key'' ''same-body'' []"
  have key: "v (scoped_key (scope_of (New []) r) ''same-key'') = Some l" for r using Cons.prems(2) by (simp add: scoped_key_def)
  have l': "settled m (Fingerprint_of sha256 (Method ?r) (ReqURL ?r) ''same-body'') [] 201 ''winner'' l" using l by simp
  obtain s1 where 1: "http_do sha256 S (New []) (\<lambda>r c. body_prog 201 ''winner'') (quiet_env b (rnd i) i (i + 1)) ?r [] s =
      ((False, replay_response [] 201 ''winner'', 0, []), s1)" "holds i v s1"
    by (rule do_holds_replays [OF suite_configs(1) suite_responses(2) suite_requests(2) [OF order_bodies(5)] Cons.prems(1) key Cons.prems(3) _ l'])
      (use Cons.prems(4) in simp)
  have h: "holds (i + 3) v s1" by (rule holds_later [OF 1(2)]) simp
  have "m \<le> i + 3" "i + 3 + 3 * length gs \<le> 400" "distinct gs" using Cons.prems(3-5) by simp_all
  from Cons.IH [OF h Cons.prems(2) this, of "res(g := Some (replay_response [] 201 ''winner''))"]
  obtain res' s' where 2: "serve_all sha256 S b rnd gs (i + 3) (res(g := Some (replay_response [] 201 ''winner''))) n s1 = ((res', n), s')"
    "holds (i + 3 + 3 * length gs) v s'" "\<forall>g\<in>set gs. res' g = Some (replay_response [] 201 ''winner'')"
    "\<forall>h. h \<notin> set gs \<longrightarrow> res' h = (res(g := Some (replay_response [] 201 ''winner''))) h" by blast
  then show ?case using 1(1) Cons.prems(5) by (auto simp: algebra_simps)
qed simp

end

lemma tally_one_fresh:
  assumes "distinct is" "\<And>i. i \<in> set is \<Longrightarrow> res i = Some (response [] 201 bs) \<and> i = g \<or>
      (i \<noteq> g \<and> (\<exists>rr. res i = Some rr \<and> (conflict rr \<or> rr = replay_response [] 201 bs)))"
  shows "\<exists>r' c'. tally res is (f, r, c) = Inr (f + (if g \<in> set is then 1 else 0), r', c')"
  using assms
proof (induction "is" arbitrary: f r c)
  case (Cons i "is")
  have IH: "\<exists>r' c'. tally res is (f, r, c) = Inr (f + (if g \<in> set is then 1 else 0), r', c')" for f r c
    using Cons.IH Cons.prems by simp
  show ?case using Cons.prems(2) [of i] Cons.prems(1) IH [of "Suc f" r c] IH [of f "Suc r" c] IH [of f r "Suc c"]
    by (auto simp: conflict_def)
qed simp

context http_bench
begin

lemma passes_serve_all:
  assumes v: "v ''same-key'' = Some l" and i: "m \<le> i" "i + 3 * length gs \<le> 400" "distinct gs"
    and l: "settled m (Fingerprint_of sha256 ''POST'' (ReqURL (NewRequest ''POST'' ''/x'' [])) ''same-body'') [] 201 ''winner'' l"
    and rest: "\<And>res'. (\<And>g. g \<in> set gs \<Longrightarrow> res' g = Some (replay_response [] 201 ''winner'')) \<Longrightarrow> (\<And>g. g \<notin> set gs \<Longrightarrow> res' g = res g) \<Longrightarrow>
      passes (i + 3 * length gs) v n (k res')"
  shows "passes i v n (op_serve_all sha256 S b rnd gs res k)"
  unfolding passes_def
proof (intro allI impI)
  fix bd :: "'s bed" assume h: "holds i v (bd_store bd)" and n: "bd_count bd = n"
  obtain res' s' where "serve_all sha256 S b rnd gs i res 0 (bd_store bd) = ((res', 0), s')" "holds (i + 3 * length gs) v s'"
    "\<forall>g\<in>set gs. res' g = Some (replay_response [] 201 ''winner'')" "\<forall>g. g \<notin> set gs \<longrightarrow> res' g = res g"
    using serve_all_replays [OF h v i l, of rnd res 0] by blast
  with rest [of res'] n show "op_serve_all sha256 S b rnd gs res k i bd = []" by (simp add: op_serve_all_def passes_def)
qed

lemma check_results_passes:
  assumes "\<And>i. i < 100 \<Longrightarrow> results i = Some (response [] 201 bs) \<and> i = g \<or>
      i \<noteq> g \<and> (\<exists>rr. results i = Some rr \<and> (conflict rr \<or> rr = replay_response [] 201 bs))" and "g < 100"
  shows "passes i v 1 (check_results results)"
proof -
  obtain r' c' where "tally results [0..<100] (0, 0, 0) = Inr (0 + (if g \<in> set [0..<100] then 1 else 0), r', c')"
    using tally_one_fresh [of "[0..<100]" results bs g 0 0 0] assms by (metis atLeastLessThan_iff distinct_upt set_upt)
  with assms(2) show ?thesis by (simp add: check_results_def)
qed

lemma ConcurrentSingleExecution_passes:
  assumes order: "distinct order" "set order = {..<100}" and m: "m \<le> 99"
  shows "passes 0 Map.empty 0 (ConcurrentSingleExecution order m sha256 S b rnd)"
proof -
  have "0 \<in> set order" using order(2) by simp
  then obtain g gs where gs: "order = g # gs" by (cases order) simp_all
  let ?early = "take m gs" and ?late = "drop m gs" and ?post = "do_request ''POST'' ''/x'' ''same-key'' ''same-body'' []"
  have lens: "length ?early = m" "length ?late = 99 - m" using distinct_card [OF order(1)] order(2) gs m by simp_all
  have dist: "distinct ?early" "distinct ?late" "g \<notin> set ?early" "g \<notin> set ?late" "set ?early \<inter> set ?late = {}"
    using order(1) gs by (auto dest: in_set_takeD in_set_dropD simp: set_take_disj_set_drop_if_distinct)
  have all: "i = g \<or> i \<in> set ?early \<or> i \<in> set ?late" if "i < 100" for i
    using that order(2) gs append_take_drop_id [of m gs] by (metis Un_iff lessThan_iff set_ConsD set_append)
  have g: "g < 100" using order(2) gs by auto
  show ?thesis
    unfolding ConcurrentSingleExecution_def gs list.sel
  proof (rule passes_blocked [where k = "''same-key''"
        and Q = "\<lambda>x. snd x = 0 \<and> (\<forall>g\<in>set ?early. \<exists>rr. fst x g = Some rr \<and> conflict rr)",
        OF suite_configs(1) suite_responses(2) suite_options(1) suite_requests(2) [OF order_bodies(5)] _ _ suite_programs(5)])
    fix s l assume h: "holds 0 (Map.empty(''same-key'' := Some l)) s" and l: "in_progress (Suc 0) (EncodeToString (rnd 0)) l"
    have h1: "holds 1 (Map.empty(''same-key'' := Some l)) s" by (rule holds_later [OF h]) simp
    show "holds (1 + 3 * m) (Map.empty(''same-key'' := Some l)) (snd (serve_all sha256 S b rnd ?early 1 (\<lambda>_. None) 0 s)) \<and>
        snd (fst (serve_all sha256 S b rnd ?early 1 (\<lambda>_. None) 0 s)) = 0 \<and>
        (\<forall>g\<in>set ?early. \<exists>rr. fst (fst (serve_all sha256 S b rnd ?early 1 (\<lambda>_. None) 0 s)) g = Some rr \<and> conflict rr)"
      using serve_all_conflicts [OF h1 _ l _ _ dist(1), of sha256 rnd "\<lambda>_. None" 0] lens(1) m by auto
  next
    fix l and x :: "results \<times> nat"
    assume l: "settled (Suc (1 + 3 * m)) (Fingerprint_of sha256 (Method ?post) (ReqURL ?post) ''same-body'') [] 201 ''winner'' l"
      and x: "snd x = 0 \<and> (\<forall>g\<in>set ?early. \<exists>rr. fst x g = Some rr \<and> conflict rr)"
    obtain res n where p: "x = (res, n)" by force
    have "passes (1 + 3 * m + 2) (Map.empty(''same-key'' := Some l)) 1
       (op_serve_all sha256 S b rnd ?late (res(g := Some (response [] 201 ''winner''))) check_results)"
    proof (rule passes_serve_all [OF _ _ _ dist(2) l [unfolded do_request_sel]])
      fix results
      assume late: "\<And>g. g \<in> set ?late \<Longrightarrow> results g = Some (replay_response [] 201 ''winner'')"
        and other: "\<And>h. h \<notin> set ?late \<Longrightarrow> results h = (res(g := Some (response [] 201 ''winner''))) h"
      have "results i = Some (response [] 201 ''winner'') \<and> i = g \<or>
          i \<noteq> g \<and> (\<exists>rr. results i = Some rr \<and> (conflict rr \<or> rr = replay_response [] 201 ''winner''))" if "i < 100" for i
        using all [OF that] late [of i] other [of i] dist(3-5) x p by (cases "i \<in> set ?late") auto
      then show "passes (1 + 3 * m + 2 + 3 * length ?late) (Map.empty(''same-key'' := Some l)) 1 (check_results results)"
        by (rule check_results_passes [OF _ g])
    qed (use lens m in simp_all)
    then show "passes (1 + 3 * m + 2) (Map.empty(''same-key'' := Some l)) (Suc 0) (case x of (res, n) \<Rightarrow>
       add_count n (op_serve_all sha256 S b rnd ?late (res(g := Some (response [] 201 ''winner''))) check_results))"
      using x p by (simp add: passes_add_count)
  qed (use m in \<open>simp_all add: scoped_key_def\<close>)
qed

end

end
