(* ===== verification/Http_Survivor.thy ===== *)
theory Http_Survivor
  imports Http_Concurrency
begin

section \<open>A lease that expires under its holder, and the whole suite\<close>

text \<open>
  The subtest in which a request outlives its lease, and the theorem on \<^verbatim>\<open>RunHTTPTests\<close>. The locale
  \<open>survivor_bench\<close> adds what this subtest needs of its clocks: it sleeps until 150 ms after the first
  lease, counted from before the request, the store takes the lease for expired then, and the
  second lease lasts from its \<open>Begin\<close> to its \<open>Finish\<close>.
\<close>

locale survivor_bench = http_bench S sinv sview sclock up grant keep rebuilt b + inspectable_store S sinv sview sclock up grant keep rebuilt found
  for S :: "('s, 'e) Store" and sinv sview sclock up grant keep rebuilt found b +
  assumes overslept: "now_before b 0 + suite_leaseTTL + 150 * Millisecond \<le> now_before b 2"
    and first_over: "\<lbrakk>is_reservation r; LeaseExpiresAt r = now_before b 1 + suite_leaseTTL\<rbrakk> \<Longrightarrow> grant (op_env b 1) r \<le> sclock (op_env b 2)"
    and second_held: "\<lbrakk>is_reservation r; LeaseExpiresAt r = now_before b 2 + suite_leaseTTL\<rbrakk> \<Longrightarrow> sclock (op_env b 3) < grant (op_env b 2) r"
begin

lemma survivor_lease [simp]:
  "leaseTTL \<lparr>LeaseTTL = suite_leaseTTL, RecordTTL = 0\<rparr> = suite_leaseTTL" "recordTTL (lease_options survivor_cfg) = DefaultRecordTTL"
  by (simp_all add: leaseTTL_def recordTTL_def suite_leaseTTL_def Millisecond_def)

text \<open>A's reservation is gone when B comes.\<close>

lemma first_expires:
  assumes h: "holds 1 Map.empty s" and rc: "rc = reservation_of k fp tok (lease_options survivor_cfg) (now_before b 1)" and inv: "sinv s1"
    and view: "\<And>t. sclock (op_env b 1) \<le> t \<Longrightarrow> sview t s1 = live_at t ((sview (sclock (op_env b 1)) s)(k := Some (new_lease rc (grant (op_env b 1) rc))))"
  shows "holds 2 Map.empty s1"
proof -
  have over: "grant (op_env b 1) rc \<le> sclock (op_env b 2)" by (rule first_over) (simp_all add: rc)
  have "sview t s1 = live_at t Map.empty" if "sclock (op_env b 2) \<le> t" for t
  proof -
    have "sclock (op_env b 1) \<le> t" using clock_mono [of 1 2] that by simp
    from view [OF this] over that h show ?thesis by (auto simp: holds_def live_at_def fun_eq_iff)
  qed
  with inv show ?thesis by (simp add: holds_def)
qed

lemma second_runs:
  assumes h: "holds 2 Map.empty s" and fp: "fp = Fingerprint_of sha256 ''POST'' (ReqURL (NewRequest ''POST'' ''/x'' [])) ''body''"
  obtains s' l where "second_owner sha256 S b rnd (now_before b 0) 2 s = (([], 1, []), s')"
    "holds 4 (Map.empty(''k'' := Some l)) s'" "settled 4 fp [] 201 ''result-of-B'' l"
proof -
  let ?post = "do_request ''POST'' ''/x'' ''k'' ''body'' []" and ?h = "\<lambda>r c. body_prog 201 ''result-of-B''"
  let ?rc = "reservation_of ''k'' fp (EncodeToString (rnd 2)) (lease_options survivor_cfg) (now_before b 2)"
  let ?l = "new_lease ?rc (grant (op_env b 2) ?rc)" and ?e = "op_env b 3"
  define s1 where "s1 = snd (Begin S (Inr (rnd 2)) (ce_begin (quiet_env b (rnd 2) 2 3)) ''k'' fp (lease_options survivor_cfg) s)"
  have free: "sinv s" "sview (sclock (op_env b 2)) s ''k'' = None" using h by (simp_all add: holds_def live_at_def)
  note beg = begun [OF free(1) works free(2) s1_def refl]
  have view: "sview (sclock (op_env b 2)) s = live_at (sclock (op_env b 2)) Map.empty" using h by (simp add: holds_def)
  have h1: "holds 2 (Map.empty(''k'' := Some ?l)) s1" using beg unfolding view by (auto simp: holds_def live_upd)
  have h3: "holds 3 (Map.empty(''k'' := Some ?l)) s1" by (rule holds_later [OF h1]) simp
  have "sclock ?e < grant (op_env b 2) ?rc" by (rule second_held) simp_all
  with h3 have held: "held_by (sview (sclock ?e) s1) ''k'' (EncodeToString (rnd 2)) ?l" by (simp add: held_by_def holds_def live_at_def)
  let ?l' = "completed_lease ?l (MarshalBinary (stored [] 201 ''result-of-B'')) (keep ?e DefaultRecordTTL)"
  have k: "''k'' = scoped_key (scope_of survivor_cfg (rebuffer ?post ''body'')) ''k''" by (simp add: scoped_key_def)
  have fp': "fp = Fingerprint_of sha256 (Method ?post) (ReqURL ?post) ''body''" using fp by simp
  obtain s' where s': "http_do sha256 S survivor_cfg ?h (quiet_env b (rnd 2) 2 3) ?post [] s = ((False, response [] 201 ''result-of-B'', 1, []), s')" "sinv s'"
    "\<forall>t. sclock ?e \<le> t \<longrightarrow> sview t s' = live_at t ((sview (sclock ?e) (id s1)) (''k'' := Some ?l'))"
    by (rule do_persists [where log = "[]", OF suite_configs(4) suite_responses(5) suite_requests(4) [OF order_bodies(2)] k fp' free(1) works free(2)
          suite_programs(7) s1_def _ works _, unfolded survivor_lease(2)]) (use h3 held in \<open>auto simp: holds_def\<close>)
  have "holds 3 (Map.empty(''k'' := Some ?l')) s'" by (rule holds_finished [OF h3 _ order_refl s'(2) s'(3) [unfolded id_apply], unfolded fun_upd_upd]) simp
  then have "holds 4 (Map.empty(''k'' := Some ?l')) s'" by (rule holds_later) simp
  moreover have "settled 4 fp [] 201 ''result-of-B'' ?l'" using record_lives [of 3] by (auto simp: settled_def lives_def)
  moreover have "second_owner sha256 S b rnd (now_before b 0) 2 s = (([], 1, []), s')"
    using s'(1) overslept by (simp add: second_owner_def time_Add_def algebra_simps flip: numeral_3_eq_3)
  ultimately show thesis using that by blast
qed

lemma second_owner_wins:
  assumes h: "holds 1 Map.empty s" and fp: "fp = Fingerprint_of sha256 ''POST'' (ReqURL (NewRequest ''POST'' ''/x'' [])) ''body''"
  obtains u' lg l where "http_do sha256 (beside S) survivor_cfg (waiting (second_owner sha256 S b rnd (now_before b 0) 2) (\<lambda>r c. body_prog 201 ''result-of-A''))
      (quiet_env b (rnd 1) 1 5) (do_request ''POST'' ''/x'' ''k'' ''body'' []) log (s, None) = ((False, response [] 201 ''result-of-A'', 1, log @ [lg]), u')"
    "(''event'', ''lease_lost'') \<in> set (lg_attrs lg)" "holds 7 (Map.empty(''k'' := Some l)) (fst u')" "settled 7 fp [] 201 ''result-of-B'' l"
    "snd u' = Some ([], 1, [])"
proof -
  let ?post = "do_request ''POST'' ''/x'' ''k'' ''body'' []" and ?mid = "second_owner sha256 S b rnd (now_before b 0) 2" and ?env = "quiet_env b (rnd 1) 1 5"
  let ?h = "waiting ?mid (\<lambda>r c. body_prog 201 ''result-of-A'')" and ?u = "(s, None :: (string list \<times> nat \<times> logline list) option)"
  define u1 where "u1 = snd (Begin (beside S) (Inr (rnd 1)) (ce_begin ?env) ''k'' fp (lease_options survivor_cfg) ?u)"
  note client = http_bench.axioms(1) [OF beside_bench]
  have free: "sinv s" "sview (sclock (op_env b 1)) s ''k'' = None" using h by (simp_all add: holds_def live_at_def)
  have free': "sinv (fst ?u)" "sview (sclock (op_env b 1)) (fst ?u) ''k'' = None" using free by simp_all
  note beg = lease_client.begun [OF client free'(1) works free'(2) u1_def refl]
  have "holds 2 Map.empty (fst u1)" by (rule first_expires [OF h refl beg(1) [OF order_refl]]) (use beg(2) in simp)
  from second_runs [OF this fp]
  obtain s2 l where s2: "?mid (fst u1) = (([], 1, []), s2)" "holds 4 (Map.empty(''k'' := Some l)) s2" "settled 4 fp [] 201 ''result-of-B'' l" by blast
  have w: "waited ?mid u1 = (s2, Some ([], 1, []))" by (simp add: waited_def s2(1))
  have h5: "holds 5 (Map.empty(''k'' := Some l)) s2" by (rule holds_later [OF s2(2)]) simp
  have lost: "\<nexists>l'. held_by (sview (sclock (op_env b 5)) (fst (waited ?mid u1))) ''k'' (EncodeToString (rnd 1)) l'"
    using h5 s2(3) by (auto simp: w held_by_def holds_def live_at_def settled_def split: if_splits)
  have k: "''k'' = scoped_key (scope_of survivor_cfg (rebuffer ?post ''body'')) ''k''" by (simp add: scoped_key_def)
  have fp': "fp = Fingerprint_of sha256 (Method ?post) (ReqURL ?post) ''body''" using fp by simp
  have runs: "\<And>r c. responds survivor_cfg (?h r c) [] 201 ''result-of-A'' (waited ?mid)" by (rule responds_waiting) (rule suite_programs(6))
  have inv: "sinv (fst (waited ?mid u1))" using h5 by (simp add: w holds_def)
  obtain u' lg where u': "http_do sha256 (beside S) survivor_cfg ?h ?env ?post log ?u = ((False, response [] 201 ''result-of-A'', 1, log @ [lg]), u')"
    "(''event'', ''lease_lost'') \<in> set (lg_attrs lg)" "sinv (fst u')"
    "\<forall>t. sclock (op_env b 5) \<le> t \<longrightarrow> sview t (fst u') = sview t (fst (waited ?mid u1))"
    by (rule lease_client.do_lost [where log = log, OF client suite_configs(4) suite_responses(4) suite_requests(4) [OF order_bodies(2)] k fp'
          free'(1) works free'(2) runs u1_def inv works lost])
  have "holds 5 (Map.empty(''k'' := Some l)) (fst u')" by (rule holds_same [OF h5 u'(3)]) (use u'(4) in \<open>simp_all add: w\<close>)
  then have h7: "holds 7 (Map.empty(''k'' := Some l)) (fst u')" by (rule holds_later) simp
  have B: "Begin (beside S) (Inr (rnd 1)) (ce_begin ?env) ''k'' fp (lease_options survivor_cfg) ?u = (Inr (proceed_outcome (EncodeToString (rnd 1))), u1)"
    by (rule lease_client.begun_Begin [OF client free'(1) works free'(2) u1_def])
  have "snd u' = Some ([], 1, [])" using beside_seen [OF suite_requests(4) [OF order_bodies(2)] k fp' B runs u'(1)] by (simp add: w)
  moreover have "settled 7 fp [] 201 ''result-of-B'' l" using s2(3) by (simp add: settled_def lives_def)
  ultimately show thesis using that [OF u'(1,2) h7] by blast
qed

lemma passes_Get:
  assumes v: "v key = Some l" "lives m l" "m \<le> i" "i \<le> 400"
    and k: "\<And>x. reports x key l \<Longrightarrow> passes (Suc i) v n (k (Some x) None)"
  shows "passes i v n (op_Get_store S b key k)"
  unfolding passes_def
proof (intro allI impI)
  fix bd :: "'s bed" assume h: "holds i v (bd_store bd)" and n: "bd_count bd = n"
  note live = holds_live [OF h v]
  obtain res s' where G: "Get S (op_env b i) key (bd_store bd) = (res, s')" by (meson surj_pair)
  note got = get_live [OF live(1) works live(2) G]
  obtain x where x: "res = (Some x, None)" "reports x key l" using got [OF order_refl] by blast
  have "holds (Suc i) v s'" by (rule holds_same [OF h get_inv [OF live(1) G]]) (use got clock_mono [of i "Suc i"] in auto)
  with k [OF x(2)] G x(1) n show "op_Get_store S b key k i bd = []" by (simp add: op_Get_store_def passes_def)
qed

lemma LeaseExpirySurvivor_passes:
  assumes "holds 0 Map.empty s"
  shows "http_LeaseExpirySurvivor sha256 S b rnd 0 (new_bed s) = []"
proof -
  let ?post = "do_request ''POST'' ''/x'' ''k'' ''body'' []"
  define fp where "fp = Fingerprint_of sha256 ''POST'' (ReqURL (NewRequest ''POST'' ''/x'' [])) ''body''"
  have h: "holds 1 Map.empty s" by (rule holds_later [OF assms]) simp
  obtain u' lg l where A: "http_do sha256 (beside S) survivor_cfg (waiting (second_owner sha256 S b rnd (now_before b 0) 2) (\<lambda>r c. body_prog 201 ''result-of-A''))
      (quiet_env b (rnd 1) 1 5) ?post [] (s, None) = ((False, response [] 201 ''result-of-A'', 1, [] @ [lg]), u')"
    "(''event'', ''lease_lost'') \<in> set (lg_attrs lg)" "holds 7 (Map.empty(''k'' := Some l)) (fst u')" "settled 7 fp [] 201 ''result-of-B'' l"
    "snd u' = Some ([], 1, [])"
    by (rule second_owner_wins [OF h fp_def])
  have l: "settled 7 (Fingerprint_of sha256 (Method ?post) (ReqURL ?post) ''body'') [] 201 ''result-of-B'' l" using A(4) by (simp add: fp_def)
  have lv: "lives 7 l" using A(4) by (simp add: settled_def)
  have dec: "UnmarshalBinary (MarshalBinary (stored [] 201 ''result-of-B'')) = Inr (stored [] 201 ''result-of-B'')"
    using Unmarshal_Marshal [of "stored [] 201 ''result-of-B''"] suite_responses(5) by (simp add: replayable_def stored_def)
  have body: "SRBody (stored [] 201 ''result-of-B'') = ''result-of-B''" by (simp add: stored_def)
  have "passes 7 (Map.empty(''k'' := Some l)) 2 (op_do sha256 S b rnd survivor_cfg (\<lambda>r c. body_prog 201 ''result-of-B'') ?post (\<lambda>replay.
     Fatalf_unless (Replayed replay = ''true'' \<and> rw_body replay = ''result-of-B'') ''replay, want only the result of B stored'' (
     op_Get_store S b ''k'' (\<lambda>rec err.
     Fatalf_unless (err = None \<and> rec \<noteq> None \<and> State (the rec) = StateCompleted) ''Get, want a completed record'' (
     (case UnmarshalBinary (Payload (the rec)) of
        Inl _ \<Rightarrow> Fatalf ''decoding stored payload''
      | Inr sr \<Rightarrow> Fatalf_unless (SRBody sr = ''result-of-B'') ''stored body, want the result of B only'' (
     with_count (\<lambda>n. Fatalf_unless (n = 2) ''handler runs, want 2''
     test_end))))))))"
    by (rule passes_replay [OF suite_configs(4) suite_responses(5) suite_requests(4) [OF order_bodies(2)] _ _ _ l])
      (simp_all add: scoped_key_def, rule passes_Get [OF _ lv], use A(4) in \<open>simp_all add: reports_def settled_def dec body\<close>)
  moreover obtain x y where "u' = (x, y)" by force
  moreover have "list_ex (\<lambda>(_, v). v = ''lease_lost'') (lg_attrs lg)" using A(2) by (force simp: list_ex_iff)
  ultimately show ?thesis using A(1,3,5)
    by (simp add: http_LeaseExpirySurvivor_def Let_def op_now_def op_blocked_waiting new_bed_def report_def add_count_def with_log_def
        Fatalf_unless_def [of "_ \<and> _"] Fatalf_unless_def [of "list_ex _ _"] passes_def)
qed

end

context http_bench
begin

lemma passes_new: "passes 0 Map.empty 0 test \<Longrightarrow> holds 0 Map.empty s \<Longrightarrow> test 0 (new_bed s) = []"
  by (simp add: passes_def new_bed_def)

lemma holds_new: "sinv s \<Longrightarrow> (\<And>t. sview t s = Map.empty) \<Longrightarrow> holds 0 Map.empty s"
  by (simp add: holds_def live_at_def)

lemmas plain_subtests_pass = passes_new [OF ReplayScenario_passes] passes_new [OF CompletedFingerprintMismatch422_passes]
  passes_new [OF InFlight409_passes] passes_new [OF KeyScopeIsolation_passes] passes_new [OF ConcurrentSingleExecution_passes]

lemmas failing_subtests_pass = FailClosed503_passes FailOpenPassesThrough_passes ResponseReturnedAndReleased_passes
  ReleaseAlsoFailsKeepsReservation_passes StoreFailureOnRelease_passes

end

subsection \<open>Readings for the in-memory store\<close>

text \<open>The test reads the clock before it sleeps and a second later.\<close>

definition demo_readings :: "Time readings" where
  "demo_readings i n = (let t = (if i \<le> 1 then 0 else Second) in \<lparr>at_between = id, at_deadline = t, at_store = t, at_check = t\<rparr>)"

interpretation mh: survivor_bench mem_Store mem_inv mem_view "\<lambda>now. now" "\<lambda>_. True"
  "\<lambda>_ r. LeaseExpiresAt r" "\<lambda>now ttl. now + ttl" "\<lambda>_ d. d" "\<lambda>_ d. d" demo_readings
  by unfold_locales (auto simp: demo_readings_def op_env_def now_before_def now_after_def suite_leaseTTL_def DefaultLeaseTTL_def
      DefaultRecordTTL_def Second_def Millisecond_def Let_def split: if_splits)

subsection \<open>Properties\<close>

text \<open>
  (C31) The middleware passes its conformance suite over every store that keeps the contract: the
  replay, mismatch, in-flight, scope, store failure and lease expiry scenarios, and a hundred
  requests with one key, whichever of them reaches the store first and however many of the
  others reach it before it has finished. The clocks let default leases and stored records
  outlast a test and the short lease expire in the sleep, and SHA-256 tells the two bodies of
  the mismatch test apart.
\<close>

theorem conforming_stores_pass_http:
  assumes benches: "\<And>n. n < 11 \<Longrightarrow> http_bench S sinv sview sclock up grant keep rebuilt (bs n)"
    and survivor: "survivor_bench S sinv sview sclock up grant keep rebuilt found (bs 9)"
    and empty: "\<And>n. sinv (newStore n)" "\<And>n t. sview t (newStore n) = Map.empty"
    and order: "distinct order" "set order = {..<100}" "m \<le> 99"
    and sha: "tells_apart sha256"
  shows "RunHTTPTests sha256 S order m rnd bs newStore = []"
proof -
  have new: "http_bench.holds sinv sview sclock (bs n) 0 Map.empty (newStore n)" if "n < 11" for n
    by (rule http_bench.holds_new [OF benches [OF that] empty])
  note plain = http_bench.plain_subtests_pass [OF benches] and failing = http_bench.failing_subtests_pass [OF benches]
  show ?thesis
    using plain(1) [of 0] plain(2) [of 1, OF _ sha] plain(3) [of 2] plain(4) [of 3] failing(1) [of 4] failing(2) [of 5] failing(3) [of 6]
      failing(4) [of 7] failing(5) [of 8] survivor_bench.LeaseExpirySurvivor_passes [OF survivor] plain(5) [of 10, OF _ order] new
    by (simp add: RunHTTPTests_def Let_def)
qed

theorem conforming_stores_pass_http_witness:
  "RunHTTPTests (\<lambda>x. x) mem_Store [0..<100] 40 (\<lambda>i. replicate i CHR ''a'') (\<lambda>_. demo_readings) (\<lambda>_. mem_New) = []"
proof (rule conforming_stores_pass_http [OF mh.http_bench_axioms mh.survivor_bench_axioms])
  show "tells_apart (\<lambda>x. x)" by code_simp
qed (auto simp: mem_inv_New mem_view_New)

end
