(* ===== verification/Call_Budget.thy ===== *)
theory Call_Budget
  imports Middleware_Lease Memstore
begin

section \<open>How often a request calls the store\<close>

text \<open>
  The only loop of the request path is that of \<open>Begin\<close>, and it is bounded. A store that counts
  the calls it gets shows what this costs: whatever the store answers, a request ends
  after at most \<open>maxAttempts\<close> claims, one \<open>Finish\<close> and one release.
\<close>

definition counted :: "('s, 'e) Store \<Rightarrow> ('s \<times> nat, 'e) Store" where
  "counted S = \<lparr>Reserve = (\<lambda>env rc (s, n). let (res, s') = Reserve S env rc s in (res, (s', Suc n))),
     Complete = (\<lambda>env key token payload ttl (s, n). let (res, s') = Complete S env key token payload ttl s in (res, (s', Suc n))),
     Release = (\<lambda>env key token (s, n). let (res, s') = Release S env key token s in (res, (s', Suc n))),
     Get = (\<lambda>env key (s, n). let (res, s') = Get S env key s in (res, (s', Suc n)))\<rparr>"

text \<open>A handler whose own actions do not call the store.\<close>

definition store_free :: "('s \<times> nat) prog \<Rightarrow> bool" where
  "store_free p \<longleftrightarrow> (\<forall>n. store_ops_keep (\<lambda>u. snd u = n) p)"

abbreviation calls :: "('s \<times> nat) world \<Rightarrow> nat" where
  "calls wd \<equiv> snd (wd_store wd)"

lemma counted_calls [simp]:
  "snd (snd (Reserve (counted S) e rc u)) = Suc (snd u)" "snd (snd (Complete (counted S) e k tok p ttl u)) = Suc (snd u)"
  "snd (snd (Release (counted S) e k tok u)) = Suc (snd u)"
  by (simp_all add: counted_def split_beta)

lemma attempt_calls:
  assumes "begin_attempt (counted S) a key fp tok opts n u = (r, u')" "\<And>u. snd (at_between a u) = snd u"
  shows "snd u' = Suc (snd u)"
proof -
  have "u' = snd (Reserve (counted S) (at_store a) (reservation_of key fp tok opts (at_deadline a)) (at_between a u))"
    using assms(1) by (auto simp: begin_attempt_def split: prod.splits option.splits if_splits)
  then show ?thesis using assms(2) by simp
qed

lemma loop_calls:
  assumes quiet: "\<And>n u. snd (at_between (env n) u) = snd u"
  shows "n \<le> maxAttempts \<Longrightarrow> snd (snd (begin_loop (counted S) env key fp tok opts n u)) \<le> snd u + (Suc maxAttempts - n)"
proof (induction "maxAttempts - n" arbitrary: n u rule: less_induct)
  case less
  obtain r u' where A: "begin_attempt (counted S) (env n) key fp tok opts n u = (r, u')" by (meson surj_pair)
  have u': "snd u' = Suc (snd u)" by (rule attempt_calls [OF A quiet])
  show ?case
  proof (cases r)
    case Again
    then have n: "n < maxAttempts" using begin_attempt_Again [OF A [symmetric, unfolded Again]] by simp
    then have "snd (snd (begin_loop (counted S) env key fp tok opts (Suc n) u')) \<le> snd u' + (Suc maxAttempts - Suc n)"
      by (intro less.hyps) simp_all
    with A Again u' n show ?thesis by (subst begin_loop.simps) simp
  next
    case (Return x)
    with A u' less.prems show ?thesis by (subst begin_loop.simps) simp
  qed
qed

lemma Begin_calls:
  assumes "\<And>n u. snd (at_between (env n) u) = snd u"
  shows "snd (snd (Begin (counted S) rnd env key fp opts u)) \<le> snd u + maxAttempts"
  using loop_calls [where n = 1 and S = S and u = u, OF assms] by (auto simp: Begin_def maxAttempts_def split: sum.splits)

lemma Finish_calls: "snd (snd (Finish (counted S) e k tok d p opts u)) \<le> Suc (snd u)"
  by (auto simp: Finish_def counted_def split_beta split: option.splits)

subsection \<open>The parts of a request\<close>

lemma next_calls: "(\<And>r c. store_free (h r c)) \<Longrightarrow> calls (snd (next_ServeHTTP h r c wd)) = calls wd"
  using next_ServeHTTP_store [of "\<lambda>u. snd u = calls wd" h wd r c] by (simp add: store_free_def)

lemma run_calls:
  assumes "\<And>r c. store_free (h r c)"
  shows "snd (cp_store (snd (run_under_lease cfg h r c w u))) = snd u"
proof -
  let ?st = "\<lparr>cp_cw = \<lparr>cw_w = w, cw_rec = NewRecorder (maxResponseBody cfg) (storeHeaders cfg), wroteHeader = False\<rparr>, cp_ctx = c, cp_store = u\<rparr>"
  obtain p st where R: "run_cap (h r c) ?st = (p, st)" by (meson surj_pair)
  have "snd (cp_store st) = snd u" by (rule run_cap_store [OF R, where P = "\<lambda>v. snd v = snd u"]) (use assms in \<open>simp_all add: store_free_def\<close>)
  with R show ?thesis by (simp add: run_under_lease_def)
qed

lemma final_decision_store [simp]: "wd_store (snd (final_decision cfg attrs rec herr wd)) = wd_store wd"
  by (auto simp: final_decision_def Let_def)

lemma store_do_calls: "(\<And>u. snd (snd (f u)) \<le> snd u + m) \<Longrightarrow> calls (snd (store_do f wd)) \<le> calls wd + m"
  by (simp add: store_do_def split_beta)

text \<open>A \<open>Finish\<close> after what others did to the store.\<close>

lemma finish_do_calls:
  assumes "\<And>u. snd (before u) = snd u"
  shows "calls (snd (store_do (\<lambda>s. Finish (counted S) e k tok d p opts (before s)) wd)) \<le> Suc (calls wd)"
  using store_do_calls [of "\<lambda>s. Finish (counted S) e k tok d p opts (before s)" 1 wd] Finish_calls [of S e k tok d p opts] assms
  by (metis (no_types, lifting) Suc_eq_plus1)

lemma settle_calls:
  assumes "\<And>u. snd (ce_before_finish env u) = snd u" "\<And>u. snd (ce_before_release env u) = snd u"
  shows "calls (settle (counted S) cfg env attrs k tok opts rec herr wd) \<le> calls wd + 2"
proof -
  let ?fin = "\<lambda>e before d p wd. snd (store_do (\<lambda>s. Finish (counted S) e k tok d p opts (before s)) wd)"
  define wd1 where "wd1 = snd (final_decision cfg attrs rec herr wd)"
  define once where "once = (\<lambda>d p. ?fin (ce_finish env) (ce_before_finish env) d p wd1)"
  have 1: "calls (once d p) \<le> Suc (calls wd)" for d p using finish_do_calls [OF assms(1), where wd = wd1] by (simp add: once_def wd1_def)
  have 2: "calls (?fin (ce_release env) (ce_before_release env) Discard [] (warn m a (once d p))) \<le> Suc (Suc (calls wd))" for m a d p
    by (rule order_trans [OF finish_do_calls [OF assms(2)]]) (use 1 in simp)
  have once: "?fin (ce_finish env) (ce_before_finish env) d p wd1 = once d p" for d p by (simp add: once_def)
  show ?thesis
    unfolding settle_def Let_def case_prod_beta wd1_def [symmetric] once
    using le_SucI [OF 1] 2 by (simp split: option.split)
qed

lemma on_panic_calls:
  assumes "\<And>u. snd (ce_before_finish env u) = snd u"
  shows "calls (on_panic (counted S) env attrs k tok opts c wd) \<le> calls wd + 1"
  using finish_do_calls [OF assms, where wd = wd]
  by (auto simp: on_panic_def Let_def case_prod_beta split: option.splits)

lemma proceed_calls:
  assumes "\<And>r c. store_free (h r c)" "\<And>u. snd (ce_before_finish env u) = snd u" "\<And>u. snd (ce_before_release env u) = snd u"
  shows "calls (snd (serve_proceed (counted S) cfg h env attrs k tok opts r c wd)) \<le> calls wd + 2"
  using settle_calls [OF assms(2,3)] on_panic_calls [OF assms(2)]
    by (auto simp: serve_proceed_def Let_def case_prod_beta run_calls [OF assms(1)] intro: order_trans [OF settle_calls [OF assms(2,3)]]
        order_trans [OF on_panic_calls [OF assms(2)]])

lemma keyed_calls:
  assumes free: "\<And>r c. store_free (h r c)" and quiet: "\<And>n u. snd (at_between (ce_begin env n) u) = snd u"
      "\<And>u. snd (ce_before_finish env u) = snd u" "\<And>u. snd (ce_before_release env u) = snd u"
  shows "calls (snd (serve_keyed sha256 (counted S) cfg h env key body r c wd)) \<le> calls wd + (maxAttempts + 2)"
proof -
  let ?claim = "store_do (Begin (counted S) (ce_rnd env) (ce_begin env) (scoped_key (scope_of cfg r) key)
      (Fingerprint_of sha256 (Method r) (ReqURL r) body) (lease_options cfg)) wd"
  have 1: "calls (snd ?claim) \<le> calls wd + maxAttempts" by (rule store_do_calls) (rule Begin_calls [OF quiet(1)])
  have 2: "calls (snd (serve_proceed (counted S) cfg h env attrs k tok opts r c (snd ?claim))) \<le> calls wd + (maxAttempts + 2)" for attrs k tok opts
    by (rule order_trans [OF proceed_calls [OF free quiet(2,3)]]) (use 1 in simp)
  show ?thesis
    using 1 2 by (auto simp: serve_keyed_def Let_def case_prod_beta next_calls [OF free] WriteError_store writeReplay_store split: sum.splits Action.splits)
qed

subsection \<open>Properties\<close>

text \<open>
  (C17) Whatever the store answers, errors and expired records included, a request whose handler
  leaves the store alone ends after at most five calls of the store: three claims of
  \<open>Begin\<close>, one \<open>Finish\<close>, and the release after a response that could not be persisted.
\<close>

theorem requests_end:
  assumes "\<And>r c. store_free (h r c)" "\<And>n u. snd (at_between (ce_begin env n) u) = snd u"
    and "\<And>u. snd (ce_before_finish env u) = snd u" "\<And>u. snd (ce_before_release env u) = snd u"
  shows "calls (snd (ServeHTTP sha256 (counted S) cfg h env r c wd)) \<le> calls wd + 5"
proof -
  have "calls (snd (serve_keyed sha256 (counted S) cfg h env key body r' c wd)) \<le> calls wd + 5" for key body r'
    using keyed_calls [OF assms] by (simp add: maxAttempts_def)
  then show ?thesis
    by (auto simp: ServeHTTP_def next_calls [OF assms(1)] WriteError_store split: sum.splits option.splits)
qed

text \<open>A request on the in-memory store, at one instant.\<close>

definition counted_env :: "(memstore \<times> nat, Time) call_env" where
  "counted_env = \<lparr>ce_rnd = Inr ''0123456789abcdef'', ce_begin = (\<lambda>_. \<lparr>at_between = id, at_deadline = 7, at_store = 7, at_check = 7\<rparr>),
     ce_before_finish = id, ce_finish = 7, ce_before_release = id, ce_release = 7\<rparr>"

definition counted_request :: Request where
  "counted_request = \<lparr>Method = ''POST'', ReqURL = \<lparr>EscapedPath = ''/orders'', RawQuery = []\<rparr>, ReqHeader = [(''Idempotency-Key'', [''k''])],
     ReqBody = Some \<lparr>body_bytes = ''body'', body_err = None\<rparr>, ContentLength = 4\<rparr>"

theorem requests_end_witness:
  "calls (snd (ServeHTTP (\<lambda>x. x) (counted mem_Store) (New []) (\<lambda>r c. Do (WriteHeader 201) (\<lambda>_. Done)) counted_env counted_request background
     \<lparr>wd_w = new_rw None None, wd_store = (mem_New, 0), wd_log = [], wd_calls = []\<rparr>)) \<le> 5"
  by (rule order_trans [OF requests_end]) (simp_all add: counted_env_def store_free_def)

end
