(* ===== verification/Spec2Isabelle.thy ===== *)
theory Spec2Isabelle
  imports Gin_System Grpc_System Errtrail_Adapter State_Machine_Suite Http_Survivor Call_Budget
begin

text \<open>
  This development models idemlease, a Go library that makes retried requests execute at most
  once within a lease and replay the stored response afterwards, and proves what its
  parts promise. Names of definitions follow the source; where two packages use a name, a
  prefix tells them apart (\<open>mem_\<close>, \<open>redis_\<close>, \<open>pg_\<close>, \<open>grpc_\<close>, \<open>gin_\<close>).

  \<^bold>\<open>Parts of the program and their theories.\<close>

  \<^item> \<open>Prelude\<close>: machine integers of Go (\<^verbatim>\<open>int64\<close> wrap-around written out with \<open>wrap64\<close>), times and
    durations in nanoseconds, error values with \<^verbatim>\<open>errors.Is\<close>, decimal formatting and parsing.
  \<^item> \<open>Store_Contract\<close> (\<^verbatim>\<open>record.go\<close>, \<^verbatim>\<open>store.go\<close>): records, the \<^verbatim>\<open>Store\<close> interface as a record of
    operations, and the contract of the interface as the locale \<open>lease_store\<close>, over the logical
    content (\<open>view\<close>) of a store at an instant.
  \<^item> \<open>Core\<close> (\<^verbatim>\<open>idemlease.go\<close>): \<open>Begin\<close> with its retry loop, \<open>Finish\<close>, tokens and options; the
    decision table of \<open>Begin\<close> and the transitions of \<open>Finish\<close> over any store that keeps the
    contract.
  \<^item> \<open>Memstore\<close>, \<open>Redis_Store\<close> (with \<open>Redis_Server\<close>), \<open>Pg_Store\<close> (\<^verbatim>\<open>memstore\<close>, \<^verbatim>\<open>redistore\<close>,
    \<^verbatim>\<open>pgstore\<close>): the three stores, each interpreting \<open>lease_store\<close>. The Redis commands are a
    parameter with named laws (\<open>redis_server\<close>); the SQL statements are functions of the table.
  \<^item> \<open>Lease_System\<close>: any number of clients of one store as a step relation, in which every call may
    fail before or after it took effect (the locale \<open>shaky_store\<close>), with mutual
    exclusion and the finality of stored responses as invariants, and that every key can be
    claimed again after its deadlines; \<open>Store_Faults\<close> shows what a failing call does to each of the
    three stores, and \<open>Deployments\<close> instantiates the system for them. \<open>Pg_System\<close> is the PostgreSQL store
    statement by statement: the same guarantees with commits of other sessions between the statements
    of an operation, and that \<open>Begin\<close> and \<open>Finish\<close> are paths of it.
  \<^item> \<open>Http_Base\<close>, \<open>Response_Writer\<close>: header maps, requests, and the response writer of net/http.
  \<^item> \<open>Key_Grammar\<close>, \<open>Fingerprint_Calc\<close>, \<open>Uvarint\<close>, \<open>Stored_Response\<close>, \<open>Recorder_Capture\<close>,
    \<open>Handler_Run\<close>, \<open>Http_Errors\<close> (\<^verbatim>\<open>httpidem/key.go\<close>, \<^verbatim>\<open>fingerprint.go\<close>, \<^verbatim>\<open>storedresponse.go\<close>,
    \<^verbatim>\<open>recorder.go\<close>, \<^verbatim>\<open>policy.go\<close>, \<^verbatim>\<open>reservation.go\<close>, \<^verbatim>\<open>errors.go\<close>): the building blocks of the
    middleware. A handler is an interaction tree whose actions are the calls a Go handler
    can make on its writer, its context and the store.
  \<^item> \<open>Middleware\<close> (\<^verbatim>\<open>httpidem/httpidem.go\<close>) with \<open>Middleware_Lease\<close>, what a call does over any store
    that keeps the contract, and \<open>Exchange_Example\<close>, concrete inputs.
  \<^item> \<open>Grpc_Interceptor\<close> (\<^verbatim>\<open>grpcidem\<close>) and \<open>Grpc_Deployment\<close>; the protocol buffer library is a
    parameter with named laws (\<open>proto_library\<close>).
  \<^item> \<open>Gin_Writer\<close>, \<open>Gin_Adapter\<close> (\<^verbatim>\<open>ginadapter\<close>) and \<open>Gin_Deployment\<close>: the capturing writer on Gin's
    response writer, the adapter's handler, and its exchanges; Gin's writer is a parameter
    with named laws (\<open>gin_library\<close>).
  \<^item> \<open>Errtrail_Adapter\<close> (\<^verbatim>\<open>errtrailadapter\<close>): the error writer and the policy over the errtrail
    library, a parameter with named laws (\<open>errtrail_library\<close>).
  \<^item> \<open>Store_Inspection\<close>, \<open>Conformance_Bench\<close>, \<open>Store_Suite\<close>, \<open>State_Machine_Suite\<close>
    (\<^verbatim>\<open>idemleasetest\<close>): what \<open>Get\<close> promises beside the contract, the language of the tests, and the
    two conformance suites, subtest by subtest; a store that keeps the contract passes both.
  \<^item> \<open>Flaky_Store\<close>, \<open>Http_Bench\<close>, \<open>Http_Suite\<close>, \<open>Http_Conformance\<close>, \<open>Http_Concurrency\<close>, \<open>Http_Survivor\<close>
    (\<^verbatim>\<open>httpidem/httpidemtest\<close>): the store with injectable failures, requests on a response recorder,
    the middleware's conformance suite, and its subtests over any store that keeps the
    contract: those with one request at a time, those in which other requests come while a
    handler runs, and the lease that expires under its holder.
  \<^item> \<open>Call_Budget\<close>: a store that counts its calls, and the bound on the calls of one request.
  \<^item> \<open>Lease_Calls\<close>, \<open>Http_System\<close>, \<open>Grpc_System\<close>, \<open>Gin_System\<close>: a whole call of each front end, with what
    other clients do to the store between its store calls and while its handler runs, is a path of
    the system of \<open>Lease_System\<close>, on which the handler runs from the state in which its execution was granted
    the key, on the store that holds its lease.

  This theory holds the properties that span the middleware and the stores.

  \<^bold>\<open>State, time and failures.\<close> Every operation is a function of an explicit state and an
  environment that holds what the code reads of the outside: clock readings, random bytes,
  infrastructure failures before or after an operation took effect, and what other
  processes do to the store between two operations of one call. Each store judges expiry on its
  own clock, and the contract is stated on that clock. Panics are results.

  \<^bold>\<open>Termination.\<close> \<open>begin_loop\<close> terminates by the number of attempts left (\<open>maxAttempts\<close> is 3), the
  claim loop of the PostgreSQL store by its counter; no definition uses fuel.
  \<open>Call_Budget\<close> states what this bounds: the calls of the store per request.

  \<^bold>\<open>Not modelled.\<close> The loggers (log lines are data), context cancellation (\<open>Finish\<close> runs on a
  context without cancellation), the header fields the server generates for the connection (\<^verbatim>\<open>Date\<close>, the computed
  \<^verbatim>\<open>Content-Length\<close>, framing; the sniffed \<^verbatim>\<open>Content-Type\<close> is modelled, with the detection a parameter) and its
  check of a body against a declared \<^verbatim>\<open>Content-Length\<close>, the escapes of \<^verbatim>\<open>%q\<close> in the texts of error messages, gRPC streaming (the
  interceptor is unary), and HTTP/2 server push and \<^verbatim>\<open>Unwrap\<close> of the capturing writer, which pass
  straight to the writer below. In the conformance suites failure messages carry no formatted values.
  In the system of \<open>Lease_System\<close>, and so in the theorems on whole calls, an operation of the PostgreSQL
  store is one step; \<open>Pg_Store\<close> and \<open>Pg_System\<close> treat commits of others between its statements.
  SHA-256 is a parameter; where its collision resistance matters it is a hypothesis.
\<close>

section \<open>The middleware over the in-memory store\<close>

text \<open>The lease a first request gets from the in-memory store, and what its \<open>Begin\<close> leaves behind.\<close>

lemma mem_Begin_claims:
  assumes "mem_inv (at_between (env 1) s)" "mem_view (at_store (env 1)) (at_between (env 1) s) k = None"
    and "at_store (env 1) \<le> t" "t < at_deadline (env 1) + leaseTTL opts"
    and "Begin mem_Store (Inr b) env k fp opts s = (r, s')"
  shows "mem_view t s' k = Some (new_lease (reservation_of k fp (EncodeToString b) opts (at_deadline (env 1)))
      (at_deadline (env 1) + leaseTTL opts))"
  using ms.Begin_first [OF assms(1) _ assms(3) _ assms(5)] assms(2,4) by (simp add: live_at_def)

text \<open>
  (C1) A request that is executed and whose response is persisted is answered for the rest
  of the record's life, for every retry with the same key, method, URL and body, with the
  response the first client received - status, body, and every allowlisted header it
  carried - and the handler is not called again.
\<close>

theorem retry_replays_first_response:
  assumes first: "accepted cfg r key body" "ce_rnd env = Inr b" "fresh_rw (wd_w wd)"
    and k: "k = scoped_key (scope_of cfg (rebuffer r body)) key"
    and fp: "fp = Fingerprint_of sha256 (Method r) (ReqURL r) body"
    and s1: "s1 = snd (Begin mem_Store (ce_rnd env) (ce_begin env) k fp (lease_options cfg) (wd_store wd))"
    and free: "mem_inv (at_between (ce_begin env 1) (wd_store wd))"
      "mem_view (at_store (ce_begin env 1)) (at_between (ce_begin env 1) (wd_store wd)) k = None"
    and run: "run_under_lease cfg h (rebuffer r body) (lease_ctx k (EncodeToString b) (lease_options cfg) c)
        (wd_w wd) s1 = (False, st)" "\<not> finished (cp_ctx st)" "\<not> void_capture (cp_cw st)"
    and persist: "policy cfg (Status (cw_rec (cw_finalize (cp_cw st)))) (handlerErr (cp_ctx st)) = Persist"
      "StoredResponse_of (cw_rec (cw_finalize (cp_cw st))) = (sr, True)" "storable sr"
      "int (length (MarshalBinary sr)) \<le> wrap64 (maxResponseBody cfg + maxStoredResponseOverhead)"
    and undisturbed: "mem_inv (ce_before_finish env (cp_store st))"
      "recs (ce_before_finish env (cp_store st)) k = recs s1 k"
    and in_time: "at_store (ce_begin env 1) \<le> ce_finish env"
      "ce_finish env < at_deadline (ce_begin env 1) + leaseTTL (lease_options cfg)"
    and call: "ServeHTTP sha256 mem_Store cfg h env r c wd = (p, wd1)"
    and retry: "accepted cfg r' key body" "Method r' = Method r" "ReqURL r' = ReqURL r"
      "scope_of cfg (rebuffer r' body) = scope_of cfg (rebuffer r body)" "ce_rnd env' = Inr b'" "fresh_rw (wd_w wd')"
    and kept: "mem_inv (at_between (ce_begin env' 1) (wd_store wd'))"
      "recs (at_between (ce_begin env' 1) (wd_store wd')) k = recs (wd_store wd1) k"
    and later: "ce_finish env \<le> at_store (ce_begin env' 1)"
      "at_store (ce_begin env' 1) < ce_finish env + recordTTL (lease_options cfg)"
      "at_check (ce_begin env' 1) < ce_finish env + recordTTL (lease_options cfg)"
  shows "\<not> p \<and> wd_calls wd1 = wd_calls wd @ [(rebuffer r body, lease_ctx k (EncodeToString b) (lease_options cfg) c)] \<and>
    (\<exists>wd2. ServeHTTP sha256 mem_Store cfg h' env' r' c' wd' = (False, wd2) \<and> wd_calls wd2 = wd_calls wd' \<and>
       same_response (allow_names [] (storeHeaders cfg)) (rw_implicit (wd_w wd1)) (wd_w wd2))"
proof -
  let ?tf = "ce_finish env" and ?t' = "at_store (ce_begin env' 1)"
  let ?res = "reservation_of k fp (EncodeToString b) (lease_options cfg) (at_deadline (ce_begin env 1))"
  let ?l = "new_lease ?res (at_deadline (ce_begin env 1) + leaseTTL (lease_options cfg))"
  let ?l' = "completed_lease ?l (MarshalBinary sr) (?tf + recordTTL (lease_options cfg))"
  obtain out where "Begin mem_Store (Inr b) (ce_begin env) k fp (lease_options cfg) (wd_store wd) = (out, s1)"
    using first(2) s1 by (metis prod.collapse)
  from mem_Begin_claims [where env = "ce_begin env", OF free in_time this]
  have claimed: "mem_view ?tf s1 k = Some ?l" .
  have "held_by (mem_view ?tf (ce_before_finish env (cp_store st))) k (EncodeToString b) ?l"
    using claimed undisturbed(2) by (simp add: held_by_def mem_view_def)
  from mc.first_request [OF first(1,2) free(1) TrueI free(2) k fp run(1) [unfolded s1] run(2) persist(1,2)
      undisturbed(1) TrueI later(1) this] obtain s' where
    served: "ServeHTTP sha256 mem_Store cfg h env r c wd =
      (False, wd\<lparr>wd_w := cw_w (cp_cw st), wd_store := s',
         wd_calls := wd_calls wd @ [(rebuffer r body, lease_ctx k (EncodeToString b) (lease_options cfg) c)]\<rparr>)"
    and stored: "mem_view ?t' s' = live_at ?t' ((mem_view ?tf (ce_before_finish env (cp_store st)))(k := Some ?l'))"
    .
  have wd1: "\<not> p" "wd_w wd1 = cw_w (cp_cw st)" "wd_store wd1 = s'" "wd_calls wd1 = wd_calls wd @
      [(rebuffer r body, lease_ctx k (EncodeToString b) (lease_options cfg) c)]"
    using served call by auto
  have found: "mem_view ?t' (at_between (ce_begin env' 1) (wd_store wd')) k = Some ?l'"
    using stored kept(2) wd1(3) later(2) by (simp add: mem_view_def live_at_def fun_eq_iff)
  obtain hs where cap: "rw_sent (rw_implicit (cw_w (cp_cw st))) = Some (StatusCode sr, hs)"
    "SRHeader sr = snapshot hs [] (allow_names [] (storeHeaders cfg))"
    "rw_body (rw_implicit (cw_w (cp_cw st))) = sent_body (StatusCode sr) (SRBody sr)"
    "200 \<le> StatusCode sr" "StatusCode sr \<le> 999"
    using capture_faithful [OF first(3) run(1) [unfolded run_under_lease_def] persist(2) run(3)] by metis
  obtain wd2 h2 where again: "ServeHTTP sha256 mem_Store cfg h' env' r' c' wd' = (False, wd2)"
    "wd_calls wd2 = wd_calls wd'" "rw_sent (wd_w wd2) = Some (StatusCode sr, h2)"
    "rw_body (wd_w wd2) = sent_body (StatusCode sr) (SRBody sr)"
    "map_of h2 = map_of (rw_header (marked cfg (wd_w wd'))) ++ map_of (SRHeader sr)"
    by (rule mc.retry_request [OF retry(1,5) kept(1) TrueI, of ?l' sha256 sr])
      (use found retry(2-4,6) k fp later(3) persist(3,4) cap(4,5) in simp_all)
  have "same_response (allow_names [] (storeHeaders cfg)) (rw_implicit (wd_w wd1)) (wd_w wd2)"
    using replay_same_response [OF cap(1,3) again(3,4)] again(5) cap(2) wd1(2) by simp
  with wd1(1,4) again(1,2) show ?thesis by blast
qed

theorem retry_replays_first_response_witness:
  "\<exists>wd1 wd2. ServeHTTP (\<lambda>x. x) mem_Store default_config demo_handler (demo_env 0) demo_request background
       (demo_world mem_New) = (False, wd1) \<and> length (wd_calls wd1) = 1 \<and>
     ServeHTTP (\<lambda>x. x) mem_Store default_config demo_handler (demo_env 10) demo_request background
       (demo_world (wd_store wd1)) = (False, wd2) \<and> wd_calls wd2 = [] \<and>
     same_response (allow_names [] (storeHeaders default_config)) (rw_implicit (wd_w wd1)) (wd_w wd2)"
proof -
  obtain p wd1 where call: "ServeHTTP (\<lambda>x. x) mem_Store default_config demo_handler (demo_env 0) demo_request background
       (demo_world mem_New) = (p, wd1)" by (meson surj_pair)
  have inv: "mem_inv (wd_store wd1)"
    using mc.ServeHTTP_inv [of "demo_env 0" demo_handler "demo_world mem_New" "\<lambda>x. x" default_config demo_request background] call
    by (simp add: demo_env_keeps demo_ops mem_inv_New)
  have "\<not> p \<and> wd_calls wd1 = wd_calls (demo_world mem_New) @ [(rebuffer demo_request ''x'', lease_ctx (scoped_key (scope_of default_config (rebuffer demo_request ''x'')) ''k1'')
        (EncodeToString ''ab'') (lease_options default_config) background)] \<and>
     (\<exists>wd2. ServeHTTP (\<lambda>x. x) mem_Store default_config demo_handler (demo_env 10) demo_request background
       (demo_world (wd_store wd1)) = (False, wd2) \<and> wd_calls wd2 = wd_calls (demo_world (wd_store wd1)) \<and>
     same_response (allow_names [] (storeHeaders default_config)) (rw_implicit (wd_w wd1)) (wd_w wd2))"
    by (rule retry_replays_first_response [OF demo_accepted _ _ refl refl refl _ _ _ demo_finished demo_kept_capture demo_persist
        demo_captured demo_storable demo_size _ _ _ _ call demo_accepted refl refl refl])
     (simp_all add: demo_run demo_Begin demo_opts inv mem_inv_New mem_view_New demo_inv)+
  then show ?thesis using call by auto
qed

section \<open>Rejections, failures and releases\<close>

text \<open>
  The properties of this section hold over every store that keeps the contract (the hypothesis
  \<open>lease_store\<close>, which \<open>Deployments\<close> and \<open>Pg_Store\<close> prove of the three stores of the repository).
\<close>

lemmas client_of = lease_client.intro

text \<open>What the default error writer puts on a fresh connection.\<close>

lemma WriteError_problem:
  assumes "errorWriter cfg = problemWriter" "fresh_rw (wd_w wd)" "400 \<le> code" "code \<le> 999"
  obtains wd' where "WriteError cfg r code e wd = (False, wd')" "wd_calls wd' = wd_calls wd" "wd_store wd' = wd_store wd"
    "rw_sent (wd_w wd') = Some (code, hdr_Set (rw_header (wd_w wd)) ''Content-Type'' ''application/problem+json'')"
proof -
  obtain w' where "problemWriter r code e (wd_w wd) = (False, w')"
    "rw_sent w' = Some (code, hdr_Set (rw_header (wd_w wd)) ''Content-Type'' ''application/problem+json'')"
    using problemWriter_sends [OF _ _ assms(3,4), of "wd_w wd" r e] assms(2) by (auto simp: fresh_rw_def)
  then show thesis using that assms(1) by (simp add: WriteError_def)
qed

text \<open>
  (C13) While an execution holds the lease of a key, a second request with the key is answered 409
  with the rest of the lease, rounded up to seconds, as \<^verbatim>\<open>Retry-After\<close>; its handler is not
  called, and the store is left as it was.
\<close>

theorem in_flight_is_refused:
  assumes store: "lease_store S sinv sview sclock up grant keep rebuilt"
    and req: "accepted cfg r key body" "ce_rnd env = Inr b" "fresh_rw (wd_w wd)" "errorWriter cfg = problemWriter"
    and begin_env: "a = ce_begin env 1" "sinv (at_between a (wd_store wd))" "up (at_store a)" "sclock (at_store a) \<le> t"
    and held: "sview (sclock (at_store a)) (at_between a (wd_store wd)) (scoped_key (scope_of cfg (rebuffer r body)) key) = Some l"
      "l_state l = StateReserved" "at_check a < rebuilt (at_store a) (l_deadline l)"
  shows "\<exists>wd' hs. ServeHTTP sha256 S cfg h env r c wd = (False, wd') \<and> wd_calls wd' = wd_calls wd \<and>
    sview t (wd_store wd') = sview t (at_between a (wd_store wd)) \<and> rw_sent (wd_w wd') = Some (409, hs) \<and>
    hdr_Values hs ''Retry-After'' = [retryAfterSeconds (time_Sub (rebuilt (at_store a) (l_deadline l)) (at_check a))]"
proof -
  note begin_env' = begin_env(2-4) [unfolded begin_env(1)] and held' = held [unfolded begin_env(1)]
  obtain s' where A: "ServeHTTP sha256 S cfg h env r c wd = answer sha256 cfg (rebuffer r body) (scope_of cfg (rebuffer r body)) key
      (decide l (Fingerprint_of sha256 (Method r) (ReqURL r) body)
        (time_Sub (rebuilt (at_store a) (l_deadline l)) (at_check a))) (wd\<lparr>wd_store := s'\<rparr>)"
    "sview t s' = sview t (at_between a (wd_store wd))"
    unfolding begin_env(1)
    by (rule lease_client.serve_answered [OF client_of [OF store] req(1,2) begin_env'(1,2) held'(1,3) begin_env'(3)])
  let ?ra = "retryAfterSeconds (time_Sub (rebuilt (at_store a) (l_deadline l)) (at_check a))"
  let ?wd = "wd\<lparr>wd_store := s', wd_w := (wd_w wd)\<lparr>rw_header := hdr_Set (rw_header (wd_w wd)) ''Retry-After'' ?ra\<rparr>\<rparr>"
  obtain wd' where W: "WriteError cfg (rebuffer r body) 409 (Sentinel ErrInFlight) ?wd = (False, wd')"
    "wd_calls wd' = wd_calls wd" "wd_store wd' = s'"
    "rw_sent (wd_w wd') = Some (409, hdr_Set (hdr_Set (rw_header (wd_w wd)) ''Retry-After'' ?ra) ''Content-Type'' ''application/problem+json'')"
    by (rule WriteError_problem [OF req(4), of ?wd 409]) (use req(3) in \<open>simp_all add: fresh_rw_def\<close>)
  have canon: "CanonicalMIMEHeaderKey ''Retry-After'' = ''Retry-After''" "CanonicalMIMEHeaderKey ''Content-Type'' = ''Content-Type''"
    by code_simp+
  have "hdr_Values (hdr_Set (hdr_Set (rw_header (wd_w wd)) ''Retry-After'' ?ra) ''Content-Type'' ''application/problem+json'')
      ''Retry-After'' = [?ra]"
    by (simp add: hdr_Values_def hdr_Set_def canon)
  with A W held(2) show ?thesis by (simp add: answer_def decide_def)
qed

text \<open>
  (C14) A key that was completed for one request and arrives with a different fingerprint is
  answered 422; the handler is not called, the stored response is not sent, and the store is
  left as it was.
\<close>

theorem reused_key_is_refused:
  assumes store: "lease_store S sinv sview sclock up grant keep rebuilt"
    and req: "accepted cfg r key body" "ce_rnd env = Inr b" "fresh_rw (wd_w wd)" "errorWriter cfg = problemWriter"
    and begin_env: "a = ce_begin env 1" "sinv (at_between a (wd_store wd))" "up (at_store a)" "sclock (at_store a) \<le> t"
    and found: "sview (sclock (at_store a)) (at_between a (wd_store wd)) (scoped_key (scope_of cfg (rebuffer r body)) key) = Some l"
      "l_state l = StateCompleted" "l_fp l \<noteq> Fingerprint_of sha256 (Method r) (ReqURL r) body"
      "at_check a < rebuilt (at_store a) (l_deadline l)"
  shows "\<exists>wd' hs. ServeHTTP sha256 S cfg h env r c wd = (False, wd') \<and> wd_calls wd' = wd_calls wd \<and>
    sview t (wd_store wd') = sview t (at_between a (wd_store wd)) \<and> rw_sent (wd_w wd') = Some (422, hs) \<and>
    rw_body (wd_w wd') = problem_document 422 (Error (Sentinel ErrFingerprintMismatch))"
proof -
  note begin_env' = begin_env(2-4) [unfolded begin_env(1)] and found' = found [unfolded begin_env(1)]
  obtain s' where A: "ServeHTTP sha256 S cfg h env r c wd = answer sha256 cfg (rebuffer r body) (scope_of cfg (rebuffer r body)) key
      (decide l (Fingerprint_of sha256 (Method r) (ReqURL r) body)
        (time_Sub (rebuilt (at_store a) (l_deadline l)) (at_check a))) (wd\<lparr>wd_store := s'\<rparr>)"
    "sview t s' = sview t (at_between a (wd_store wd))"
    unfolding begin_env(1)
    by (rule lease_client.serve_answered [OF client_of [OF store] req(1,2) begin_env'(1,2) found'(1,4) begin_env'(3)])
  obtain w' where "problemWriter (rebuffer r body) 422 (Sentinel ErrFingerprintMismatch) (wd_w wd) = (False, w')"
    "rw_sent w' = Some (422, hdr_Set (rw_header (wd_w wd)) ''Content-Type'' ''application/problem+json'')"
    "rw_body w' = rw_body (wd_w wd) @ problem_document 422 (Error (Sentinel ErrFingerprintMismatch))"
    using problemWriter_sends [of "wd_w wd" 422 "rebuffer r body" "Sentinel ErrFingerprintMismatch"] req(3)
    by (auto simp: fresh_rw_def)
  with A found(2,3) req(3,4) show ?thesis by (simp add: answer_def decide_def WriteError_def fresh_rw_def)
qed

text \<open>
  (C15) A handler that panics while it holds its lease: the panic goes on to the caller, and the key
  is free again, so that a retry is executed.
\<close>

theorem panic_releases_the_key:
  assumes store: "lease_store S sinv sview sclock up grant keep rebuilt"
    and req: "accepted cfg r key body" "ce_rnd env = Inr b"
    and k: "k = scoped_key (scope_of cfg (rebuffer r body)) key"
    and fp: "fp = Fingerprint_of sha256 (Method r) (ReqURL r) body"
    and free: "sinv (at_between (ce_begin env 1) (wd_store wd))" "up (at_store (ce_begin env 1))"
      "sview (sclock (at_store (ce_begin env 1))) (at_between (ce_begin env 1) (wd_store wd)) k = None"
    and run: "run_under_lease cfg h (rebuffer r body) (lease_ctx k (EncodeToString b) (lease_options cfg) c) (wd_w wd)
        (snd (Begin S (ce_rnd env) (ce_begin env) k fp (lease_options cfg) (wd_store wd))) = (True, st)"
      "\<not> finished (cp_ctx st)"
    and fin: "sinv (ce_before_finish env (cp_store st))" "up (ce_finish env)" "sclock (ce_finish env) \<le> t"
      "held_by (sview (sclock (ce_finish env)) (ce_before_finish env (cp_store st))) k (EncodeToString b) l"
  shows "\<exists>wd'. ServeHTTP sha256 S cfg h env r c wd = (True, wd') \<and> wd_w wd' = cw_w (cp_cw st) \<and>
    sview t (wd_store wd') = (sview t (ce_before_finish env (cp_store st)))(k := None)"
proof -
  let ?s1 = "snd (Begin S (ce_rnd env) (ce_begin env) k fp (lease_options cfg) (wd_store wd))"
  from lease_client.proceed_panics [OF client_of [OF store], where wd = "wd\<lparr>wd_store := ?s1\<rparr>", simplified, OF run fin]
  obtain s' where "serve_proceed S cfg h env (keyAttrs sha256 cfg (scope_of cfg (rebuffer r body)) key) k (EncodeToString b)
      (lease_options cfg) (rebuffer r body) c (wd\<lparr>wd_store := ?s1\<rparr>) = (True, wd\<lparr>wd_w := cw_w (cp_cw st), wd_store := s',
        wd_calls := wd_calls wd @ [(rebuffer r body, lease_ctx k (EncodeToString b) (lease_options cfg) c)]\<rparr>)"
    "sview t s' = (sview t (ce_before_finish env (cp_store st)))(k := None)" by metis
  then show ?thesis by (simp add: lease_client.serve_first [OF client_of [OF store] req free k fp])
qed

text \<open>
  (C16) A response that the policy discards, or that was streamed or exceeds the limit, reaches the
  client but is not stored: the key is free again.
\<close>

theorem unstored_can_be_retried:
  assumes store: "lease_store S sinv sview sclock up grant keep rebuilt"
    and req: "accepted cfg r key body" "ce_rnd env = Inr b"
    and k: "k = scoped_key (scope_of cfg (rebuffer r body)) key"
    and fp: "fp = Fingerprint_of sha256 (Method r) (ReqURL r) body"
    and free: "sinv (at_between (ce_begin env 1) (wd_store wd))" "up (at_store (ce_begin env 1))"
      "sview (sclock (at_store (ce_begin env 1))) (at_between (ce_begin env 1) (wd_store wd)) k = None"
    and run: "run_under_lease cfg h (rebuffer r body) (lease_ctx k (EncodeToString b) (lease_options cfg) c) (wd_w wd)
        (snd (Begin S (ce_rnd env) (ce_begin env) k fp (lease_options cfg) (wd_store wd))) = (False, st)"
      "\<not> finished (cp_ctx st)"
    and outcome: "rec = cw_rec (cw_finalize (cp_cw st))" "d = policy cfg (Status rec) (handlerErr (cp_ctx st))"
      "d = Discard \<or> d = Persist \<and> (abandoned rec \<or> overflowed rec)"
    and fin: "sinv (ce_before_finish env (cp_store st))" "up (ce_finish env)" "sclock (ce_finish env) \<le> t"
      "held_by (sview (sclock (ce_finish env)) (ce_before_finish env (cp_store st))) k (EncodeToString b) l"
  shows "\<exists>wd'. ServeHTTP sha256 S cfg h env r c wd = (False, wd') \<and> wd_w wd' = cw_w (cp_cw st) \<and>
    sview t (wd_store wd') = (sview t (ce_before_finish env (cp_store st)))(k := None)"
proof -
  let ?s1 = "snd (Begin S (ce_rnd env) (ce_begin env) k fp (lease_options cfg) (wd_store wd))"
  from lease_client.proceed_discards [OF client_of [OF store], where wd = "wd\<lparr>wd_store := ?s1\<rparr>", simplified, OF run outcome fin]
  obtain wd' where "serve_proceed S cfg h env (keyAttrs sha256 cfg (scope_of cfg (rebuffer r body)) key) k (EncodeToString b)
      (lease_options cfg) (rebuffer r body) c (wd\<lparr>wd_store := ?s1\<rparr>) = (False, wd')" "wd_w wd' = cw_w (cp_cw st)"
    "sview t (wd_store wd') = (sview t (ce_before_finish env (cp_store st)))(k := None)" by metis
  then show ?thesis by (simp add: lease_client.serve_first [OF client_of [OF store] req free k fp])
qed

text \<open>\<open>Begin\<close> when the store cannot be reached.\<close>

lemma Begin_store_error:
  assumes "Reserve S (at_store (env 1)) (reservation_of key fp (EncodeToString b) opts (at_deadline (env 1)))
      (at_between (env 1) s) = ((x, Some err), s')" "\<not> errors_Is err ErrAlreadyExists"
  shows "Begin S (Inr b) env key fp opts s = (Inl err, s')"
  using assms by (simp add: Begin_def newToken_def begin_loop.simps begin_attempt_def)

text \<open>
  (C18) When the store fails with anything but \<^verbatim>\<open>ErrAlreadyExists\<close>, whatever the store is: without
  \<^verbatim>\<open>FailOpen\<close> the request is answered 503, its handler is not called, and the answer does not
  depend on the store's error; with it the handler runs once on the client's own writer, as if
  the middleware were not there.
\<close>

theorem unreachable_store_fails_closed:
  assumes req: "accepted cfg r key body" "ce_rnd env = Inr b" "fresh_rw (wd_w wd)" "errorWriter cfg = problemWriter"
    and a: "a = ce_begin env 1"
    and down: "Reserve S (at_store a) (reservation_of (scoped_key (scope_of cfg (rebuffer r body)) key)
        (Fingerprint_of sha256 (Method r) (ReqURL r) body) (EncodeToString b) (lease_options cfg) (at_deadline a))
        (at_between a (wd_store wd)) = ((x, Some err), s')" "\<not> errors_Is err ErrAlreadyExists"
  shows "if failOpen cfg
    then ServeHTTP sha256 S cfg h env r c wd = next_ServeHTTP h (rebuffer r body) c
      (warn ''httpidem: store unavailable; proceeding without idempotency (FailOpen)''
        (keyAttrs sha256 cfg (scope_of cfg (rebuffer r body)) key @ error_attr err) (wd\<lparr>wd_store := s'\<rparr>))
    else \<exists>wd' hs. ServeHTTP sha256 S cfg h env r c wd = (False, wd') \<and> wd_calls wd' = wd_calls wd \<and> wd_store wd' = s' \<and>
      rw_sent (wd_w wd') = Some (503, hs) \<and> rw_body (wd_w wd') = problem_document 503 []"
proof -
  have B: "Begin S (ce_rnd env) (ce_begin env) (scoped_key (scope_of cfg (rebuffer r body)) key)
      (Fingerprint_of sha256 (Method r) (ReqURL r) body) (lease_options cfg) (wd_store wd) = (Inl err, s')"
    unfolding req(2) by (rule Begin_store_error [where env = "ce_begin env", OF down [unfolded a]])
  let ?e = "Wrap (sentinel_text ErrStoreUnavailable @ '': '' @ Error err) [Sentinel ErrStoreUnavailable, err]"
  obtain w' where "problemWriter (rebuffer r body) 503 ?e (wd_w wd) = (False, w')"
    "rw_sent w' = Some (503, hdr_Set (rw_header (wd_w wd)) ''Content-Type'' ''application/problem+json'')"
    "rw_body w' = rw_body (wd_w wd) @ problem_document 503 []"
    using problemWriter_sends [of "wd_w wd" 503 "rebuffer r body" ?e] req(3) by (auto simp: fresh_rw_def)
  then show ?thesis using B req(3,4)
    by (simp add: ServeHTTP_accepted [OF req(1)] serve_keyed_def store_do_def WriteError_def fresh_rw_def)
qed

subsection \<open>The same on concrete inputs\<close>

definition demo_key :: string where
  "demo_key = scoped_key (scope_of default_config (rebuffer demo_request ''x'')) ''k1''"

definition demo_fp :: bytes where
  "demo_fp = Fingerprint_of (\<lambda>x. x) (Method demo_request) (ReqURL demo_request) ''x''"

definition demo_reserved :: memstore where
  "demo_reserved = \<lparr>recs = [demo_key \<mapsto> reservation_of demo_key demo_fp ''t1'' (lease_options default_config) 0]\<rparr>"

definition demo_completed :: memstore where
  "demo_completed = \<lparr>recs = [demo_key \<mapsto> (reservation_of demo_key ''other'' ''t1'' (lease_options default_config) 0)
     \<lparr>State := StateCompleted, RecordExpiresAt := 1000\<rparr>]\<rparr>"

lemma demo_stores:
  "mem_inv demo_reserved" "mem_view 10 demo_reserved demo_key = Some (lease_of
     (reservation_of demo_key demo_fp ''t1'' (lease_options default_config) 0))"
  "mem_inv demo_completed" "mem_view 10 demo_completed demo_key = Some (lease_of
     ((reservation_of demo_key ''other'' ''t1'' (lease_options default_config) 0)\<lparr>State := StateCompleted, RecordExpiresAt := 1000\<rparr>))"
  by (simp_all add: mem_inv_def mem_view_def demo_reserved_def demo_completed_def Expired_def demo_opts)

lemma demo_writer: "errorWriter default_config = problemWriter"
  by (simp add: default_config_def)

theorem in_flight_is_refused_witness:
  "\<exists>wd' hs. ServeHTTP (\<lambda>x. x) mem_Store default_config demo_handler (demo_env 10) demo_request background
     (demo_world demo_reserved) = (False, wd') \<and> wd_calls wd' = [] \<and> rw_sent (wd_w wd') = Some (409, hs) \<and>
     hdr_Values hs ''Retry-After'' = [''30'']"
proof -
  have "retryAfterSeconds (time_Sub 30000000000 10) = ''30''" by code_simp
  then show ?thesis
    using in_flight_is_refused [OF ms.lease_store_axioms demo_accepted _ _ demo_writer refl, of "demo_env 10" "''ab''"
        "demo_world demo_reserved" 10 _ "\<lambda>x. x" demo_handler background]
    by (auto simp: demo_stores demo_key_def [symmetric] demo_opts active_deadline_def)
qed

theorem reused_key_is_refused_witness:
  "\<exists>wd' hs. ServeHTTP (\<lambda>x. x) mem_Store default_config demo_handler (demo_env 10) demo_request background
     (demo_world demo_completed) = (False, wd') \<and> wd_calls wd' = [] \<and> rw_sent (wd_w wd') = Some (422, hs)"
proof -
  have "''other'' \<noteq> Fingerprint_of (\<lambda>x. x) (Method demo_request) (ReqURL demo_request) ''x''" by code_simp
  then show ?thesis
    using reused_key_is_refused [OF ms.lease_store_axioms demo_accepted _ _ demo_writer refl, of "demo_env 10" "''ab''"
        "demo_world demo_completed" 10 _ "\<lambda>x. x" demo_handler background]
    by (auto simp: demo_stores demo_key_def [symmetric] active_deadline_def)
qed

definition panic_handler :: "'s handler" where
  "panic_handler r c = Do (SetHeader ''Location'' [''/pay/1'']) (\<lambda>_. Panic)"

definition failing_handler :: "'s handler" where
  "failing_handler r c = Do (WriteHeader 500) (\<lambda>_. Done)"

lemma demo_lease:
  "held_by (mem_view 1 (snd (Begin mem_Store (Inr ''ab'') (ce_begin (demo_env 0)) k fp (lease_options default_config) mem_New)))
     k (EncodeToString ''ab'') (lease_of (reservation_of k fp (EncodeToString ''ab'') (lease_options default_config) 0))"
  unfolding demo_Begin by (simp add: held_by_def mem_view_def Expired_def demo_opts)

lemma demo_started: "mem_inv (snd (Begin mem_Store (Inr ''ab'') (ce_begin (demo_env 0)) k fp opts mem_New))"
  unfolding demo_Begin by (rule demo_inv)

lemma panic_run:
  "\<exists>st. run_under_lease default_config panic_handler r c (new_rw None None) s = (True, st) \<and> cp_ctx st = c \<and> cp_store st = s"
  by (simp add: run_under_lease_def panic_handler_def cap_step_def)

lemma lease_ctx_open: "\<not> finished (lease_ctx k t opts c)"
  by (simp add: finished_def lease_ctx_def FinishChannel_def finishedBox_done_def)

theorem panic_releases_the_key_witness:
  "\<exists>wd'. ServeHTTP (\<lambda>x. x) mem_Store default_config panic_handler (demo_env 0) demo_request background
     (demo_world mem_New) = (True, wd') \<and> mem_view 1 (wd_store wd') demo_key = None"
proof -
  let ?c = "lease_ctx demo_key (EncodeToString ''ab'') (lease_options default_config) background"
  let ?s = "snd (Begin mem_Store (ce_rnd (demo_env 0)) (ce_begin (demo_env 0)) demo_key demo_fp (lease_options default_config) mem_New)"
  obtain st where st: "run_under_lease default_config panic_handler (rebuffer demo_request ''x'') ?c (new_rw None None) ?s = (True, st)"
    "cp_ctx st = ?c" "cp_store st = ?s"
    using panic_run [of "rebuffer demo_request ''x''" ?c ?s] by (elim exE conjE)
  have "\<exists>wd'. ServeHTTP (\<lambda>x. x) mem_Store default_config panic_handler (demo_env 0) demo_request background
      (demo_world mem_New) = (True, wd') \<and> wd_w wd' = cw_w (cp_cw st) \<and>
      mem_view 1 (wd_store wd') = (mem_view 1 (ce_before_finish (demo_env 0) (cp_store st)))(demo_key := None)"
    by (rule panic_releases_the_key [where l = "lease_of (reservation_of demo_key demo_fp (EncodeToString ''ab'') (lease_options default_config) 0)",
          OF ms.lease_store_axioms demo_accepted demo_sel(1) demo_key_def demo_fp_def _ TrueI _ _ _ _ TrueI])
      (simp_all add: st [unfolded demo_sel(1)] mem_inv_New mem_view_New lease_ctx_open demo_started demo_lease)
  then show ?thesis by auto
qed

definition demo_failed :: captureWriter where
  "demo_failed = \<lparr>cw_w = (new_rw None None)\<lparr>rw_sent := Some (500, [])\<rparr>,
     cw_rec = (NewRecorder (maxResponseBody default_config) (storeHeaders default_config))\<lparr>rec_status := 500, rec_header := Some []\<rparr>,
     wroteHeader = True\<rparr>"

lemma failing_write: "cw_WriteHeader 500 \<lparr>cw_w = new_rw None None,
     cw_rec = NewRecorder (maxResponseBody default_config) (storeHeaders default_config), wroteHeader = False\<rparr> = (False, demo_failed)"
  by code_simp

lemma failing_run:
  "run_under_lease default_config failing_handler r c (new_rw None None) s =
     (False, \<lparr>cp_cw = demo_failed, cp_ctx = c, cp_store = s\<rparr>)"
  by (simp add: run_under_lease_def failing_handler_def cap_step_def failing_write)

lemma failing_policy: "policy default_config (Status (cw_rec (cw_finalize demo_failed))) e = Discard"
  by code_simp

theorem unstored_can_be_retried_witness:
  "\<exists>wd'. ServeHTTP (\<lambda>x. x) mem_Store default_config failing_handler (demo_env 0) demo_request background
     (demo_world mem_New) = (False, wd') \<and> rw_sent (wd_w wd') = Some (500, []) \<and> mem_view 1 (wd_store wd') demo_key = None"
proof -
  let ?c = "lease_ctx demo_key (EncodeToString ''ab'') (lease_options default_config) background"
  let ?s = "snd (Begin mem_Store (ce_rnd (demo_env 0)) (ce_begin (demo_env 0)) demo_key demo_fp (lease_options default_config) mem_New)"
  have "\<exists>wd'. ServeHTTP (\<lambda>x. x) mem_Store default_config failing_handler (demo_env 0) demo_request background
      (demo_world mem_New) = (False, wd') \<and> wd_w wd' = cw_w (cp_cw \<lparr>cp_cw = demo_failed, cp_ctx = ?c, cp_store = ?s\<rparr>) \<and>
      mem_view 1 (wd_store wd') = (mem_view 1 (ce_before_finish (demo_env 0)
        (cp_store \<lparr>cp_cw = demo_failed, cp_ctx = ?c, cp_store = ?s\<rparr>)))(demo_key := None)"
    by (rule unstored_can_be_retried [where l = "lease_of (reservation_of demo_key demo_fp (EncodeToString ''ab'') (lease_options default_config) 0)",
          OF ms.lease_store_axioms demo_accepted demo_sel(1) demo_key_def demo_fp_def _ TrueI _ _ _ refl refl _ _ TrueI])
      (simp_all add: failing_run failing_policy mem_inv_New mem_view_New lease_ctx_open demo_started demo_lease)
  then show ?thesis by (auto simp: demo_failed_def)
qed

definition down_env :: "(ref_db, redis_env) call_env" where
  "down_env = (let e = (sample_redis_env 0)\<lparr>re_fail := Some (Opaque ''dial tcp: connection refused'')\<rparr> in
     \<lparr>ce_rnd = Inr ''ab'', ce_begin = (\<lambda>_. \<lparr>at_between = id, at_deadline = 0, at_store = e, at_check = 0\<rparr>),
      ce_before_finish = id, ce_finish = e, ce_before_release = id, ce_release = e\<rparr>)"

theorem unreachable_store_fails_closed_witness:
  "\<exists>wd' hs. ServeHTTP (\<lambda>x. x) (redis_Store reference_redis ''idemlease:'') default_config demo_handler down_env demo_request background
     (demo_world Map.empty) = (False, wd') \<and> wd_calls wd' = [] \<and> rw_sent (wd_w wd') = Some (503, hs) \<and>
     rw_body (wd_w wd') = problem_document 503 []"
proof -
  let ?err = "wrap_after ''redistore: reserve: '' (Opaque ''dial tcp: connection refused'')"
  have "redis_Reserve reference_redis ''idemlease:'' (at_store (ce_begin down_env 1)) rc r = ((None, Some ?err), r)" for rc r
    by (simp add: down_env_def Let_def redis_Reserve_def run_script_def)
  moreover have "\<not> errors_Is ?err ErrAlreadyExists" by (simp add: wrap_after_def)
  moreover have "\<not> failOpen default_config" by (simp add: default_config_def)
  moreover have "ce_rnd down_env = Inr ''ab''" by (simp add: down_env_def Let_def)
  ultimately show ?thesis
    using unreachable_store_fails_closed [OF demo_accepted, of down_env "''ab''" "demo_world Map.empty"
        "ce_begin down_env 1" "redis_Store reference_redis ''idemlease:''" "\<lambda>x. x" None ?err Map.empty demo_handler background]
    by (auto simp: demo_writer down_env_def Let_def)
qed

end
